(* ===== verification/Prelude.thy ===== *)
theory Prelude
  imports Main "HOL-Library.Word"
begin

section \<open>Prelude: results, loops and transition systems\<close>

text \<open>
  What every component of the development shares: the result type of code that can exit, crash,
  throw or block; the loop combinator that the event loops are instances of, with its
  total-correctness rule; and the two locales for step relations (invariants, and termination of
  every schedule) that the concurrent components interpret.
\<close>

named_theorems res_simps \<open>evaluation of results and their sequencing\<close>
named_theorems frame_simps \<open>what an operation leaves unchanged\<close>

subsection \<open>Results\<close>

text \<open>
  A C++ function that returns normally gives \<open>Inr\<close>; \<open>Inl\<close> says how the program stopped instead:
  \<open>Exit\<close> is \<open>exit(code)\<close> with what was printed on stderr, \<open>Undef\<close> undefined behaviour (a read
  of indeterminate memory, an access out of bounds, a null dereference, a signed overflow),
  \<open>Signal\<close> a fatal signal, \<open>Uncaught\<close> an exception that leaves \<open>main\<close>, \<open>Blocked\<close> a call that
  never returns. \<open>OutOfFuel\<close> is not a behaviour of the program: it says that the bound on loop
  iterations of the model was too small.
\<close>

datatype failure =
    Exit int string
  | Undef string
  | Signal string
  | Uncaught string
  | Blocked string
  | OutOfFuel

type_synonym 'a result = "failure + 'a"

fun rbind :: "'a result \<Rightarrow> ('a \<Rightarrow> 'b result) \<Rightarrow> 'b result" where
  "rbind (Inl e) f = Inl e"
| "rbind (Inr x) f = f x"

declare rbind.simps [res_simps]

lemma rbind_Inr_iff [res_simps]: "rbind m f = Inr y \<longleftrightarrow> (\<exists>x. m = Inr x \<and> f x = Inr y)"
  by (cases m) auto

lemma rbind_assoc: "rbind (rbind m f) g = rbind m (\<lambda>x. rbind (f x) g)"
  by (cases m) auto

lemma rbind_Inr_right [res_simps]: "rbind m Inr = m"
  by (cases m) auto

lemma rbind_cong [fundef_cong]:
  "m = m' \<Longrightarrow> (\<And>x. m' = Inr x \<Longrightarrow> f x = g x) \<Longrightarrow> rbind m f = rbind m' g"
  by (cases m') auto

text \<open>
  \<open>post F Q r\<close>: the result is a value with property \<open>Q\<close> or a failure in \<open>F\<close>. Its rules follow the
  structure of the code, so that invariants and the absence of failures are proved together.
\<close>

definition post :: "failure set \<Rightarrow> ('a \<Rightarrow> bool) \<Rightarrow> 'a result \<Rightarrow> bool" where
  "post F Q r = (case r of Inl f \<Rightarrow> f \<in> F | Inr x \<Rightarrow> Q x)"

lemma post_simps [simp]: "post F Q (Inr x) = Q x" "post F Q (Inl f) = (f \<in> F)"
  by (simp_all add: post_def)

lemma post_bind:
  "post F Q m \<Longrightarrow> (\<And>x. Q x \<Longrightarrow> post F R (f x)) \<Longrightarrow> post F R (rbind m f)"
  by (cases m) auto

lemma post_mono: "post F Q r \<Longrightarrow> F \<subseteq> G \<Longrightarrow> (\<And>x. Q x \<Longrightarrow> R x) \<Longrightarrow> post G R r"
  by (cases r) auto

lemma postD: "post F Q r \<Longrightarrow> r = Inl f \<Longrightarrow> f \<in> F" "post F Q r \<Longrightarrow> r = Inr x \<Longrightarrow> Q x"
  by auto

subsection \<open>Machine integers of the source\<close>

text \<open>
  \<open>int\<close> is 32 bits and \<open>long\<close> 64 bits on the platforms of the program (LP64). Signed overflow is
  undefined behaviour, so signed arithmetic is done on \<^typ>\<open>int\<close> with a range check.
\<close>

definition INT_MAX :: int where "INT_MAX = 2147483647"

definition int_ok :: "int \<Rightarrow> bool" where
  "int_ok x \<longleftrightarrow> - INT_MAX - 1 \<le> x \<and> x \<le> INT_MAX"

definition long_ok :: "int \<Rightarrow> bool" where
  "long_ok x \<longleftrightarrow> - 9223372036854775808 \<le> x \<and> x \<le> 9223372036854775807"

definition int_op :: "int \<Rightarrow> int result" where
  "int_op x = (if int_ok x then Inr x else Inl (Undef ''signed int overflow''))"

definition long_op :: "int \<Rightarrow> int result" where
  "long_op x = (if long_ok x then Inr x else Inl (Undef ''signed long overflow''))"

lemma int_op_ok [res_simps]: "int_ok x \<Longrightarrow> int_op x = Inr x"
  by (simp add: int_op_def)

lemma long_op_ok [res_simps]: "long_ok x \<Longrightarrow> long_op x = Inr x"
  by (simp add: long_op_def)

lemma int_op_Inr_iff [res_simps]: "int_op x = Inr y \<longleftrightarrow> int_ok x \<and> y = x"
  by (auto simp: int_op_def)

lemma long_op_Inr_iff [res_simps]: "long_op x = Inr y \<longleftrightarrow> long_ok x \<and> y = x"
  by (auto simp: long_op_def)

subsection \<open>Loops\<close>

text \<open>
  \<open>run_loop fin it n w\<close> runs \<open>while (!fin(w)) it(w)\<close> for at most \<open>n\<close> iterations.
\<close>

fun run_loop :: "('w \<Rightarrow> bool) \<Rightarrow> ('w \<Rightarrow> 'w result) \<Rightarrow> nat \<Rightarrow> 'w \<Rightarrow> 'w result" where
  "run_loop fin it 0 w = (if fin w then Inr w else Inl OutOfFuel)"
| "run_loop fin it (Suc n) w = (if fin w then Inr w else rbind (it w) (run_loop fin it n))"

lemma run_loop_fin [res_simps]: "fin w \<Longrightarrow> run_loop fin it n w = Inr w"
  by (cases n) auto

lemma run_loop_step: "\<not> fin w \<Longrightarrow> it w = Inr w' \<Longrightarrow> run_loop fin it (Suc n) w = run_loop fin it n w'"
  by simp

lemma run_loop_Inr_fin: "run_loop fin it n w = Inr w' \<Longrightarrow> fin w'"
  by (induction n arbitrary: w) (auto simp: res_simps split: if_splits)

lemma run_loop_more:
  assumes "run_loop fin it n w \<noteq> Inl OutOfFuel" and "n \<le> m"
  shows "run_loop fin it m w = run_loop fin it n w"
  using assms
proof (induction n arbitrary: w m)
  case 0
  then show ?case by (cases "fin w") (simp_all add: run_loop_fin)
next
  case (Suc n)
  from Suc.prems(2) obtain m' where m: "m = Suc m'" "n \<le> m'" by (cases m) auto
  show ?case
  proof (cases "fin w")
    case False
    with Suc.prems(1) m(2) Suc.IH [where m = m'] show ?thesis by (cases "it w") (simp_all add: m(1))
  qed (simp add: run_loop_fin)
qed

text \<open>The total-correctness rule: an invariant and a measure that every iteration decreases.\<close>

lemma run_loop_total:
  assumes step: "\<And>w. I w \<Longrightarrow> \<not> fin w \<Longrightarrow> \<exists>w'. it w = Inr w' \<and> I w' \<and> m w' < m w"
    and "I w" and "m w \<le> n"
  shows "\<exists>w'. run_loop fin it n w = Inr w' \<and> I w' \<and> fin w'"
  using assms(2,3)
proof (induction n arbitrary: w)
  case 0
  with step [of w] have "fin w" by auto
  with 0 show ?case by simp
next
  case (Suc n)
  show ?case
  proof (cases "fin w")
    case False
    with step [OF Suc.prems(1)] obtain w' where "it w = Inr w'" "I w'" "m w' < m w" by blast
    with Suc.IH [of w'] Suc.prems(2) False show ?thesis by simp
  qed (use Suc.prems in simp)
qed

text \<open>
  A loop that goes on after the states that a second test stops in: the run up to such a state is the
  same for both.
\<close>

lemma run_loop_then:
  assumes "run_loop fin' it n w = Inr w'" and "\<And>v. fin v \<Longrightarrow> fin' v" and "\<And>m. run_loop fin it (Suc m) w' = Inr w''"
  shows "run_loop fin it (Suc n) w = Inr w''"
  using assms(1)
proof (induction n arbitrary: w)
  case 0
  then show ?case using assms(3) by (auto split: if_splits)
next
  case (Suc n)
  show ?case
  proof (cases "fin' w")
    case True
    then show ?thesis using Suc.prems assms(3) by simp
  next
    case False
    then have "\<not> fin w" using assms(2) by blast
    moreover from False Suc.prems obtain v where "it w = Inr v" "run_loop fin' it n v = Inr w'"
      by (auto simp: res_simps)
    ultimately show ?thesis using Suc.IH by simp
  qed
qed

text \<open>An iteration that keeps an invariant and never finishes: the loop runs for ever.\<close>

lemma run_loop_spins:
  assumes "\<And>w. I w \<Longrightarrow> \<not> fin w \<and> (\<exists>w'. it w = Inr w' \<and> I w')" and "I w"
  shows "run_loop fin it n w = Inl OutOfFuel"
  using assms(2)
proof (induction n arbitrary: w)
  case 0
  then show ?case using assms(1) by simp
next
  case (Suc n)
  with assms(1) [of w] show ?case by auto
qed

text \<open>Partial correctness: an invariant of the iterations, and the failures they can raise.\<close>

lemma run_loop_post:
  assumes "\<And>w. Q w \<Longrightarrow> \<not> fin w \<Longrightarrow> post F Q (it w)" and "Q w" and "OutOfFuel \<in> F"
  shows "post F Q (run_loop fin it n w)"
  using assms(2)
proof (induction n arbitrary: w)
  case 0
  then show ?case using assms(3) by simp
next
  case (Suc n)
  then show ?case using post_bind [OF assms(1) Suc.IH] by simp
qed

subsection \<open>Sums over lists\<close>

lemma sum_list_update_map:
  fixes f :: "'a \<Rightarrow> nat"
  assumes "a < length xs"
  shows "sum_list (map f (xs[a := y])) + f (xs ! a) = sum_list (map f xs) + f y"
  using assms
proof (induction xs arbitrary: a)
  case (Cons x xs)
  then show ?case by (cases a) auto
qed simp

subsection \<open>Step relations\<close>

text \<open>
  The contract a concurrent component offers: an invariant that holds at the start and that every
  step keeps. Its reachable states then satisfy the invariant.
\<close>

locale invariant_system =
  fixes init :: "'s \<Rightarrow> bool"
    and step :: "'s \<Rightarrow> 's \<Rightarrow> bool"
    and inv :: "'s \<Rightarrow> bool"
  assumes inv_init: "init s \<Longrightarrow> inv s"
    and inv_step: "inv s \<Longrightarrow> step s t \<Longrightarrow> inv t"
begin

lemma inv_steps: "step\<^sup>*\<^sup>* s t \<Longrightarrow> inv s \<Longrightarrow> inv t"
  by (induction rule: rtranclp_induct) (auto intro: inv_step)

lemma inv_reachable: "init s \<Longrightarrow> step\<^sup>*\<^sup>* s t \<Longrightarrow> inv t"
  by (blast intro: inv_steps inv_init)

end

text \<open>
  A component refines a specification when an abstraction function maps every step from a state of
  the invariant to a step of the specification or to no step at all.
\<close>

locale refinement = invariant_system init step inv
  for init :: "'s \<Rightarrow> bool" and step :: "'s \<Rightarrow> 's \<Rightarrow> bool" and inv :: "'s \<Rightarrow> bool" +
  fixes abstr :: "'s \<Rightarrow> 'a"
    and astep :: "'a \<Rightarrow> 'a \<Rightarrow> bool"
  assumes simulates: "inv s \<Longrightarrow> step s t \<Longrightarrow> abstr t = abstr s \<or> astep (abstr s) (abstr t)"
begin

lemma simulates_steps:
  assumes "step\<^sup>*\<^sup>* s t" and "inv s"
  shows "astep\<^sup>*\<^sup>* (abstr s) (abstr t)"
  using assms(1)
proof (induction rule: rtranclp_induct)
  case (step t u)
  then have "abstr u = abstr t \<or> astep (abstr t) (abstr u)"
    using simulates inv_steps [OF step(1) assms(2)] by blast
  with step.IH show ?case by (auto intro: rtranclp.rtrancl_into_rtrancl)
qed simp

end

text \<open>Several copies of a component side by side, one of which moves.\<close>

definition one_steps :: "('s \<Rightarrow> 's \<Rightarrow> bool) \<Rightarrow> 's list \<Rightarrow> 's list \<Rightarrow> bool" where
  "one_steps step ss ts \<longleftrightarrow> (\<exists>i < length ss. \<exists>t. step (ss ! i) t \<and> ts = ss[i := t])"

lemma one_steps_length: "(one_steps step)\<^sup>*\<^sup>* ss ts \<Longrightarrow> length ts = length ss"
  by (induction rule: rtranclp_induct) (auto simp: one_steps_def)

text \<open>
  A terminating component moreover has a measure that every step decreases, and is stuck only in
  its final states: then every schedule, however it interleaves the threads, ends in a final state.
\<close>

locale terminating_system = invariant_system init step inv
  for init :: "'s \<Rightarrow> bool" and step :: "'s \<Rightarrow> 's \<Rightarrow> bool" and inv :: "'s \<Rightarrow> bool" +
  fixes final :: "'s \<Rightarrow> bool"
    and mes :: "'s \<Rightarrow> nat"
  assumes progress: "inv s \<Longrightarrow> \<not> final s \<Longrightarrow> \<exists>t. step s t"
    and decrease: "inv s \<Longrightarrow> step s t \<Longrightarrow> mes t < mes s"
begin

lemma reaches_final: "inv s \<Longrightarrow> \<exists>t. step\<^sup>*\<^sup>* s t \<and> final t"
proof (induction "mes s" arbitrary: s rule: less_induct)
  case less
  show ?case
  proof (cases "final s")
    case False
    with progress [OF less.prems] obtain t where t: "step s t" by blast
    with less.prems have "inv t" "mes t < mes s" by (auto intro: inv_step decrease)
    with less.hyps obtain u where "step\<^sup>*\<^sup>* t u" "final u" by blast
    with t show ?thesis by (meson converse_rtranclp_into_rtranclp)
  qed blast
qed

lemma finishes: "inv s \<Longrightarrow> \<exists>n t. (step ^^ n) s t \<and> final t"
  by (meson reaches_final rtranclp_imp_relpowp)

lemma schedule_bounded: "(step ^^ n) s t \<Longrightarrow> inv s \<Longrightarrow> n + mes t \<le> mes s"
proof (induction n arbitrary: t)
  case (Suc n)
  then obtain u where u: "(step ^^ n) s u" "step u t" by auto
  with Suc have le: "n + mes u \<le> mes s" by blast
  have "inv u" using u(1) Suc.prems(2) by (meson inv_steps relpowp_imp_rtranclp)
  then have "mes t < mes u" using u(2) by (rule decrease)
  with le show ?case by linarith
qed simp

lemma stuck_is_final: "inv s \<Longrightarrow> step\<^sup>*\<^sup>* s t \<Longrightarrow> (\<nexists>u. step t u) \<Longrightarrow> final t"
  by (meson inv_steps progress)

text \<open>Copies side by side form a terminating component again.\<close>

lemma copies: "terminating_system (\<lambda>ss. \<forall>s \<in> set ss. init s) (one_steps step) (\<lambda>ss. \<forall>s \<in> set ss. inv s)
  (\<lambda>ss. \<forall>s \<in> set ss. final s) (\<lambda>ss. sum_list (map mes ss))"
proof unfold_locales
  fix ss ts
  assume inv: "\<forall>s \<in> set ss. inv s" and "one_steps step ss ts"
  then obtain i t where i: "i < length ss" "step (ss ! i) t" "ts = ss[i := t]" by (auto simp: one_steps_def)
  with inv have t: "inv t" "mes t < mes (ss ! i)" by (auto intro: inv_step decrease)
  show "\<forall>s \<in> set ts. inv s" using inv t(1) i(3) set_update_subset_insert [of ss i t] by auto
  show "sum_list (map mes ts) < sum_list (map mes ss)"
    using sum_list_update_map [OF i(1), of mes t] t(2) i(3) by simp
next
  fix ss
  assume "\<forall>s \<in> set ss. inv s" and "\<not> (\<forall>s \<in> set ss. final s)"
  then obtain i where "i < length ss" "\<exists>t. step (ss ! i) t" by (metis in_set_conv_nth progress)
  then show "\<exists>ts. one_steps step ss ts" by (auto simp: one_steps_def)
qed (auto intro: inv_init)

end

end
