(* ===== verification/CMemory.thy ===== *)
theory CMemory
  imports Prelude
begin

section \<open>C memory: buffers and strings\<close>

text \<open>
  What the program uses of the C library on raw memory. A buffer is a list of cells; \<open>None\<close> is a
  cell whose value is indeterminate (an uninitialised \<open>char\<close>). Reading such a cell, or past the
  end of the buffer, is undefined behaviour.
\<close>

type_synonym cells = "char option list"

abbreviation NUL :: char where "NUL \<equiv> CHR 0x00"

text \<open>
  \<open>strcmp(s1, s2)\<close>: the sign of the first difference, compared as \<open>unsigned char\<close>; \<open>None\<close> when the
  comparison runs into an indeterminate cell or leaves one of the two objects.
\<close>

fun strcmp :: "cells \<Rightarrow> char list \<Rightarrow> int option" where
  "strcmp (Some a # as) (b # bs) =
     (if a \<noteq> b then Some (if (of_char a :: nat) < of_char b then -1 else 1)
      else if a = NUL then Some 0
      else strcmp as bs)"
| "strcmp _ _ = None"

text \<open>
  \<open>memcpy(dst, src, n)\<close>, where \<open>n\<close> is the value of the source's \<open>int len\<close> converted to \<open>size_t\<close>:
  a negative length becomes a huge one, so it is out of bounds like every length that exceeds one
  of the two objects.
\<close>

definition c_memcpy :: "cells \<Rightarrow> char list \<Rightarrow> int \<Rightarrow> cells result" where
  "c_memcpy dst src n =
     (if 0 \<le> n \<and> nat n \<le> length dst \<and> nat n \<le> length src
      then Inr (map Some (take (nat n) src) @ drop (nat n) dst)
      else Inl (Undef ''memcpy out of bounds''))"

text \<open>
  The effect on \<open>char buf[size]\<close> of a call that stores the received bytes \<open>bs\<close> at its front: at
  most \<open>size\<close> of them, the rest of the buffer keeps what it held.
\<close>

definition recv_into :: "cells \<Rightarrow> char list \<Rightarrow> cells" where
  "recv_into buf bs = map Some (take (length buf) bs) @ drop (length bs) buf"

lemma length_c_memcpy: "c_memcpy dst src n = Inr d \<Longrightarrow> length d = length dst"
  by (auto simp: c_memcpy_def split: if_splits)

lemma length_recv_into [simp]: "length (recv_into buf bs) = length buf"
  by (simp add: recv_into_def)

lemma c_memcpy_all [res_simps]:
  "length src \<le> length dst \<Longrightarrow>
   c_memcpy dst src (int (length src)) = Inr (map Some src @ drop (length src) dst)"
  by (simp add: c_memcpy_def)

lemma recv_into_fits: "length bs \<le> length buf \<Longrightarrow> recv_into buf bs = map Some bs @ drop (length bs) buf"
  by (simp add: recv_into_def)

subsection \<open>Comparing with a message\<close>

text \<open>A message is a non-empty list of characters that ends with its only NUL, as a literal does.\<close>

definition c_string :: "char list \<Rightarrow> bool" where
  "c_string m \<longleftrightarrow> m \<noteq> [] \<and> last m = NUL \<and> NUL \<notin> set (butlast m)"

lemma c_string_Cons [simp]:
  "c_string (a # m) \<longleftrightarrow> (if a = NUL then m = [] else c_string m)"
  by (cases m) (auto simp: c_string_def)

lemma c_string_Nil [simp]: "\<not> c_string []"
  by (simp add: c_string_def)

text \<open>\<open>strcmp\<close> gives 0 exactly when the buffer starts with the message, its NUL included.\<close>

lemma strcmp_zero_iff:
  "c_string m \<Longrightarrow> strcmp buf m = Some 0 \<longleftrightarrow> (\<exists>rest. buf = map Some m @ rest)"
proof (induction buf m rule: strcmp.induct)
  case (1 a as b bs)
  then show ?case by (cases "a = NUL") (auto split: if_splits)
qed (auto simp: Cons_eq_append_conv)

lemma strcmp_prefix [res_simps]: "c_string m \<Longrightarrow> strcmp (map Some m @ rest) m = Some 0"
  by (simp add: strcmp_zero_iff)

text \<open>
  A buffer that holds only a proper part of the message in front of indeterminate cells (a message
  that arrived in pieces) makes the comparison read an indeterminate cell.
\<close>

lemma strcmp_partial:
  "c_string m \<Longrightarrow> n < length m \<Longrightarrow> strcmp (map Some (take n m) @ None # rest) m = None"
proof (induction m arbitrary: n)
  case (Cons a m)
  then show ?case by (cases n) (auto split: if_splits)
qed simp

lemma strcmp_short: "c_string m \<Longrightarrow> n < length m \<Longrightarrow> strcmp (map Some (take n m)) m = None"
proof (induction m arbitrary: n)
  case (Cons a m)
  then show ?case by (cases n) (auto split: if_splits)
qed simp

text \<open>A buffer that differs from the message at a cell before any NUL compares unequal.\<close>

lemma strcmp_differs:
  assumes "NUL \<notin> set pre" and "a \<noteq> b"
  shows "\<exists>c. strcmp (map Some pre @ Some a # rest) (pre @ b # m) = Some c \<and> c \<noteq> 0"
  using assms(1)
proof (induction pre)
  case Nil
  then show ?case using assms(2) by simp
next
  case (Cons x pre)
  then show ?case by auto
qed

end
