(* ===== verification/Framework.thy ===== *)
theory Framework
  imports CMemory
begin

section \<open>The event framework (framework.h)\<close>

text \<open>
  The classes \<open>EventHandler\<close> and \<open>EventMain\<close> and the two time helpers. An object of the program is a
  record; a pointer to one of the two handler objects of \<open>main\<close> is a \<open>hid\<close>, with \<open>None\<close> for
  \<open>NULL\<close>; the virtual functions a handler calls on its parent are the record \<open>parent_ops\<close>, which
  every transport fills with its own operations, and \<open>EventMain\<close> extends it with the virtual
  functions that \<open>main\<close> calls. The world of the program holds the objects, the transport's own
  state (with the operating system's objects it uses), the clock and what was printed.
\<close>

subsection \<open>Time\<close>

record timeval =
  tv_sec :: int
  tv_usec :: int

definition getTimeDiff :: "timeval \<Rightarrow> timeval \<Rightarrow> int result" where
  "getTimeDiff t2 t1 =
     rbind (long_op (1000000 * tv_sec t2)) (\<lambda>p2.
     rbind (long_op (tv_usec t2 + p2)) (\<lambda>s2.
     rbind (long_op (1000000 * tv_sec t1)) (\<lambda>p1.
     rbind (long_op (tv_usec t1 + p1)) (\<lambda>s1.
     long_op (s2 - s1)))))"

text \<open>
  A reading of the clock as \<open>gettimeofday\<close> gives it: normalised microseconds, and seconds since
  the epoch in a range (up to the year 36812) in which the arithmetic of \<open>getTimeDiff\<close> fits.
\<close>

definition clock_reading :: "timeval \<Rightarrow> bool" where
  "clock_reading t \<longleftrightarrow> 0 \<le> tv_usec t \<and> tv_usec t < 1000000 \<and> 0 \<le> tv_sec t \<and> tv_sec t < 2 ^ 40"

definition usecs :: "timeval \<Rightarrow> int" where
  "usecs t = tv_usec t + 1000000 * tv_sec t"

lemma usecs_bounds: "clock_reading t \<Longrightarrow> 0 \<le> usecs t \<and> usecs t < 1000000 * 2 ^ 40"
  by (auto simp: clock_reading_def usecs_def)

lemma getTimeDiff_exact [res_simps]:
  assumes "clock_reading t1" and "clock_reading t2"
  shows "getTimeDiff t2 t1 = Inr (usecs t2 - usecs t1)"
  using assms
  by (simp add: getTimeDiff_def long_op_def long_ok_def clock_reading_def usecs_def)

subsection \<open>Handlers\<close>

datatype main_ref = MainProcessor

datatype hid = ServerObj | ClientObj

lemma hid_all: "(\<forall>h. Q h) \<longleftrightarrow> Q ServerObj \<and> Q ClientObj"
  by (metis hid.exhaust)

record 'c EventHandler =
  parent :: "main_ref option"
  m_output :: "char list option"
  m_outputLength :: nat
  isMore :: bool
  pContext :: 'c
  description :: string

text \<open>\<open>null\<close> is the value of a null \<open>Context *\<close> in the transport's representation of contexts.\<close>

definition EventHandler_new :: "'c \<Rightarrow> 'c EventHandler" where
  "EventHandler_new null =
     \<lparr>parent = None, m_output = None, m_outputLength = 0, isMore = False, pContext = null,
      description = ''generic''\<rparr>"

text \<open>The state an \<open>EchoClient\<close> adds (see the theory EchoTest); \<open>beginTime\<close> starts indeterminate.\<close>

record 'c EchoClient = "'c EventHandler" +
  numGot :: int
  numSent :: int
  maxSend :: int
  beginTime :: "timeval option"

datatype printed =
    PrintedTime timeval
  | PrintedReport int int int

record ('c, 't) world =
  server_obj :: "'c EventHandler"
  client_obj :: "'c EchoClient"
  main_obj :: 't
  clock :: "nat \<Rightarrow> timeval"
  clock_reads :: nat
  stdout :: "printed list"

fun getContext :: "hid \<Rightarrow> ('c, 't, 'z) world_scheme \<Rightarrow> 'c" where
  "getContext ServerObj w = pContext (server_obj w)"
| "getContext ClientObj w = pContext (client_obj w)"

fun setContext :: "hid \<Rightarrow> 'c \<Rightarrow> ('c, 't, 'z) world_scheme \<Rightarrow> ('c, 't, 'z) world_scheme" where
  "setContext ServerObj c w = w\<lparr>server_obj := (server_obj w)\<lparr>pContext := c\<rparr>\<rparr>"
| "setContext ClientObj c w = w\<lparr>client_obj := (client_obj w)\<lparr>pContext := c\<rparr>\<rparr>"

fun getParent :: "hid \<Rightarrow> ('c, 't, 'z) world_scheme \<Rightarrow> main_ref option" where
  "getParent ServerObj w = parent (server_obj w)"
| "getParent ClientObj w = parent (client_obj w)"

fun getDescription :: "hid \<Rightarrow> ('c, 't, 'z) world_scheme \<Rightarrow> string" where
  "getDescription ServerObj w = description (server_obj w)"
| "getDescription ClientObj w = description (client_obj w)"

fun setParent :: "hid \<Rightarrow> ('c, 't, 'z) world_scheme \<Rightarrow> ('c, 't, 'z) world_scheme" where
  "setParent ServerObj w = w\<lparr>server_obj := (server_obj w)\<lparr>parent := Some MainProcessor\<rparr>\<rparr>"
| "setParent ClientObj w = w\<lparr>client_obj := (client_obj w)\<lparr>parent := Some MainProcessor\<rparr>\<rparr>"

subsection \<open>The main processor\<close>

record 'w parent_ops =
  em_send :: "hid option \<Rightarrow> char list \<Rightarrow> int \<Rightarrow> bool \<Rightarrow> 'w \<Rightarrow> 'w result"
  em_cancelLoop :: "'w \<Rightarrow> 'w"

record 'w EventMain = "'w parent_ops" +
  em_initialize :: "'w \<Rightarrow> 'w"
  em_bindServer :: "string \<Rightarrow> hid \<Rightarrow> 'w \<Rightarrow> 'w result"
  em_connectToServer :: "string \<Rightarrow> string \<Rightarrow> hid \<Rightarrow> 'w \<Rightarrow> 'w result"
  em_process :: "nat \<Rightarrow> 'w \<Rightarrow> 'w result"

definition EventHandler_send ::
  "('c, 't, 'z) world_scheme parent_ops \<Rightarrow> hid \<Rightarrow> char list \<Rightarrow> int \<Rightarrow> bool \<Rightarrow> ('c, 't, 'z) world_scheme \<Rightarrow> ('c, 't, 'z) world_scheme result"
where
  "EventHandler_send P h data len iseof w =
     (case getParent h w of
        None \<Rightarrow> Inl (Undef ''null parent'')
      | Some _ \<Rightarrow> em_send P (Some h) data len iseof w)"

subsection \<open>Clock and standard output\<close>

definition gettimeofday :: "('c, 't, 'z) world_scheme \<Rightarrow> timeval \<times> ('c, 't, 'z) world_scheme" where
  "gettimeofday w = (clock w (clock_reads w), w\<lparr>clock_reads := Suc (clock_reads w)\<rparr>)"

definition print_line :: "printed \<Rightarrow> ('c, 't, 'z) world_scheme \<Rightarrow> ('c, 't, 'z) world_scheme" where
  "print_line x w = w\<lparr>stdout := stdout w @ [x]\<rparr>"

definition printCurrentTime :: "('c, 't, 'z) world_scheme \<Rightarrow> ('c, 't, 'z) world_scheme" where
  "printCurrentTime w = (let (currTime, w') = gettimeofday w in print_line (PrintedTime currTime) w')"

subsection \<open>What belongs to the application and what to the transport\<close>

text \<open>
  \<open>app_of\<close> reads what the application keeps: the client's counters, the clock and the output;
  \<open>net_of\<close> what the transport keeps: its own object and the fields of the handlers it sets.
\<close>

definition app_of ::
  "('c, 't, 'z) world_scheme \<Rightarrow> (int \<times> int \<times> int \<times> timeval option) \<times> (nat \<Rightarrow> timeval) \<times> nat \<times> printed list"
where
  "app_of w = ((numGot (client_obj w), numSent (client_obj w), maxSend (client_obj w),
      beginTime (client_obj w)), clock w, clock_reads w, stdout w)"

definition net_of ::
  "('c, 't, 'z) world_scheme \<Rightarrow> 't \<times> 'c \<times> 'c \<times> main_ref option \<times> main_ref option"
where
  "net_of w = (main_obj w, pContext (server_obj w), pContext (client_obj w),
      parent (server_obj w), parent (client_obj w))"

lemma getContext_setContext [simp]: "getContext h (setContext h' c w) = (if h = h' then c else getContext h w)"
  by (cases h; cases h') auto

lemma getContext_setParent [simp]: "getContext h (setParent h' w) = getContext h w"
  by (cases h; cases h') auto

lemma getParent_setContext [simp]: "getParent h (setContext h' c w) = getParent h w"
  by (cases h; cases h') auto

lemma getParent_setParent [simp]:
  "getParent h (setParent h' w) = (if h = h' then Some MainProcessor else getParent h w)"
  by (cases h; cases h') auto

lemma getContext_main_obj [simp]: "getContext h (main_obj_update f w) = getContext h w"
  by (cases h) auto

lemma getParent_main_obj [simp]: "getParent h (main_obj_update f w) = getParent h w"
  by (cases h) auto

lemma main_obj_setContext [simp]: "main_obj (setContext h c w) = main_obj w"
  by (cases h) auto

lemma main_obj_setParent [simp]: "main_obj (setParent h w) = main_obj w"
  by (cases h) auto

lemma app_of_setContext [frame_simps]: "app_of (setContext h c w) = app_of w"
  by (cases h) (auto simp: app_of_def)

lemma app_of_setParent [frame_simps]: "app_of (setParent h w) = app_of w"
  by (cases h) (auto simp: app_of_def)

lemma app_of_main_obj [frame_simps]: "app_of (main_obj_update f w) = app_of w"
  by (auto simp: app_of_def)

lemma net_of_eqD:
  assumes "net_of w = net_of w'"
  shows "main_obj w = main_obj w'" "getContext h w = getContext h w'" "getParent h w = getParent h w'"
  using assms by (cases h; auto simp: net_of_def)+

lemma net_of_print [frame_simps]: "net_of (print_line x w) = net_of w"
  by (simp add: net_of_def print_line_def)

lemma net_of_gettimeofday [frame_simps]: "net_of (snd (gettimeofday w)) = net_of w"
  by (simp add: net_of_def gettimeofday_def)

lemma net_of_printCurrentTime [frame_simps]: "net_of (printCurrentTime w) = net_of w"
  by (simp add: net_of_def printCurrentTime_def gettimeofday_def print_line_def)

end
