(* ===== verification/EchoTest.thy ===== *)
theory EchoTest
  imports Framework
begin

section \<open>The echo test (echotestlib.h)\<close>

text \<open>
  The two handlers of the benchmark: \<open>EchoServer\<close> answers every request, \<open>EchoClient\<close> sends a
  request, counts the responses, takes the time at the first and at the last one and then ends
  the loop. The locale \<open>echo_transport\<close> is the contract between these handlers and a transport
  (an \<open>EventMain\<close>): the handlers' exchange is proved once against it, and every transport theory
  interprets it on its own loop.
\<close>

definition client_message :: "char list" where
  "client_message = ''Hello from client!'' @ [NUL]"

definition server_message :: "char list" where
  "server_message = ''Hello from server!'' @ [NUL]"

definition EchoServer_new :: "'c \<Rightarrow> 'c EventHandler" where
  "EchoServer_new null = (EventHandler_new null)\<lparr>description := ''echo server''\<rparr>"

definition EchoServer_process ::
  "('c, 't) world parent_ops \<Rightarrow> cells \<Rightarrow> int \<Rightarrow> bool \<Rightarrow> ('c, 't) world \<Rightarrow> ('c, 't) world result"
where
  "EchoServer_process P data len iseof w =
     (case strcmp data client_message of
        None \<Rightarrow> Inl (Undef ''strcmp reads indeterminate memory'')
      | Some c \<Rightarrow>
          if c \<noteq> 0 then Inl (Exit 1 ''Invalid message from client'')
          else EventHandler_send P ServerObj server_message (int (length server_message)) True w)"

definition EchoClient_new :: "'c \<Rightarrow> int \<Rightarrow> 'c EchoClient" where
  "EchoClient_new null nReq =
     \<lparr>parent = None, m_output = None, m_outputLength = 0, isMore = False, pContext = null,
      description = ''echo client'', numGot = 0, numSent = 0, maxSend = nReq, beginTime = None\<rparr>"

definition EchoClient_sendData ::
  "('c, 't) world parent_ops \<Rightarrow> ('c, 't) world \<Rightarrow> ('c, 't) world result"
where
  "EchoClient_sendData P w =
     rbind (EventHandler_send P ClientObj client_message (int (length client_message)) True w) (\<lambda>w.
     rbind (int_op (numSent (client_obj w) + 1)) (\<lambda>n.
     Inr (w\<lparr>client_obj := (client_obj w)\<lparr>numSent := n\<rparr>\<rparr>)))"

text \<open>
  The line the client prints at the end: \<open>timediff\<close> is an \<open>unsigned long\<close>, the products and the
  quotient are unsigned 64-bit, and \<open>%ld\<close> prints them as signed.
\<close>

definition messages_per_sec :: "int \<Rightarrow> 64 word \<Rightarrow> 64 word" where
  "messages_per_sec n timediff = (word_of_int n * 1000000) div (if timediff \<noteq> 0 then timediff else 1)"

definition EchoClient_report :: "int \<Rightarrow> 64 word \<Rightarrow> printed" where
  "EchoClient_report n timediff = PrintedReport n (sint timediff) (sint (messages_per_sec n timediff))"

definition EchoClient_process ::
  "('c, 't) world parent_ops \<Rightarrow> cells \<Rightarrow> int \<Rightarrow> bool \<Rightarrow> ('c, 't) world \<Rightarrow> ('c, 't) world result"
where
  "EchoClient_process P data len iseof w =
     (case strcmp data server_message of
        None \<Rightarrow> Inl (Undef ''strcmp reads indeterminate memory'')
      | Some c \<Rightarrow>
          if c \<noteq> 0 then Inl (Exit 1 ''Invalid message from server'')
          else rbind (int_op (numGot (client_obj w) + 1)) (\<lambda>n.
            let w = w\<lparr>client_obj := (client_obj w)\<lparr>numGot := n\<rparr>\<rparr>;
                w = (if n = 1
                     then let (t, w) = gettimeofday (printCurrentTime w)
                          in w\<lparr>client_obj := (client_obj w)\<lparr>beginTime := Some t\<rparr>\<rparr>
                     else w)
            in if n = maxSend (client_obj w)
               then let (endTime, w) = gettimeofday w; w = printCurrentTime w
                    in case beginTime (client_obj w) of
                         None \<Rightarrow> Inl (Undef ''beginTime is indeterminate'')
                       | Some t \<Rightarrow>
                           rbind (getTimeDiff endTime t) (\<lambda>d.
                           let w = print_line (EchoClient_report n (word_of_int d)) w
                           in case getParent ClientObj w of
                                None \<Rightarrow> Inl (Undef ''null parent'')
                              | Some _ \<Rightarrow> Inr (em_cancelLoop P w))
               else EchoClient_sendData P w))"

definition EchoClient_enable ::
  "('c, 't) world parent_ops \<Rightarrow> ('c, 't) world \<Rightarrow> ('c, 't) world result"
where
  "EchoClient_enable P w = EchoClient_sendData P w"

text \<open>The virtual calls \<open>handler->process(...)\<close> and \<open>handler->enable()\<close>.\<close>

fun handler_process ::
  "('c, 't) world parent_ops \<Rightarrow> hid \<Rightarrow> cells \<Rightarrow> int \<Rightarrow> bool \<Rightarrow> ('c, 't) world \<Rightarrow> ('c, 't) world result"
where
  "handler_process P ServerObj data len iseof w = EchoServer_process P data len iseof w"
| "handler_process P ClientObj data len iseof w = EchoClient_process P data len iseof w"

fun handler_enable ::
  "('c, 't) world parent_ops \<Rightarrow> hid \<Rightarrow> ('c, 't) world \<Rightarrow> ('c, 't) world result"
where
  "handler_enable P ServerObj w = Inr w"
| "handler_enable P ClientObj w = EchoClient_enable P w"

subsection \<open>The messages and the report\<close>

lemma c_string_messages [simp]: "c_string client_message" "c_string server_message"
  by (simp_all add: client_message_def server_message_def)

lemma length_messages [simp]: "length client_message = 19" "length server_message = 19"
  by (simp_all add: client_message_def server_message_def)

lemma messages_nonempty [simp]:
  "client_message \<noteq> []" "server_message \<noteq> []" "[] \<noteq> client_message" "[] \<noteq> server_message"
  by (simp_all add: client_message_def server_message_def)

lemma strcmp_other_message:
  "\<exists>c. strcmp (map Some server_message @ rest) client_message = Some c \<and> c \<noteq> 0"
  "\<exists>c. strcmp (map Some client_message @ rest) server_message = Some c \<and> c \<noteq> 0"
  by (simp_all add: client_message_def server_message_def)

text \<open>
  With clock readings in range the printed numbers are the elapsed microseconds and the rate
  rounded down, and a zero interval counts as one microsecond: no division by zero.
\<close>

lemma sint_word_of_int_64:
  "- (2 ^ 63) \<le> x \<Longrightarrow> x < 2 ^ 63 \<Longrightarrow> sint (word_of_int x :: 64 word) = x"
  by (simp add: signed_of_int signed_take_bit_int_eq_self)

lemma uint_word_of_int_64:
  "0 \<le> x \<Longrightarrow> x < 2 ^ 64 \<Longrightarrow> uint (word_of_int x :: 64 word) = x"
  by (simp add: unsigned_of_int take_bit_int_eq_self)

lemma word_of_int_64_eq_0:
  assumes "0 \<le> x" and "x < 2 ^ 64"
  shows "(word_of_int x :: 64 word) = 0 \<longleftrightarrow> x = 0"
  using uint_word_of_int_64 [OF assms] by (auto simp: uint_0_iff)

lemma messages_per_sec_exact:
  assumes "0 \<le> n" and "n \<le> INT_MAX" and "0 \<le> d" and "d < 2 ^ 63"
  shows "messages_per_sec n (word_of_int d) = word_of_int (n * 1000000 div max 1 d)"
proof -
  have n: "0 \<le> n * 1000000" "n * 1000000 < 2 ^ 64" using assms(1,2) by (auto simp: INT_MAX_def)
  have prod: "(word_of_int n * 1000000 :: 64 word) = word_of_int (n * 1000000)" by simp
  show ?thesis
  proof (cases "d = 0")
    case False
    then have "(word_of_int d :: 64 word) \<noteq> 0" using assms(3,4) by (subst word_of_int_64_eq_0) auto
    moreover have "max 1 d = d" using False assms(3) by simp
    ultimately show ?thesis
      using assms(3,4) by (simp add: messages_per_sec_def prod word_div_def uint_word_of_int_64 [OF n]
          uint_word_of_int_64 [of d] del: of_int_mult)
  qed (simp add: messages_per_sec_def)
qed

lemma EchoClient_report_exact:
  assumes "0 \<le> n" and "n \<le> INT_MAX" and "0 \<le> d" and "d < 2 ^ 63"
  shows "EchoClient_report n (word_of_int d) = PrintedReport n d (n * 1000000 div max 1 d)"
proof -
  let ?q = "n * 1000000 div max 1 d"
  have "0 \<le> ?q" using assms(1) by (simp add: pos_imp_zdiv_nonneg_iff)
  moreover have "?q \<le> n * 1000000" using assms(1) zdiv_mono2 [of "n * 1000000" 1 "max 1 d"] by simp
  ultimately have "sint (word_of_int ?q :: 64 word) = ?q"
    using assms(2) by (intro sint_word_of_int_64) (auto simp: INT_MAX_def)
  then show ?thesis
    using assms by (simp add: EchoClient_report_def messages_per_sec_exact sint_word_of_int_64)
qed

subsection \<open>One call of a handler\<close>

text \<open>
  The application's view of a run with \<open>N\<close> requests and clock \<open>ck\<close>: \<open>awaiting k N ck\<close> while the
  client has \<open>k\<close> responses and waits for the next, \<open>finished N ck\<close> at the end. The clock is read
  twice at the first response (0 for the printed time, 1 for \<open>beginTime\<close>) and twice at the last
  (2 for \<open>endTime\<close>, 3 for the printed time).
\<close>

definition awaiting :: "nat \<Rightarrow> nat \<Rightarrow> (nat \<Rightarrow> timeval) \<Rightarrow> ('c, 't) world \<Rightarrow> bool" where
  "awaiting k N ck w \<longleftrightarrow>
     app_of w = ((int k, int k + 1, int N, if k = 0 then None else Some (ck 1)), ck,
                 if k = 0 then 0 else 2, if k = 0 then [] else [PrintedTime (ck 0)])"

definition finished :: "nat \<Rightarrow> (nat \<Rightarrow> timeval) \<Rightarrow> ('c, 't) world \<Rightarrow> bool" where
  "finished N ck w \<longleftrightarrow>
     app_of w = ((int N, int N, int N, Some (ck 1)), ck, 4,
                 [PrintedTime (ck 0), PrintedTime (ck 3),
                  EchoClient_report (int N) (word_of_int (usecs (ck 2) - usecs (ck 1)))])"

definition clock_sane :: "(nat \<Rightarrow> timeval) \<Rightarrow> bool" where
  "clock_sane ck \<longleftrightarrow> (\<forall>i. clock_reading (ck i))"

lemmas app_defs = app_of_def awaiting_def finished_def
lemmas clock_defs = gettimeofday_def print_line_def printCurrentTime_def

lemma awaiting_app: "app_of w = app_of w' \<Longrightarrow> awaiting k N ck w \<longleftrightarrow> awaiting k N ck w'"
  by (simp add: awaiting_def)

lemma finished_app: "app_of w = app_of w' \<Longrightarrow> finished N ck w \<longleftrightarrow> finished N ck w'"
  by (simp add: finished_def)

text \<open>
  The same at the level of numbers: both counters are at \<open>N\<close>, and the output is the two times and
  the report with the elapsed microseconds and the rate, where no elapsed time counts as one
  microsecond.
\<close>

definition benchmark_done :: "nat \<Rightarrow> (nat \<Rightarrow> timeval) \<Rightarrow> ('c, 't) world \<Rightarrow> bool" where
  "benchmark_done N ck w \<longleftrightarrow> numGot (client_obj w) = int N \<and> numSent (client_obj w) = int N \<and>
     stdout w = [PrintedTime (ck 0), PrintedTime (ck 3),
       PrintedReport (int N) (usecs (ck 2) - usecs (ck 1))
         (int N * 1000000 div max 1 (usecs (ck 2) - usecs (ck 1)))]"

lemma finished_benchmark_done:
  assumes "finished N ck w" and "int N \<le> INT_MAX" and "clock_sane ck" and "usecs (ck 1) \<le> usecs (ck 2)"
  shows "benchmark_done N ck w"
proof -
  have "usecs (ck 2) < 2 ^ 62" "0 \<le> usecs (ck 1)"
    using usecs_bounds [of "ck 1"] usecs_bounds [of "ck 2"] assms(3) by (auto simp: clock_sane_def)
  then show ?thesis
    using assms EchoClient_report_exact [of "int N" "usecs (ck 2) - usecs (ck 1)"]
    by (simp add: app_defs benchmark_done_def del: of_int_diff)
qed

lemma EchoServer_process_ok:
  assumes "data = map Some client_message @ rest" and "getParent ServerObj w = Some MainProcessor"
  shows "EchoServer_process P data len eof w = em_send P (Some ServerObj) server_message 19 True w"
  using assms by (simp add: EchoServer_process_def EventHandler_send_def res_simps)

lemma int_ok_nat: "int n \<le> INT_MAX \<Longrightarrow> int_ok (int n)"
  by (simp add: int_ok_def INT_MAX_def)

text \<open>
  The world after a response is counted, and the world with the report printed: what
  \<open>EchoClient_process\<close> does to the application on its two branches.
\<close>

definition client_counted :: "('c, 't, 'z) world_scheme \<Rightarrow> ('c, 't, 'z) world_scheme" where
  "client_counted w =
     (let n = numGot (client_obj w) + 1; w1 = w\<lparr>client_obj := (client_obj w)\<lparr>numGot := n\<rparr>\<rparr>
      in if n = 1
         then let (t, w2) = gettimeofday (printCurrentTime w1)
              in w2\<lparr>client_obj := (client_obj w2)\<lparr>beginTime := Some t\<rparr>\<rparr>
         else w1)"

definition client_reported :: "timeval \<Rightarrow> ('c, 't, 'z) world_scheme \<Rightarrow> ('c, 't, 'z) world_scheme" where
  "client_reported t w =
     (let (endTime, w) = gettimeofday w; w = printCurrentTime w
      in print_line (EchoClient_report (numGot (client_obj w)) (word_of_int (usecs endTime - usecs t))) w)"

lemma net_of_client_counted [frame_simps]: "net_of (client_counted w) = net_of w"
  by (auto simp: client_counted_def Let_def clock_defs net_of_def)

lemma net_of_client_reported [frame_simps]: "net_of (client_reported t w) = net_of w"
  by (auto simp: client_reported_def Let_def clock_defs net_of_def)

lemma app_of_client_counted:
  "awaiting k N ck w \<Longrightarrow>
   app_of (client_counted w) =
     ((int (Suc k), int (Suc k), int N, Some (ck 1)), ck, 2, [PrintedTime (ck 0)])"
  by (auto simp: client_counted_def Let_def clock_defs app_defs split: if_splits)

lemma finished_client_reported:
  "app_of w = ((int N, int N, int N, Some (ck 1)), ck, 2, [PrintedTime (ck 0)]) \<Longrightarrow>
   finished N ck (client_reported (ck 1) w)"
  by (auto simp: client_reported_def Let_def clock_defs app_defs)

lemma EchoClient_process_ok:
  assumes data: "data = map Some server_message @ rest" and n: "int_ok (numGot (client_obj w) + 1)"
  shows "EchoClient_process P data len eof w =
     (let w1 = client_counted w
      in if numGot (client_obj w1) = maxSend (client_obj w1)
         then case beginTime (client_obj w1) of
                None \<Rightarrow> Inl (Undef ''beginTime is indeterminate'')
              | Some t \<Rightarrow> rbind (getTimeDiff (clock w1 (clock_reads w1)) t) (\<lambda>d.
                  let w2 = printCurrentTime (snd (gettimeofday w1));
                      w3 = print_line (EchoClient_report (numGot (client_obj w1)) (word_of_int d)) w2
                  in case getParent ClientObj w3 of
                       None \<Rightarrow> Inl (Undef ''null parent'')
                     | Some _ \<Rightarrow> Inr (em_cancelLoop P w3))
         else EchoClient_sendData P w1)"
  using n by (auto simp: EchoClient_process_def data res_simps client_counted_def Let_def clock_defs
      cong: option.case_cong)

lemma awaiting_int_ok: "awaiting k N ck w \<Longrightarrow> k < N \<Longrightarrow> int N \<le> INT_MAX \<Longrightarrow> int_ok (numGot (client_obj w) + 1)"
  by (auto simp: app_defs int_ok_def INT_MAX_def)

text \<open>A response that is not the last one: the client counts it and sends the next request.\<close>

lemma EchoClient_process_next:
  assumes "data = map Some server_message @ rest"
    and app: "awaiting k N ck w" and k: "Suc k < N" and N: "int N \<le> INT_MAX"
  shows "EchoClient_process P data len eof w = EchoClient_sendData P (client_counted w)"
proof -
  have "int_ok (numGot (client_obj w) + 1)" using app N k by (auto intro: awaiting_int_ok)
  moreover have "numGot (client_obj (client_counted w)) \<noteq> maxSend (client_obj (client_counted w))"
    using app_of_client_counted [OF app] k by (simp add: app_of_def)
  ultimately show ?thesis using assms(1) by (simp add: EchoClient_process_ok Let_def)
qed

text \<open>The last response: the client prints the report and cancels the loop.\<close>

lemma EchoClient_process_last:
  assumes "data = map Some server_message @ rest"
    and app: "awaiting k N ck w" and k: "Suc k = N" and N: "int N \<le> INT_MAX"
    and ck: "clock_sane ck" and par: "getParent ClientObj w = Some MainProcessor"
  shows "EchoClient_process P data len eof w =
    Inr (em_cancelLoop P (client_reported (ck 1) (client_counted w)))"
proof -
  let ?w = "client_counted w"
  have ok: "int_ok (numGot (client_obj w) + 1)" using app N k by (auto intro: awaiting_int_ok)
  have a: "numGot (client_obj ?w) = maxSend (client_obj ?w)" "beginTime (client_obj ?w) = Some (ck 1)"
    "clock ?w = ck" using app_of_client_counted [OF app] k by (auto simp: app_of_def)
  have diff: "getTimeDiff (ck i) (ck j) = Inr (usecs (ck i) - usecs (ck j))" for i j
    using ck by (simp add: getTimeDiff_exact clock_sane_def)
  have "parent (client_obj ?w) = Some MainProcessor"
    using par net_of_eqD(3) [OF net_of_client_counted, of ClientObj w] by simp
  then show ?thesis
    using assms(1) ok by (simp add: EchoClient_process_ok a diff res_simps Let_def clock_defs client_reported_def
        del: One_nat_def)
qed

subsection \<open>What a handler can do to the transport\<close>

text \<open>
  A handler reaches the transport only through the parent's operations, and sends only as itself: a
  property of the transport's state that those operations keep is kept by \<open>process\<close>, and a failure
  of \<open>process\<close> is one of the handlers' own or one of \<open>send\<close>.
\<close>

definition handler_failures :: "failure set" where
  "handler_failures =
     {Undef ''strcmp reads indeterminate memory'', Exit 1 ''Invalid message from client'',
      Exit 1 ''Invalid message from server'', Undef ''null parent'', Undef ''beginTime is indeterminate'',
      Undef ''signed int overflow'', Undef ''signed long overflow''}"

lemma post_int_op: "handler_failures \<subseteq> F \<Longrightarrow> post F (\<lambda>_. True) (int_op x)"
  by (auto simp: int_op_def handler_failures_def)

lemma post_getTimeDiff: "handler_failures \<subseteq> F \<Longrightarrow> post F (\<lambda>_. True) (getTimeDiff a b)"
  unfolding getTimeDiff_def long_op_def
  by (intro post_bind [where Q = "\<lambda>_. True"]) (auto simp: handler_failures_def)

definition transport_keeps ::
  "hid \<Rightarrow> ('c, 't) world parent_ops \<Rightarrow> failure set \<Rightarrow> (('c, 't) world \<Rightarrow> bool) \<Rightarrow> bool"
where
  "transport_keeps h P F Q \<longleftrightarrow> handler_failures \<subseteq> F \<and>
     (\<forall>w w'. net_of w = net_of w' \<longrightarrow> Q w \<longrightarrow> Q w') \<and>
     (\<forall>d n e w. Q w \<longrightarrow> post F Q (em_send P (Some h) d n e w)) \<and> (\<forall>w. Q w \<longrightarrow> Q (em_cancelLoop P w))"

lemma post_EventHandler_send: "transport_keeps h P F Q \<Longrightarrow> Q w \<Longrightarrow> post F Q (EventHandler_send P h d n e w)"
  by (auto simp: EventHandler_send_def transport_keeps_def handler_failures_def split: option.splits)

lemma keeps_net: "transport_keeps h P F Q \<Longrightarrow> net_of w' = net_of w \<Longrightarrow> Q w \<Longrightarrow> Q w'"
  by (metis transport_keeps_def)

lemma post_EchoClient_sendData:
  assumes "transport_keeps ClientObj P F Q" and "Q w"
  shows "post F Q (EchoClient_sendData P w)"
  unfolding EchoClient_sendData_def
proof (rule post_bind [OF post_EventHandler_send [OF assms]])
  fix w1 assume "Q w1"
  then show "post F Q (rbind (int_op (numSent (client_obj w1) + 1)) (\<lambda>n.
      Inr (w1\<lparr>client_obj := (client_obj w1)\<lparr>numSent := n\<rparr>\<rparr>)))"
    using assms(1)
    by (intro post_bind [OF post_int_op]) (auto simp: transport_keeps_def net_of_def)
qed

lemma post_EchoClient_process:
  assumes keeps: "transport_keeps ClientObj P F Q" and "Q w"
  shows "post F Q (EchoClient_process P data len eof w)"
proof -
  have F: "handler_failures \<subseteq> F" using keeps by (simp add: transport_keeps_def)
  consider (bad) f where "EchoClient_process P data len eof w = Inl f" "f \<in> handler_failures"
    | (ok) rest where "data = map Some server_message @ rest" "int_ok (numGot (client_obj w) + 1)"
    by (cases "strcmp data server_message"; cases "int_ok (numGot (client_obj w) + 1)";
        cases "strcmp data server_message = Some 0")
      (auto simp: EchoClient_process_def handler_failures_def int_op_def strcmp_zero_iff)
  then show ?thesis
  proof cases
    case bad
    then show ?thesis using F by auto
  next
    case ok
    have "Q (client_counted w)"
      using keeps_net [OF keeps] assms(2) net_of_client_counted by blast
    then show ?thesis
      using F keeps unfolding EchoClient_process_ok [OF ok] Let_def
      by (auto simp: handler_failures_def transport_keeps_def net_of_def clock_defs
          intro!: post_EchoClient_sendData [OF keeps] post_bind [OF post_getTimeDiff] split: option.splits)
  qed
qed

lemma post_handler_process:
  assumes "transport_keeps h P F Q" and "Q w"
  shows "post F Q (handler_process P h data len eof w)"
proof (cases h)
  case ServerObj
  then show ?thesis
    using assms post_EventHandler_send [OF assms]
    by (auto simp: EchoServer_process_def transport_keeps_def handler_failures_def split: option.splits)
next
  case ClientObj
  then show ?thesis using assms post_EchoClient_process by simp
qed

subsection \<open>The contract of a transport\<close>

fun peer :: "hid \<Rightarrow> hid" where
  "peer ServerObj = ClientObj"
| "peer ClientObj = ServerObj"

lemma peer_simps [simp]: "peer (peer h) = h" "peer h \<noteq> h" "h \<noteq> peer h"
  by (cases h; simp)+

text \<open>
  What the echo handlers rely on, for a process that holds both of them. \<open>inflight h m w\<close> says
  that the loop runs and one message \<open>m\<close> is on its way to handler \<open>h\<close>; \<open>busy h w\<close> that the
  transport is inside a call of \<open>h\<close>. An iteration of the loop with a message in flight is a call
  of the destination's \<open>process\<close> on a buffer that starts with the message; a \<open>send\<close> of a busy
  handler puts its message in flight to its peer; \<open>cancelLoop\<close> ends the loop. None of them touches
  the application's state, and the three predicates look at the transport's state only.
\<close>

locale transport_base =
  fixes P :: "('c, 't) world parent_ops"
    and iter :: "('c, 't) world \<Rightarrow> ('c, 't) world result"
    and ended :: "('c, 't) world \<Rightarrow> bool"
    and inflight :: "hid \<Rightarrow> char list \<Rightarrow> ('c, 't) world \<Rightarrow> bool"
    and busy :: "hid \<Rightarrow> ('c, 't) world \<Rightarrow> bool"
  assumes inflight_net: "net_of w = net_of w' \<Longrightarrow> inflight h m w \<Longrightarrow> inflight h m w'"
    and busy_net: "net_of w = net_of w' \<Longrightarrow> busy h w \<Longrightarrow> busy h w'"
    and inflight_running: "inflight h m w \<Longrightarrow> \<not> ended w"
    and busy_parent: "busy h w \<Longrightarrow> getParent h w = Some MainProcessor"
    and send_inflight: "busy h w \<Longrightarrow> m \<in> {client_message, server_message} \<Longrightarrow>
      \<exists>w1. em_send P (Some h) m (int (length m)) True w = Inr w1 \<and>
        inflight (peer h) m w1 \<and> app_of w1 = app_of w"
    and cancel_ends: "busy h w \<Longrightarrow> ended (em_cancelLoop P w)"
    and cancel_app: "app_of (em_cancelLoop P w) = app_of w"

text \<open>
  An iteration may do something after the call, such as leaving the scope of a local variable; then
  this must not touch the application, the message in flight or the end of the loop. A transport
  whose iteration is the call alone is the special case.
\<close>

locale scoped_transport = transport_base +
  assumes deliver_scoped: "inflight h m w \<Longrightarrow>
    \<exists>w1 rest n g. iter w = rbind (handler_process P h (map Some m @ rest) n True w1) (\<lambda>v. Inr (g v)) \<and>
      busy h w1 \<and> app_of w1 = app_of w \<and>
      (\<forall>v. app_of (g v) = app_of v \<and> (ended v \<longrightarrow> ended (g v)) \<and>
        (\<forall>h' m'. inflight h' m' v \<longrightarrow> inflight h' m' (g v)))"

locale echo_transport = transport_base +
  assumes deliver: "inflight h m w \<Longrightarrow>
    \<exists>w1 rest n. iter w = handler_process P h (map Some m @ rest) n True w1 \<and>
      busy h w1 \<and> app_of w1 = app_of w"

sublocale echo_transport \<subseteq> scoped_transport
proof (unfold_locales, goal_cases)
  case (1 h m w)
  from deliver [OF this] obtain w1 rest n where
    d: "iter w = handler_process P h (map Some m @ rest) n True w1" "busy h w1" "app_of w1 = app_of w" by blast
  then have "iter w = rbind (handler_process P h (map Some m @ rest) n True w1) (\<lambda>v. Inr (id v))"
    by (simp add: res_simps flip: id_def)
  with d(2,3) show ?case by (metis id_apply)
qed

context scoped_transport
begin

lemma server_answers:
  assumes "inflight ServerObj client_message w"
  shows "\<exists>w'. iter w = Inr w' \<and> inflight ClientObj server_message w' \<and> app_of w' = app_of w"
proof -
  from deliver_scoped [OF assms] obtain w1 rest n g where
    1: "iter w = rbind (handler_process P ServerObj (map Some client_message @ rest) n True w1) (\<lambda>v. Inr (g v))"
    "busy ServerObj w1" "app_of w1 = app_of w"
    and g: "\<And>v. app_of (g v) = app_of v" "\<And>h m v. inflight h m v \<Longrightarrow> inflight h m (g v)" by blast
  then have "iter w = rbind (em_send P (Some ServerObj) server_message 19 True w1) (\<lambda>v. Inr (g v))"
    using EchoServer_process_ok [OF refl busy_parent [OF 1(2)]] by simp
  with send_inflight [OF 1(2), of server_message] 1(3) g show ?thesis by fastforce
qed

lemma sendData_inflight:
  assumes "busy ClientObj w" and "int_ok (numSent (client_obj w) + 1)"
  shows "\<exists>w'. EchoClient_sendData P w = Inr w' \<and> inflight ServerObj client_message w' \<and>
    app_of w' = app_of (w\<lparr>client_obj := (client_obj w)\<lparr>numSent := numSent (client_obj w) + 1\<rparr>\<rparr>)"
proof -
  from send_inflight [OF assms(1), of client_message] obtain w1 where
    1: "em_send P (Some ClientObj) client_message 19 True w = Inr w1"
    "inflight ServerObj client_message w1" "app_of w1 = app_of w" by auto
  let ?w = "w1\<lparr>client_obj := (client_obj w1)\<lparr>numSent := numSent (client_obj w1) + 1\<rparr>\<rparr>"
  have "numSent (client_obj w1) = numSent (client_obj w)" using 1(3) by (simp add: app_of_def)
  then have "EchoClient_sendData P w = Inr ?w"
    using 1(1) assms busy_parent [OF assms(1)]
    by (simp add: EchoClient_sendData_def EventHandler_send_def res_simps)
  moreover have "inflight ServerObj client_message ?w"
    by (rule inflight_net [OF _ 1(2)]) (simp add: net_of_def)
  ultimately show ?thesis using 1(3) by (auto simp: app_of_def)
qed

text \<open>Enabling the client puts the first request in flight.\<close>

lemma enable_starts:
  assumes "busy ClientObj w" and "app_of w = ((0, 0, int N, None), ck, 0, [])"
  shows "\<exists>w'. handler_enable P ClientObj w = Inr w' \<and> inflight ServerObj client_message w' \<and> awaiting 0 N ck w'"
  using sendData_inflight [OF assms(1)] assms(2)
  by (auto simp: EchoClient_enable_def app_defs int_ok_def INT_MAX_def)

lemma client_continues:
  assumes "inflight ClientObj server_message w" and app: "awaiting k N ck w"
    and k: "Suc k < N" and N: "int N \<le> INT_MAX"
  shows "\<exists>w'. iter w = Inr w' \<and> inflight ServerObj client_message w' \<and> awaiting (Suc k) N ck w'"
proof -
  from deliver_scoped [OF assms(1)] obtain w1 rest n g where
    1: "iter w = rbind (handler_process P ClientObj (map Some server_message @ rest) n True w1) (\<lambda>v. Inr (g v))"
    "busy ClientObj w1" and same: "app_of w1 = app_of w"
    and g: "\<And>v. app_of (g v) = app_of v" "\<And>v. ended v \<Longrightarrow> ended (g v)"
      "\<And>h m v. inflight h m v \<Longrightarrow> inflight h m (g v)" by blast
  have app1: "awaiting k N ck w1" using app awaiting_app [OF same] by blast
  let ?w = "client_counted w1"
  have "iter w = rbind (EchoClient_sendData P ?w) (\<lambda>v. Inr (g v))"
    using 1(1) EchoClient_process_next [OF refl app1 k N] by simp
  moreover have "busy ClientObj ?w" by (rule busy_net [OF _ 1(2)]) (simp add: net_of_client_counted)
  moreover have "int_ok (numSent (client_obj ?w) + 1)"
    using app_of_client_counted [OF app1] k N by (auto simp: app_of_def int_ok_def INT_MAX_def)
  moreover from calculation sendData_inflight [of ?w] obtain w2 where
    2: "EchoClient_sendData P ?w = Inr w2" "inflight ServerObj client_message w2"
      "app_of w2 = app_of (?w\<lparr>client_obj := (client_obj ?w)\<lparr>numSent := numSent (client_obj ?w) + 1\<rparr>\<rparr>)" by blast
  moreover have "awaiting (Suc k) N ck w2"
    using 2(3) app_of_client_counted [OF app1] by (auto simp: app_defs)
  then have "awaiting (Suc k) N ck (g w2)" using awaiting_app [OF g(1)] by blast
  ultimately show ?thesis using g(3) by simp
qed

lemma client_finishes:
  assumes "inflight ClientObj server_message w" and app: "awaiting k N ck w"
    and k: "Suc k = N" and N: "int N \<le> INT_MAX" and ck: "clock_sane ck"
  shows "\<exists>w'. iter w = Inr w' \<and> ended w' \<and> finished N ck w'"
proof -
  from deliver_scoped [OF assms(1)] obtain w1 rest n g where
    1: "iter w = rbind (handler_process P ClientObj (map Some server_message @ rest) n True w1) (\<lambda>v. Inr (g v))"
    "busy ClientObj w1" and same: "app_of w1 = app_of w"
    and g: "\<And>v. app_of (g v) = app_of v" "\<And>v. ended v \<Longrightarrow> ended (g v)"
      "\<And>h m v. inflight h m v \<Longrightarrow> inflight h m (g v)" by blast
  have app1: "awaiting k N ck w1" using app awaiting_app [OF same] by blast
  let ?w = "client_reported (ck 1) (client_counted w1)"
  have "iter w = Inr (g (em_cancelLoop P ?w))"
    using 1 EchoClient_process_last [OF refl app1 k N ck busy_parent [OF 1(2)]] by simp
  moreover have "busy ClientObj ?w"
    by (rule busy_net [OF _ 1(2)]) (simp add: net_of_client_counted net_of_client_reported)
  moreover have "finished N ck (em_cancelLoop P ?w)"
    using finished_client_reported [of "client_counted w1" N ck] app_of_client_counted [OF app1] k
    by (simp add: finished_app [OF cancel_app])
  ultimately show ?thesis using cancel_ends g(2) finished_app [OF g(1)] by blast
qed

text \<open>The whole exchange: two iterations for each of the remaining requests.\<close>

lemma exchange:
  assumes "inflight ServerObj client_message w" and "awaiting k N ck w" and "k < N"
    and "int N \<le> INT_MAX" and "clock_sane ck"
  shows "\<exists>w'. run_loop ended iter (2 * (N - k)) w = Inr w' \<and> ended w' \<and> finished N ck w'"
  using assms
proof (induction "N - k" arbitrary: k w)
  case (Suc d)
  from server_answers [OF Suc.prems(1)] obtain w1 where
    1: "iter w = Inr w1" "inflight ClientObj server_message w1" and same: "app_of w1 = app_of w" by blast
  have app1: "awaiting k N ck w1" using Suc.prems(2) awaiting_app [OF same] by blast
  have fuel: "2 * (N - k) = Suc (Suc (2 * (N - Suc k)))" using Suc.prems(3) by simp
  have two: "run_loop ended iter (2 * (N - k)) w = rbind (iter w1) (run_loop ended iter (2 * (N - Suc k)))"
    using 1 inflight_running [OF Suc.prems(1)] inflight_running [OF 1(2)] by (simp add: fuel)
  show ?case
  proof (cases "Suc k = N")
    case True
    with client_finishes [OF 1(2) app1 _ Suc.prems(4,5)] show ?thesis
      by (auto simp: two res_simps run_loop_fin)
  next
    case False
    with Suc.prems(3) have k: "Suc k < N" by simp
    with client_continues [OF 1(2) app1 _ Suc.prems(4)] obtain w2 where
      2: "iter w1 = Inr w2" "inflight ServerObj client_message w2" "awaiting (Suc k) N ck w2" by blast
    have "d = N - Suc k" using Suc.hyps(2) by simp
    from Suc.hyps(1) [OF this 2(2,3) k Suc.prems(4,5)] show ?thesis by (simp add: two 2(1))
  qed
qed simp

lemma exchange_from_start:
  assumes "inflight ServerObj client_message w" and "awaiting 0 N ck w" and "0 < N"
    and "int N \<le> INT_MAX" and "clock_sane ck" and "2 * N \<le> fuel"
  shows "\<exists>w'. run_loop ended iter fuel w = Inr w' \<and> ended w' \<and> finished N ck w'"
proof -
  from exchange [OF assms(1-5)] obtain w' where
    "run_loop ended iter (2 * N) w = Inr w'" "ended w'" "finished N ck w'" by auto
  with run_loop_more [of ended iter "2 * N" w fuel] assms(6) show ?thesis by simp
qed

end

end
