(* ===== verification/PerfMain.thy ===== *)
theory PerfMain
  imports EchoTest
begin

section \<open>The test program (perftestmain.cpp)\<close>

text \<open>
  Command-line parsing and \<open>main\<close>, over any transport. \<open>getopt\<close> is the function of POSIX: it takes
  clustered flags (\<open>-cs\<close>), arguments attached to their option or in the next word, and stops at the
  first operand or after \<open>--\<close>; a letter that is not in the option string and a missing argument
  give \<open>'?'\<close>. (The GNU version differs only in that it looks for options behind operands, which
  this program does not take.)
\<close>

fun opt_lookup :: "char list \<Rightarrow> char \<Rightarrow> bool option" where
  "opt_lookup [] c = None"
| "opt_lookup [x] c = (if c = x \<and> x \<noteq> CHR '':'' then Some False else None)"
| "opt_lookup (x # y # opts) c =
     (if c = x \<and> x \<noteq> CHR '':'' then Some (y = CHR '':'') else opt_lookup (y # opts) c)"

text \<open>
  \<open>getopt_from opts cluster args\<close> lists what the successive calls of \<open>getopt\<close> return (the option
  and \<open>optarg\<close>) until it returns -1; \<open>cluster\<close> is the rest of the word being scanned.
\<close>

function getopt_from :: "char list \<Rightarrow> string \<Rightarrow> string list \<Rightarrow> (char \<times> string option) list" where
  "getopt_from opts [] [] = []"
| "getopt_from opts [] (a # args) =
     (if length a < 2 \<or> hd a \<noteq> CHR ''-'' \<or> a = ''--'' then [] else getopt_from opts (tl a) args)"
| "getopt_from opts (c # cs) args =
     (case opt_lookup opts c of
        None \<Rightarrow> (CHR ''?'', None) # getopt_from opts cs args
      | Some False \<Rightarrow> (c, None) # getopt_from opts cs args
      | Some True \<Rightarrow>
          if cs \<noteq> [] then (c, Some cs) # getopt_from opts [] args
          else (case args of
                  [] \<Rightarrow> [(CHR ''?'', None)]
                | a # args' \<Rightarrow> (c, Some a) # getopt_from opts [] args'))"
  by pat_completeness auto
termination
  by (relation "measure (\<lambda>(opts, cs, args). length cs + sum_list (map (\<lambda>a. Suc (length a)) args))") auto

definition opt :: string where "opt = ''csp:a:''"

record ArgParser =
  isClientOnly :: bool
  isServerOnly :: bool
  pAddress :: string
  pPort :: string

definition ArgParser_new :: ArgParser where
  "ArgParser_new = \<lparr>isClientOnly = False, isServerOnly = False, pAddress = ''127.0.0.1'', pPort = ''8000''\<rparr>"

definition usage :: string where "usage = ''./eventserver [-cs] [-p port] [-a address]''"

text \<open>The body of the loop in \<open>parseArgs\<close>: the switch over the option \<open>getopt\<close> returned.\<close>

definition parse_option :: "char \<times> string option \<Rightarrow> ArgParser \<Rightarrow> ArgParser result" where
  "parse_option r a =
     (case r of (c, optarg) \<Rightarrow>
        if c = CHR ''c'' then Inr (a\<lparr>isClientOnly := True\<rparr>)
        else if c = CHR ''s'' then Inr (a\<lparr>isServerOnly := True\<rparr>)
        else if c = CHR ''p'' then
          (case optarg of Some arg \<Rightarrow> Inr (a\<lparr>pPort := arg\<rparr>) | None \<Rightarrow> Inl (Undef ''null optarg''))
        else if c = CHR ''a'' then
          (case optarg of Some arg \<Rightarrow> Inr (a\<lparr>pAddress := arg\<rparr>) | None \<Rightarrow> Inl (Undef ''null optarg''))
        else Inl (Exit 1 usage))"

fun parse_options :: "(char \<times> string option) list \<Rightarrow> ArgParser \<Rightarrow> ArgParser result" where
  "parse_options [] a = Inr a"
| "parse_options (r # rs) a = rbind (parse_option r a) (parse_options rs)"

definition parseArgs :: "string list \<Rightarrow> ArgParser \<Rightarrow> ArgParser result" where
  "parseArgs argv a = parse_options (getopt_from opt [] argv) a"

text \<open>
  \<open>main\<close>: \<open>V\<close> is \<open>*g_pmainProcessor\<close>, \<open>null\<close> and \<open>t0\<close> the null context and the zero-initialised
  transport object, \<open>ck\<close> the clock, \<open>argv\<close> the arguments after the program name. The calls
  \<open>server.initialize()\<close> and \<open>client.initialize()\<close> are the empty virtual functions of \<open>Processor\<close>.
\<close>

definition start_world :: "'c \<Rightarrow> 't \<Rightarrow> (nat \<Rightarrow> timeval) \<Rightarrow> int \<Rightarrow> ('c, 't) world" where
  "start_world null t0 ck nReq =
     \<lparr>server_obj = EchoServer_new null, client_obj = EchoClient_new null nReq, main_obj = t0,
      clock = ck, clock_reads = 0, stdout = []\<rparr>"

definition run_roles ::
  "('c, 't) world EventMain \<Rightarrow> nat \<Rightarrow> ArgParser \<Rightarrow> ('c, 't) world \<Rightarrow> ('c, 't) world result"
where
  "run_roles V fuel a w =
     rbind (if \<not> isClientOnly a then em_bindServer V (pPort a) ServerObj w else Inr w) (\<lambda>w.
     rbind (if \<not> isServerOnly a then em_connectToServer V (pAddress a) (pPort a) ClientObj w else Inr w)
       (em_process V fuel))"

definition perf_main ::
  "('c, 't) world EventMain \<Rightarrow> 'c \<Rightarrow> 't \<Rightarrow> (nat \<Rightarrow> timeval) \<Rightarrow> nat \<Rightarrow> string list \<Rightarrow> ('c, 't) world result"
where
  "perf_main V null t0 ck fuel argv =
     (let w = em_initialize V (start_world null t0 ck 1000)
      in rbind (parseArgs argv ArgParser_new) (\<lambda>a. run_roles V fuel a w))"

text \<open>
  With both roles in one process (no arguments), a transport that keeps the contract and that
  reaches its loop with the client's first request in flight completes the whole benchmark;
  \<open>close_up\<close> is what \<open>process\<close> does after its loop.
\<close>

lemma parseArgs_none [res_simps]: "parseArgs [] a = Inr a"
  by (simp add: parseArgs_def)

context scoped_transport
begin

lemma roles_complete:
  assumes "em_bindServer V (pPort a) ServerObj w = Inr w1"
    and "em_connectToServer V (pAddress a) (pPort a) ClientObj w1 = Inr w2"
    and "em_process V fuel w2 = rbind (run_loop ended iter loop_fuel w3) (\<lambda>w. Inr (close_up w))"
    and "inflight ServerObj client_message w3" and "awaiting 0 N ck w3"
    and "\<And>w. app_of (close_up w) = app_of w"
    and "0 < N" and "int N \<le> INT_MAX" and "clock_sane ck" and "2 * N \<le> loop_fuel"
    and "\<not> isClientOnly a" and "\<not> isServerOnly a"
  shows "\<exists>w'. run_roles V fuel a w = Inr w' \<and> finished N ck w'"
  using exchange_from_start [OF assms(4,5,7-10)] assms(1-3,11,12) finished_app [OF assms(6)]
  by (auto simp: run_roles_def res_simps)

end

text \<open>From the roles to \<open>main\<close> with its 1000 requests.\<close>

lemma main_benchmark_done:
  assumes "\<exists>w. run_roles V fuel ArgParser_new (em_initialize V (start_world null t0 ck (int 1000))) = Inr w \<and>
      finished 1000 ck w"
    and "clock_sane ck" and "usecs (ck 1) \<le> usecs (ck 2)"
  shows "\<exists>w. perf_main V null t0 ck fuel [] = Inr w \<and> benchmark_done 1000 ck w"
  using assms finished_benchmark_done [of 1000 ck]
  by (auto simp: perf_main_def res_simps INT_MAX_def)

text \<open>A clock for the witnesses: it never advances.\<close>

definition still_clock :: "nat \<Rightarrow> timeval" where
  "still_clock i = \<lparr>tv_sec = 5, tv_usec = 7\<rparr>"

lemma still_clock_sane [simp]: "clock_sane still_clock" "usecs (still_clock i) = 5000007"
  by (simp_all add: still_clock_def clock_sane_def clock_reading_def usecs_def)

subsection \<open>Parsing\<close>

text \<open>A command line that asks for the settings \<open>a\<close>, and the clustered spelling of the same.\<close>

definition argv_of :: "ArgParser \<Rightarrow> string list" where
  "argv_of a = (if isClientOnly a then [''-c''] else []) @ (if isServerOnly a then [''-s''] else []) @
     [''-p'', pPort a, ''-a'', pAddress a]"

lemmas parse_defs = parseArgs_def opt_def ArgParser_new_def parse_option_def

text \<open>
  C31. Every combination of settings can be asked for on the command line, whatever the port and
  address words are (even words that begin with a dash): parsing the command line written for the
  settings gives them back.
\<close>

theorem parseArgs_argv_of: "parseArgs (argv_of a) ArgParser_new = Inr a"
  by (cases a) (auto simp: argv_of_def parse_defs)

lemma getopt_from_results:
  "r \<in> set (getopt_from ''csp:a:'' cs args) \<Longrightarrow>
   r = (CHR ''?'', None) \<or> r \<in> {(CHR ''c'', None), (CHR ''s'', None)} \<or>
   (\<exists>v. r = (CHR ''p'', Some v) \<or> r = (CHR ''a'', Some v))"
proof (induction "''csp:a:''" cs args rule: getopt_from.induct)
  case (2 a args)
  then show ?case by (auto split: if_splits)
next
  case (3 c cs args)
  then show ?case by (auto split: option.splits if_splits bool.splits list.splits)
qed auto

lemma parse_options_outcome:
  assumes "\<And>r. r \<in> set rs \<Longrightarrow> r = (CHR ''?'', None) \<or> r \<in> {(CHR ''c'', None), (CHR ''s'', None)} \<or>
     (\<exists>v. r = (CHR ''p'', Some v) \<or> r = (CHR ''a'', Some v))"
  shows "if (CHR ''?'', None) \<in> set rs then parse_options rs a = Inl (Exit 1 usage)
         else \<exists>b. parse_options rs a = Inr b"
  using assms
proof (induction rs arbitrary: a)
  case (Cons r rs)
  then have IH: "if (CHR ''?'', None) \<in> set rs then parse_options rs b = Inl (Exit 1 usage)
         else \<exists>c. parse_options rs b = Inr c" for b
    by auto
  from Cons.prems [of r] show ?case
    using IH by (auto simp: parse_option_def split: if_splits)
qed simp

lemma post_parseArgs: "post {Exit 1 usage} (\<lambda>_. True) (parseArgs argv a)"
proof -
  have "if (CHR ''?'', None) \<in> set (getopt_from ''csp:a:'' [] argv)
      then parse_options (getopt_from ''csp:a:'' [] argv) a = Inl (Exit 1 usage)
      else \<exists>b. parse_options (getopt_from ''csp:a:'' [] argv) a = Inr b"
    by (rule parse_options_outcome) (rule getopt_from_results)
  then show ?thesis by (auto simp: parseArgs_def opt_def split: if_splits)
qed

text \<open>
  Partial correctness of \<open>main\<close>: a property that the setup of the roles establishes and that \<open>process\<close>
  needs, and the failures that they can raise.
\<close>

lemma post_perf_main:
  assumes start: "Q0 (em_initialize V (start_world null t0 ck 1000))" and "\<And>w. Q0 w \<Longrightarrow> Q w"
    and bind: "\<And>p w. Q0 w \<Longrightarrow> post F Q (em_bindServer V p ServerObj w)"
    and conn: "\<And>a p w. Q w \<Longrightarrow> post F Q (em_connectToServer V a p ClientObj w)"
    and proc: "\<And>w. Q w \<Longrightarrow> post F R (em_process V fuel w)"
  shows "post (insert (Exit 1 usage) F) R (perf_main V null t0 ck fuel argv)"
proof -
  let ?F = "insert (Exit 1 usage) F"
  have up: "post F P r \<Longrightarrow> post ?F P r" for P and r :: "('a, 'b) world result"
    by (erule post_mono) auto
  have "post ?F R (run_roles V fuel a (em_initialize V (start_world null t0 ck 1000)))" for a
    unfolding run_roles_def using assms
    by (intro post_bind [where Q = Q]) (auto intro: up)
  moreover have "post ?F (\<lambda>_. True) (parseArgs argv ArgParser_new)"
    by (rule post_mono [OF post_parseArgs]) auto
  ultimately show ?thesis unfolding perf_main_def Let_def by (intro post_bind) auto
qed

text \<open>
  \<open>parseArgs\<close> never leaves \<open>main\<close> by anything but the usage message and status 1, and it does so
  exactly when \<open>getopt\<close> reports an option outside the option string or without its argument.
\<close>

theorem parseArgs_outcome:
  "if (CHR ''?'', None) \<in> set (getopt_from opt [] argv) then parseArgs argv a = Inl (Exit 1 usage)
   else \<exists>b. parseArgs argv a = Inr b"
  unfolding parseArgs_def opt_def by (rule parse_options_outcome) (rule getopt_from_results)

end
