(* ===== verification/MemcpyMain.thy ===== *)
theory MemcpyMain
  imports PerfMain
begin

section \<open>The memcpy transport (memcpyserver.cpp)\<close>

text \<open>
  Client and server in one process and one thread, with a buffer between them: \<open>send\<close> copies the
  message into the buffer, and the loop hands the buffer to its destination. A handler's context
  is a pointer to the other handler. The loop is a busy wait: an iteration that finds nothing to
  deliver does nothing.
\<close>

definition memcpy_max_buff :: nat where "memcpy_max_buff = 32767"

record MemcpyLoopMain =
  mc_buffer :: "cells option"
  mc_len :: int
  mc_server :: "hid option"
  mc_client :: "hid option"
  mc_loopEnd :: bool
  mc_dest :: "hid option"

type_synonym memcpy_world = "(hid option, MemcpyLoopMain) world"

definition memcpy_zero :: MemcpyLoopMain where
  "memcpy_zero = \<lparr>mc_buffer = None, mc_len = 0, mc_server = None, mc_client = None,
     mc_loopEnd = False, mc_dest = None\<rparr>"

definition memcpy_initialize :: "memcpy_world \<Rightarrow> memcpy_world" where
  "memcpy_initialize w = w\<lparr>main_obj := (main_obj w)\<lparr>mc_loopEnd := False,
     mc_buffer := Some (replicate memcpy_max_buff None), mc_len := 0,
     mc_server := None, mc_client := None, mc_dest := None\<rparr>\<rparr>"

definition memcpy_cancelLoop :: "memcpy_world \<Rightarrow> memcpy_world" where
  "memcpy_cancelLoop w = w\<lparr>main_obj := (main_obj w)\<lparr>mc_loopEnd := True\<rparr>\<rparr>"

definition memcpy_bindServer :: "string \<Rightarrow> hid \<Rightarrow> memcpy_world \<Rightarrow> memcpy_world result" where
  "memcpy_bindServer port h w = Inr (setParent h (w\<lparr>main_obj := (main_obj w)\<lparr>mc_server := Some h\<rparr>\<rparr>))"

definition memcpy_send ::
  "hid option \<Rightarrow> char list \<Rightarrow> int \<Rightarrow> bool \<Rightarrow> memcpy_world \<Rightarrow> memcpy_world result"
where
  "memcpy_send p data len isDataEnd w =
     (case p of
        None \<Rightarrow> Inr w
      | Some h \<Rightarrow>
          (case mc_buffer (main_obj w) of
             None \<Rightarrow> Inl (Undef ''memcpy to null'')
           | Some buf \<Rightarrow>
               rbind (c_memcpy buf data len) (\<lambda>buf'.
               Inr (w\<lparr>main_obj := (main_obj w)\<lparr>mc_buffer := Some buf', mc_dest := getContext h w,
                      mc_len := len\<rparr>\<rparr>))))"

definition memcpy_parent :: "memcpy_world parent_ops" where
  "memcpy_parent = \<lparr>em_send = memcpy_send, em_cancelLoop = memcpy_cancelLoop\<rparr>"

definition memcpy_connectToServer ::
  "string \<Rightarrow> string \<Rightarrow> hid \<Rightarrow> memcpy_world \<Rightarrow> memcpy_world result"
where
  "memcpy_connectToServer address port h w =
     (let w = setParent h (w\<lparr>main_obj := (main_obj w)\<lparr>mc_client := Some h\<rparr>\<rparr>);
          w = setContext h (mc_server (main_obj w)) w
      in handler_enable memcpy_parent h w)"

text \<open>One iteration of the loop in \<open>process\<close>.\<close>

definition memcpy_iter :: "memcpy_world \<Rightarrow> memcpy_world result" where
  "memcpy_iter w =
     (if mc_len (main_obj w) = 0 then Inr w
      else case mc_dest (main_obj w) of
             None \<Rightarrow> Inr w
           | Some d \<Rightarrow>
               (let context = (if Some d = mc_client (main_obj w) then mc_server (main_obj w)
                               else mc_client (main_obj w));
                    w = setContext d context w;
                    tmplen = mc_len (main_obj w);
                    w = w\<lparr>main_obj := (main_obj w)\<lparr>mc_len := 0\<rparr>\<rparr>
                in case mc_buffer (main_obj w) of
                     None \<Rightarrow> Inl (Undef ''null buffer'')
                   | Some buf \<Rightarrow> handler_process memcpy_parent d buf tmplen True w))"

definition memcpy_ended :: "memcpy_world \<Rightarrow> bool" where
  "memcpy_ended w \<longleftrightarrow> mc_loopEnd (main_obj w)"

definition memcpy_process :: "nat \<Rightarrow> memcpy_world \<Rightarrow> memcpy_world result" where
  "memcpy_process fuel w = run_loop memcpy_ended memcpy_iter fuel w"

definition memcpy_main :: "memcpy_world EventMain" where
  "memcpy_main = \<lparr>em_send = memcpy_send, em_cancelLoop = memcpy_cancelLoop,
     em_initialize = memcpy_initialize, em_bindServer = memcpy_bindServer,
     em_connectToServer = memcpy_connectToServer, em_process = memcpy_process\<rparr>"

subsection \<open>The contract\<close>

text \<open>
  The state between two calls: both handlers are registered and know the transport, the buffer has
  its full size, and the destination's context is the other handler.
\<close>

definition memcpy_wf :: "memcpy_world \<Rightarrow> bool" where
  "memcpy_wf w \<longleftrightarrow> mc_server (main_obj w) = Some ServerObj \<and> mc_client (main_obj w) = Some ClientObj \<and>
     getParent ServerObj w = Some MainProcessor \<and> getParent ClientObj w = Some MainProcessor \<and>
     (\<exists>buf. mc_buffer (main_obj w) = Some buf \<and> length buf = memcpy_max_buff)"

definition memcpy_busy :: "hid \<Rightarrow> memcpy_world \<Rightarrow> bool" where
  "memcpy_busy h w \<longleftrightarrow> memcpy_wf w \<and> \<not> mc_loopEnd (main_obj w) \<and> getContext h w = Some (peer h)"

definition memcpy_inflight :: "hid \<Rightarrow> char list \<Rightarrow> memcpy_world \<Rightarrow> bool" where
  "memcpy_inflight h m w \<longleftrightarrow> memcpy_wf w \<and> \<not> mc_loopEnd (main_obj w) \<and> mc_dest (main_obj w) = Some h \<and>
     mc_len (main_obj w) \<noteq> 0 \<and> (\<exists>rest. mc_buffer (main_obj w) = Some (map Some m @ rest))"

lemmas memcpy_state = memcpy_wf_def memcpy_busy_def memcpy_inflight_def
lemmas memcpy_ops = memcpy_parent_def memcpy_send_def memcpy_cancelLoop_def memcpy_iter_def
  memcpy_ended_def

text \<open>The world in which the loop calls the destination of the message.\<close>

definition memcpy_delivered :: "hid \<Rightarrow> memcpy_world \<Rightarrow> memcpy_world" where
  "memcpy_delivered h w = (setContext h (Some (peer h)) w)\<lparr>main_obj := (main_obj w)\<lparr>mc_len := 0\<rparr>\<rparr>"

lemma memcpy_iter_inflight:
  assumes "memcpy_inflight h m w"
  shows "\<exists>rest. memcpy_iter w = handler_process memcpy_parent h (map Some m @ rest) (mc_len (main_obj w))
    True (memcpy_delivered h w)"
  using assms by (cases h) (auto simp: memcpy_state memcpy_iter_def memcpy_delivered_def Let_def)

lemma memcpy_delivered_busy:
  "memcpy_inflight h m w \<Longrightarrow> memcpy_busy h (memcpy_delivered h w) \<and> app_of (memcpy_delivered h w) = app_of w"
  by (cases h) (auto simp: memcpy_state memcpy_delivered_def app_of_def)

lemma memcpy_send_busy:
  assumes "memcpy_busy h w" and "m \<in> {client_message, server_message}"
  shows "\<exists>w1. memcpy_send (Some h) m (int (length m)) True w = Inr w1 \<and>
    memcpy_inflight (peer h) m w1 \<and> app_of w1 = app_of w"
  using assms by (cases h) (auto simp: memcpy_state memcpy_send_def memcpy_max_buff_def c_memcpy_def frame_simps)

interpretation memcpy: echo_transport memcpy_parent memcpy_iter memcpy_ended memcpy_inflight memcpy_busy
proof (unfold_locales, goal_cases)
  case (1 w w' h m)
  then show ?case using net_of_eqD [OF 1(1)] by (simp add: memcpy_state)
next
  case (2 w w' h)
  then show ?case using net_of_eqD [OF 2(1)] by (simp add: memcpy_state)
next
  case (4 h w)
  then show ?case by (cases h) (simp_all add: memcpy_state)
next
  case (8 h m w)
  then show ?case using memcpy_iter_inflight memcpy_delivered_busy by blast
next
  case (5 h w m)
  then show ?case using memcpy_send_busy by (simp add: memcpy_parent_def)
qed (simp_all add: memcpy_state memcpy_parent_def memcpy_cancelLoop_def memcpy_ended_def frame_simps)

subsection \<open>The program over this transport\<close>

text \<open>What \<open>bindServer\<close>, \<open>connectToServer\<close> and the client's first request leave for the loop.\<close>

lemmas memcpy_setup_simps = memcpy_main_def memcpy_bindServer_def memcpy_initialize_def start_world_def
  memcpy_zero_def memcpy_connectToServer_def EchoClient_new_def EchoServer_new_def EventHandler_new_def

lemma memcpy_setup:
  "\<exists>w w'. em_bindServer memcpy_main port ServerObj
       (em_initialize memcpy_main (start_world None memcpy_zero ck (int N))) = Inr w \<and>
     em_connectToServer memcpy_main addr port ClientObj w = handler_enable memcpy_parent ClientObj w' \<and>
     memcpy_busy ClientObj w' \<and> app_of w' = ((0, 0, int N, None), ck, 0, [])"
  by (auto simp: memcpy_setup_simps memcpy_state app_of_def Let_def)

lemma memcpy_roles:
  assumes "0 < N" and "int N \<le> INT_MAX" and "clock_sane ck" and "2 * N \<le> fuel"
  shows "\<exists>w'. run_roles memcpy_main fuel ArgParser_new
      (em_initialize memcpy_main (start_world None memcpy_zero ck (int N))) = Inr w' \<and> finished N ck w'"
proof -
  let ?V = memcpy_main and ?a = ArgParser_new
  from memcpy_setup [of "pPort ?a" ck N "pAddress ?a"] memcpy.enable_starts obtain w1 w2 where
    s: "em_bindServer ?V (pPort ?a) ServerObj (em_initialize ?V (start_world None memcpy_zero ck (int N))) = Inr w1"
      "em_connectToServer ?V (pAddress ?a) (pPort ?a) ClientObj w1 = Inr w2"
      "memcpy_inflight ServerObj client_message w2" "awaiting 0 N ck w2" by metis
  have "em_process ?V fuel w2 = rbind (run_loop memcpy_ended memcpy_iter fuel w2) (\<lambda>w. Inr (id w))"
    by (cases "run_loop memcpy_ended memcpy_iter fuel w2") (simp_all add: memcpy_main_def memcpy_process_def)
  from memcpy.roles_complete [OF s(1,2) this s(3,4) _ assms] show ?thesis
    by (simp add: ArgParser_new_def)
qed

text \<open>
  C19. The memcpy program run with no arguments completes: with a sane clock, and 2000 iterations of
  the loop or more allowed, \<open>main\<close> returns with 1000 requests sent and 1000 responses received, and
  what it printed is the two times and the report with the elapsed microseconds and the rate
  (computed without division by zero when no microsecond elapsed).
\<close>

theorem memcpy_main_completes:
  assumes "clock_sane ck" and "usecs (ck 1) \<le> usecs (ck 2)" and "2000 \<le> fuel"
  shows "\<exists>w. perf_main memcpy_main None memcpy_zero ck fuel [] = Inr w \<and> benchmark_done 1000 ck w"
  using memcpy_roles [of 1000 ck fuel] assms by (intro main_benchmark_done) (auto simp: INT_MAX_def)

theorem memcpy_main_completes_witness:
  "\<exists>w. perf_main memcpy_main None memcpy_zero still_clock 2000 [] = Inr w \<and>
     benchmark_done 1000 still_clock w \<and>
     stdout w = [PrintedTime (still_clock 0), PrintedTime (still_clock 3), PrintedReport 1000 0 1000000000]"
  using memcpy_main_completes [of still_clock 2000] by (auto simp: benchmark_done_def)

text \<open>
  The transport needs both roles in one process: with only the client (\<open>-c\<close>), whose request has
  no destination, or only the server (\<open>-s\<close>), which never gets a request, the loop spins for ever,
  however many iterations are allowed.
\<close>

theorem memcpy_single_role_spins:
  "perf_main memcpy_main None memcpy_zero ck fuel [''-c''] = Inl OutOfFuel \<and>
   perf_main memcpy_main None memcpy_zero ck fuel [''-s''] = Inl OutOfFuel"
proof -
  have spin: "run_loop memcpy_ended memcpy_iter fuel w = Inl OutOfFuel"
    if "\<not> mc_loopEnd (main_obj w)" "mc_len (main_obj w) = 0 \<or> mc_dest (main_obj w) = None" for w
    using that by (intro run_loop_spins [where I = "\<lambda>v. v = w"]) (auto simp: memcpy_ended_def memcpy_iter_def)
  show ?thesis
    by (simp add: perf_main_def parse_defs run_roles_def memcpy_setup_simps memcpy_process_def
        EchoClient_enable_def EchoClient_sendData_def EventHandler_send_def memcpy_parent_def memcpy_send_def
        c_memcpy_def memcpy_max_buff_def res_simps int_ok_def INT_MAX_def Let_def spin)
qed

end
