(* ===== verification/SharedMem.thy ===== *)
theory SharedMem
  imports PerfMain
begin

section \<open>The shared buffer (struct membuff)\<close>

text \<open>
  The three transports over shared memory (mmap, shmem, shmem-sem) declare the same packed struct:
  two 16-bit fields and a character array that fills the rest of 512 bytes. A handler's context is
  the identifier of the destination, an integer cast to a pointer, so contexts are \<^typ>\<open>int\<close> here
  and a null context is 0.
\<close>

definition SharedMemorySize :: nat where "SharedMemorySize = 512"

definition ClientDest :: int where "ClientDest = 1"

definition ServerDest :: int where "ServerDest = 2"

record membuff =
  destId :: "16 word"
  mlen :: "16 word"
  mbuffer :: cells

definition membuff_size :: nat where "membuff_size = SharedMemorySize - 2 * 2"

definition membuff_zero :: membuff where
  "membuff_zero = \<lparr>destId = 0, mlen = 0, mbuffer = replicate membuff_size (Some NUL)\<rparr>"

text \<open>Every mapping of the struct has an array of the declared size.\<close>

definition membuff_ok :: "membuff \<Rightarrow> bool" where
  "membuff_ok b \<longleftrightarrow> length (mbuffer b) = membuff_size"

lemma membuff_size_value [simp]: "membuff_size = 508"
  by (simp add: membuff_size_def SharedMemorySize_def)

lemma membuff_zero_ok [simp]: "membuff_ok membuff_zero"
  by (simp add: membuff_ok_def membuff_zero_def)

fun dest_of :: "hid \<Rightarrow> int" where
  "dest_of ServerObj = ServerDest"
| "dest_of ClientObj = ClientDest"

text \<open>
  The three stores of \<open>send\<close> in program order: the length, the data, the destination. The length is
  an \<open>int\<close> stored into a \<open>uint16_t\<close>; the destination is the context cut to 16 bits.
\<close>

definition membuff_put :: "char list \<Rightarrow> int \<Rightarrow> int \<Rightarrow> membuff \<Rightarrow> membuff result" where
  "membuff_put data len context b =
     (let b = b\<lparr>mlen := word_of_int len\<rparr>
      in rbind (c_memcpy (mbuffer b) data len) (\<lambda>buf.
         let b = b\<lparr>mbuffer := buf\<rparr>
         in Inr (b\<lparr>destId := word_of_int context\<rparr>)))"

text \<open>\<open>membuff_holds h m b\<close>: the buffer holds the message \<open>m\<close> for the handler \<open>h\<close>.\<close>

definition membuff_holds :: "hid \<Rightarrow> char list \<Rightarrow> membuff \<Rightarrow> bool" where
  "membuff_holds h m b \<longleftrightarrow> membuff_ok b \<and> uint (destId b) = dest_of h \<and> mlen b \<noteq> 0 \<and>
     (\<exists>rest. mbuffer b = map Some m @ rest)"

lemma membuff_put_message:
  assumes "membuff_ok b" and "m \<in> {client_message, server_message}"
  shows "\<exists>b'. membuff_put m (int (length m)) (dest_of h) b = Inr b' \<and> membuff_holds h m b'"
  using assms
  by (cases h) (auto simp: membuff_put_def membuff_ok_def membuff_holds_def c_memcpy_def Let_def
      ClientDest_def ServerDest_def)

lemma membuff_put_ok: "membuff_ok b \<Longrightarrow> membuff_put d n c b = Inr b' \<Longrightarrow> membuff_ok b'"
  by (auto simp: membuff_put_def membuff_ok_def Let_def res_simps dest: length_c_memcpy)

text \<open>
  The exact effect of the three stores: all fields of the struct, and the bytes behind the message,
  which keep what they held.
\<close>

lemma membuff_put_exact:
  assumes "membuff_ok b"
  shows "membuff_put data (int (length data)) c b =
    (if length data \<le> 508
     then Inr \<lparr>destId = word_of_int c, mlen = word_of_nat (length data),
            mbuffer = map Some data @ drop (length data) (mbuffer b)\<rparr>
     else Inl (Undef ''memcpy out of bounds''))"
  using assms by (cases b) (simp add: membuff_put_def membuff_ok_def c_memcpy_def Let_def)

lemma dest_of_word [simp]: "uint (word_of_int (dest_of h) :: 16 word) = dest_of h"
  by (cases h) (simp_all add: ClientDest_def ServerDest_def)

end
