(* ===== verification/MmapMain.thy ===== *)
theory MmapMain
  imports SharedMem
begin

section \<open>The mmap transport (mmapserver.cpp)\<close>

text \<open>
  A file mapped into memory holds the struct; the loop polls it. The file is a length and the
  struct its pages show: while the file is empty, every access through the mapping raises SIGBUS.
  What the system calls of \<open>createSharedMem\<close> return is an argument of the model (\<open>mmap_env\<close>), one
  value for each of its two calls in a process with both roles.
\<close>

datatype membuff_ref = MappedBuff

record mmap_file =
  mf_length :: nat
  mf_view :: membuff

record MMapLoopMain =
  mm_pbuff :: "membuff_ref option"
  mm_server :: "hid option"
  mm_client :: "hid option"
  mm_loopEnd :: bool
  mm_fd :: int
  mm_file :: mmap_file

record mmap_env =
  open_result :: int
  write_works :: bool
  lseek_works :: bool
  mmap_works :: bool

type_synonym mmap_world = "(int, MMapLoopMain) world"

definition mmap_zero :: "mmap_file \<Rightarrow> MMapLoopMain" where
  "mmap_zero f = \<lparr>mm_pbuff = None, mm_server = None, mm_client = None, mm_loopEnd = False,
     mm_fd = 0, mm_file = f\<rparr>"

definition mmap_initialize :: "mmap_world \<Rightarrow> mmap_world" where
  "mmap_initialize w = w\<lparr>main_obj := (main_obj w)\<lparr>mm_loopEnd := False, mm_pbuff := None,
     mm_server := None, mm_client := None\<rparr>\<rparr>"

definition mmap_cancelLoop :: "mmap_world \<Rightarrow> mmap_world" where
  "mmap_cancelLoop w = w\<lparr>main_obj := (main_obj w)\<lparr>mm_loopEnd := True\<rparr>\<rparr>"

text \<open>An access \<open>*pbuff\<close>.\<close>

definition mmap_access :: "mmap_world \<Rightarrow> membuff result" where
  "mmap_access w =
     (if mm_pbuff (main_obj w) = None then Inl (Undef ''null pbuff'')
      else if mf_length (mm_file (main_obj w)) = 0 then Inl (Signal ''SIGBUS'')
      else Inr (mf_view (mm_file (main_obj w))))"

definition mmap_createSharedMem :: "mmap_env \<Rightarrow> bool \<Rightarrow> mmap_world \<Rightarrow> mmap_world result" where
  "mmap_createSharedMem e isServer w =
     (let w = w\<lparr>main_obj := (main_obj w)\<lparr>mm_fd := open_result e\<rparr>\<rparr>
      in if mm_fd (main_obj w) \<le> 0 then Inl (Exit 1 ''open'')
         else
           let w = (if isServer \<and> write_works e
                    then w\<lparr>main_obj := (main_obj w)\<lparr>mm_file :=
                           \<lparr>mf_length = max SharedMemorySize (mf_length (mm_file (main_obj w))),
                            mf_view = membuff_zero\<rparr>\<rparr>\<rparr>
                    else w)
           in if \<not> lseek_works e then Inl (Exit 1 ''lseek'')
              else if \<not> mmap_works e then Inl (Exit 1 ''mmap'')
              else Inr (w\<lparr>main_obj := (main_obj w)\<lparr>mm_pbuff := Some MappedBuff\<rparr>\<rparr>))"

definition mmap_bindServer :: "mmap_env \<Rightarrow> string \<Rightarrow> hid \<Rightarrow> mmap_world \<Rightarrow> mmap_world result" where
  "mmap_bindServer e port h w =
     (let w = w\<lparr>main_obj := (main_obj w)\<lparr>mm_server := Some h\<rparr>\<rparr>;
          w = setContext h ClientDest (setParent h w)
      in mmap_createSharedMem e True w)"

definition mmap_send :: "hid option \<Rightarrow> char list \<Rightarrow> int \<Rightarrow> bool \<Rightarrow> mmap_world \<Rightarrow> mmap_world result" where
  "mmap_send p data len isDataEnd w =
     (case p of
        None \<Rightarrow> Inr w
      | Some h \<Rightarrow>
          rbind (mmap_access w) (\<lambda>b.
          rbind (membuff_put data len (getContext h w) b) (\<lambda>b'.
          Inr (w\<lparr>main_obj := (main_obj w)\<lparr>mm_file := (mm_file (main_obj w))\<lparr>mf_view := b'\<rparr>\<rparr>\<rparr>))))"

definition mmap_parent :: "mmap_world parent_ops" where
  "mmap_parent = \<lparr>em_send = mmap_send, em_cancelLoop = mmap_cancelLoop\<rparr>"

definition mmap_connectToServer ::
  "mmap_env \<Rightarrow> string \<Rightarrow> string \<Rightarrow> hid \<Rightarrow> mmap_world \<Rightarrow> mmap_world result"
where
  "mmap_connectToServer e address port h w =
     (let w = setParent h (w\<lparr>main_obj := (main_obj w)\<lparr>mm_client := Some h\<rparr>\<rparr>)
      in rbind (mmap_createSharedMem e False w) (\<lambda>w.
         handler_enable mmap_parent h (setContext h ServerDest w)))"

text \<open>One iteration of the loop in \<open>process\<close>: nothing to do, nobody to give it to, or a delivery.\<close>

definition mmap_iter :: "mmap_world \<Rightarrow> mmap_world result" where
  "mmap_iter w =
     (if mm_pbuff (main_obj w) = None then Inr w
      else rbind (mmap_access w) (\<lambda>b.
        if mlen b = 0 then Inr w
        else let dest = (if uint (destId b) = ClientDest then mm_client (main_obj w) else mm_server (main_obj w))
             in case dest of
                  None \<Rightarrow> Inr w
                | Some d \<Rightarrow> handler_process mmap_parent d (mbuffer b) (uint (mlen b)) True w))"

definition mmap_ended :: "mmap_world \<Rightarrow> bool" where
  "mmap_ended w \<longleftrightarrow> mm_loopEnd (main_obj w)"

definition mmap_process :: "nat \<Rightarrow> mmap_world \<Rightarrow> mmap_world result" where
  "mmap_process fuel w = run_loop mmap_ended mmap_iter fuel w"

definition mmap_main :: "mmap_env \<Rightarrow> mmap_env \<Rightarrow> mmap_world EventMain" where
  "mmap_main es ec = \<lparr>em_send = mmap_send, em_cancelLoop = mmap_cancelLoop,
     em_initialize = mmap_initialize, em_bindServer = mmap_bindServer es,
     em_connectToServer = mmap_connectToServer ec, em_process = mmap_process\<rparr>"

subsection \<open>The contract\<close>

definition mmap_busy :: "hid \<Rightarrow> mmap_world \<Rightarrow> bool" where
  "mmap_busy h w \<longleftrightarrow> mm_server (main_obj w) = Some ServerObj \<and> mm_client (main_obj w) = Some ClientObj \<and>
     getParent ServerObj w = Some MainProcessor \<and> getParent ClientObj w = Some MainProcessor \<and>
     getContext ServerObj w = ClientDest \<and> getContext ClientObj w = ServerDest \<and>
     \<not> mm_loopEnd (main_obj w) \<and> (\<exists>b. mmap_access w = Inr b \<and> membuff_ok b)"

definition mmap_inflight :: "hid \<Rightarrow> char list \<Rightarrow> mmap_world \<Rightarrow> bool" where
  "mmap_inflight h m w \<longleftrightarrow> mmap_busy h w \<and> membuff_holds h m (mf_view (mm_file (main_obj w)))"

lemma mmap_access_Inr [res_simps]:
  "mmap_access w = Inr b \<longleftrightarrow> mm_pbuff (main_obj w) \<noteq> None \<and> mf_length (mm_file (main_obj w)) \<noteq> 0 \<and>
     b = mf_view (mm_file (main_obj w))"
  by (auto simp: mmap_access_def)

lemmas mmap_state = mmap_busy_def mmap_inflight_def mmap_access_Inr

lemma mmap_send_busy:
  assumes "mmap_busy h w" and "m \<in> {client_message, server_message}"
  shows "\<exists>w1. mmap_send (Some h) m (int (length m)) True w = Inr w1 \<and> mmap_inflight (peer h) m w1 \<and>
    app_of w1 = app_of w"
proof -
  obtain b where b: "mmap_access w = Inr b" "membuff_ok b" using assms(1) by (auto simp: mmap_busy_def)
  have ctx: "getContext h w = dest_of (peer h)" using assms(1) by (cases h) (simp_all add: mmap_busy_def)
  obtain b' where "membuff_put m (int (length m)) (dest_of (peer h)) b = Inr b'" "membuff_holds (peer h) m b'"
    using membuff_put_message [OF b(2) assms(2)] by blast
  with assms(1) b(1) ctx show ?thesis
    by (auto simp: mmap_send_def mmap_state res_simps frame_simps membuff_holds_def)
qed

lemma mmap_iter_inflight:
  assumes "mmap_inflight h m w"
  shows "\<exists>rest. mmap_iter w = handler_process mmap_parent h (map Some m @ rest)
    (uint (mlen (mf_view (mm_file (main_obj w))))) True w"
  using assms
  by (cases h) (auto simp: mmap_state mmap_access_def mmap_iter_def membuff_holds_def ClientDest_def ServerDest_def)

interpretation mmap: echo_transport mmap_parent mmap_iter mmap_ended mmap_inflight mmap_busy
proof (unfold_locales, goal_cases)
  case (1 w w' h m)
  then show ?case using net_of_eqD [OF 1(1)] by (simp add: mmap_state)
next
  case (2 w w' h)
  then show ?case using net_of_eqD [OF 2(1)] by (simp add: mmap_state)
next
  case (4 h w)
  then show ?case by (cases h) (simp_all add: mmap_state)
next
  case (8 h m w)
  then have "mmap_busy h w" by (simp add: mmap_inflight_def)
  with mmap_iter_inflight [OF 8] show ?case by blast
next
  case (5 h w m)
  then show ?case using mmap_send_busy by (simp add: mmap_parent_def)
qed (simp_all add: mmap_state mmap_parent_def mmap_cancelLoop_def mmap_ended_def frame_simps)

subsection \<open>The program over this transport\<close>

definition mmap_env_ok :: "mmap_env \<Rightarrow> bool" where
  "mmap_env_ok e \<longleftrightarrow> 0 < open_result e \<and> write_works e \<and> lseek_works e \<and> mmap_works e"

lemmas mmap_setup_simps = mmap_main_def mmap_bindServer_def mmap_initialize_def start_world_def
  mmap_zero_def mmap_connectToServer_def mmap_createSharedMem_def EchoClient_new_def EchoServer_new_def
  EventHandler_new_def

lemma mmap_setup:
  assumes "mmap_env_ok es" and "mmap_env_ok ec"
  shows "\<exists>w w'. em_bindServer (mmap_main es ec) port ServerObj
       (em_initialize (mmap_main es ec) (start_world 0 (mmap_zero f) ck (int N))) = Inr w \<and>
     em_connectToServer (mmap_main es ec) addr port ClientObj w = handler_enable mmap_parent ClientObj w' \<and>
     mmap_busy ClientObj w' \<and> app_of w' = ((0, 0, int N, None), ck, 0, [])"
  using assms
  by (auto simp: mmap_setup_simps mmap_env_ok_def mmap_state app_of_def SharedMemorySize_def Let_def)

lemma mmap_roles:
  assumes "mmap_env_ok es" and "mmap_env_ok ec"
    and "0 < N" and "int N \<le> INT_MAX" and "clock_sane ck" and "2 * N \<le> fuel"
  shows "\<exists>w'. run_roles (mmap_main es ec) fuel ArgParser_new
      (em_initialize (mmap_main es ec) (start_world 0 (mmap_zero f) ck (int N))) = Inr w' \<and> finished N ck w'"
proof -
  let ?V = "mmap_main es ec" and ?a = ArgParser_new
  from mmap_setup [OF assms(1,2), of "pPort ?a" f ck N "pAddress ?a"] mmap.enable_starts obtain w1 w2 where
    s: "em_bindServer ?V (pPort ?a) ServerObj (em_initialize ?V (start_world 0 (mmap_zero f) ck (int N))) = Inr w1"
      "em_connectToServer ?V (pAddress ?a) (pPort ?a) ClientObj w1 = Inr w2"
      "mmap_inflight ServerObj client_message w2" "awaiting 0 N ck w2" by metis
  have "em_process ?V fuel w2 = rbind (run_loop mmap_ended mmap_iter fuel w2) (\<lambda>w. Inr (id w))"
    by (cases "run_loop mmap_ended mmap_iter fuel w2") (simp_all add: mmap_main_def mmap_process_def)
  from mmap.roles_complete [OF s(1,2) this s(3,4) _ assms(3-6)] show ?thesis
    by (simp add: ArgParser_new_def)
qed

text \<open>
  C20. The mmap program run with no arguments completes, whatever the mapped file held before, if the
  system calls that set the mapping up succeed.
\<close>

theorem mmap_main_completes:
  assumes "mmap_env_ok es" and "mmap_env_ok ec"
    and "clock_sane ck" and "usecs (ck 1) \<le> usecs (ck 2)" and "2000 \<le> fuel"
  shows "\<exists>w. perf_main (mmap_main es ec) 0 (mmap_zero f) ck fuel [] = Inr w \<and> benchmark_done 1000 ck w"
  using mmap_roles [of es ec 1000 ck fuel f] assms by (intro main_benchmark_done) (auto simp: INT_MAX_def)

definition mmap_good_env :: mmap_env where
  "mmap_good_env = \<lparr>open_result = 3, write_works = True, lseek_works = True, mmap_works = True\<rparr>"

lemma mmap_good_env_ok [simp]: "mmap_env_ok mmap_good_env"
  by (simp add: mmap_env_ok_def mmap_good_env_def)

theorem mmap_main_completes_witness:
  "\<exists>w. perf_main (mmap_main mmap_good_env mmap_good_env) 0
       (mmap_zero \<lparr>mf_length = 0, mf_view = membuff_zero\<rparr>) still_clock 2000 [] = Inr w \<and>
     benchmark_done 1000 still_clock w"
  using mmap_main_completes [of mmap_good_env mmap_good_env still_clock 2000] by simp

text \<open>
  C38. A client that starts before any server has written the file dies: \<open>createSharedMem(false)\<close>
  creates the file but does not extend it, so the first store of the client's request hits a page
  behind the end of the file.
\<close>

theorem mmap_client_first_sigbus:
  assumes "mmap_env_ok ec" and "mf_length f = 0"
  shows "perf_main (mmap_main es ec) 0 (mmap_zero f) ck fuel [''-c''] = Inl (Signal ''SIGBUS'')"
  using assms
  by (simp add: perf_main_def parse_defs run_roles_def mmap_setup_simps mmap_env_ok_def EchoClient_enable_def
      EchoClient_sendData_def EventHandler_send_def mmap_parent_def mmap_send_def mmap_access_def Let_def)

theorem mmap_client_first_sigbus_witness:
  "perf_main (mmap_main mmap_good_env mmap_good_env) 0 (mmap_zero \<lparr>mf_length = 0, mf_view = membuff_zero\<rparr>)
     still_clock 10 [''-c''] = Inl (Signal ''SIGBUS'')"
  by (rule mmap_client_first_sigbus) simp_all

end
