(* ===== verification/ShmemMain.thy ===== *)
theory ShmemMain
  imports SharedMem
begin

section \<open>The shared-memory transport with busy waiting (shmemserver.cpp)\<close>

text \<open>
  The struct lives in a System V segment. The segment outlives the processes: it is part of the
  state, absent before the first \<open>shmget\<close> and zero-filled when that call creates it. The results of
  \<open>ftok\<close>, \<open>shmget\<close> and \<open>shmat\<close> are arguments of the model.
\<close>

datatype segment_ref = AttachedSegment

record ShMemLoopMain =
  sh_pbuff :: "segment_ref option"
  sh_server :: "hid option"
  sh_client :: "hid option"
  sh_loopEnd :: bool
  sh_key :: int
  sh_shmemid :: int
  sh_segment :: "membuff option"

record shm_env =
  ftok_result :: int
  shmget_result :: int
  shmat_works :: bool

type_synonym shmem_world = "(int, ShMemLoopMain) world"

definition shmem_zero :: "membuff option \<Rightarrow> ShMemLoopMain" where
  "shmem_zero seg = \<lparr>sh_pbuff = None, sh_server = None, sh_client = None, sh_loopEnd = False,
     sh_key = 0, sh_shmemid = 0, sh_segment = seg\<rparr>"

definition shmem_initialize :: "shmem_world \<Rightarrow> shmem_world" where
  "shmem_initialize w = w\<lparr>main_obj := (main_obj w)\<lparr>sh_loopEnd := False, sh_pbuff := None,
     sh_server := None, sh_client := None\<rparr>\<rparr>"

definition shmem_cancelLoop :: "shmem_world \<Rightarrow> shmem_world" where
  "shmem_cancelLoop w = w\<lparr>main_obj := (main_obj w)\<lparr>sh_loopEnd := True\<rparr>\<rparr>"

text \<open>An access \<open>*pbuff\<close>: the segment exists as long as it is attached.\<close>

definition shmem_access :: "shmem_world \<Rightarrow> membuff result" where
  "shmem_access w =
     (case (sh_pbuff (main_obj w), sh_segment (main_obj w)) of
        (Some _, Some b) \<Rightarrow> Inr b
      | _ \<Rightarrow> Inl (Undef ''null pbuff''))"

definition shmem_createSharedMem :: "shm_env \<Rightarrow> shmem_world \<Rightarrow> shmem_world result" where
  "shmem_createSharedMem e w =
     (let w = w\<lparr>main_obj := (main_obj w)\<lparr>sh_key := ftok_result e\<rparr>\<rparr>
      in if sh_key (main_obj w) = -1 then Inl (Exit 1 ''ftok'')
         else
           let w = w\<lparr>main_obj := (main_obj w)\<lparr>sh_shmemid := shmget_result e\<rparr>\<rparr>
           in if sh_shmemid (main_obj w) = -1 then Inl (Exit 1 ''shmemget'')
              else
                let w = w\<lparr>main_obj := (main_obj w)\<lparr>sh_segment :=
                         (case sh_segment (main_obj w) of None \<Rightarrow> Some membuff_zero | Some b \<Rightarrow> Some b)\<rparr>\<rparr>
                in if \<not> shmat_works e then Inl (Exit 1 ''shmat'')
                   else Inr (w\<lparr>main_obj := (main_obj w)\<lparr>sh_pbuff := Some AttachedSegment\<rparr>\<rparr>))"

definition shmem_bindServer :: "shm_env \<Rightarrow> string \<Rightarrow> hid \<Rightarrow> shmem_world \<Rightarrow> shmem_world result" where
  "shmem_bindServer e port h w =
     (let w = w\<lparr>main_obj := (main_obj w)\<lparr>sh_server := Some h\<rparr>\<rparr>;
          w = setContext h ClientDest (setParent h w)
      in shmem_createSharedMem e w)"

definition shmem_send :: "hid option \<Rightarrow> char list \<Rightarrow> int \<Rightarrow> bool \<Rightarrow> shmem_world \<Rightarrow> shmem_world result" where
  "shmem_send p data len isDataEnd w =
     (case p of
        None \<Rightarrow> Inr w
      | Some h \<Rightarrow>
          rbind (shmem_access w) (\<lambda>b.
          rbind (membuff_put data len (getContext h w) b) (\<lambda>b'.
          Inr (w\<lparr>main_obj := (main_obj w)\<lparr>sh_segment := Some b'\<rparr>\<rparr>))))"

definition shmem_parent :: "shmem_world parent_ops" where
  "shmem_parent = \<lparr>em_send = shmem_send, em_cancelLoop = shmem_cancelLoop\<rparr>"

definition shmem_connectToServer ::
  "shm_env \<Rightarrow> string \<Rightarrow> string \<Rightarrow> hid \<Rightarrow> shmem_world \<Rightarrow> shmem_world result"
where
  "shmem_connectToServer e address port h w =
     (let w = setParent h (w\<lparr>main_obj := (main_obj w)\<lparr>sh_client := Some h\<rparr>\<rparr>)
      in rbind (shmem_createSharedMem e w) (\<lambda>w.
         handler_enable shmem_parent h (setContext h ServerDest w)))"

definition shmem_iter :: "shmem_world \<Rightarrow> shmem_world result" where
  "shmem_iter w =
     (if sh_pbuff (main_obj w) = None then Inr w
      else rbind (shmem_access w) (\<lambda>b.
        if mlen b = 0 then Inr w
        else let dest = (if uint (destId b) = ClientDest then sh_client (main_obj w) else sh_server (main_obj w))
             in case dest of
                  None \<Rightarrow> Inr w
                | Some d \<Rightarrow> handler_process shmem_parent d (mbuffer b) (uint (mlen b)) True w))"

definition shmem_ended :: "shmem_world \<Rightarrow> bool" where
  "shmem_ended w \<longleftrightarrow> sh_loopEnd (main_obj w)"

definition shmem_process :: "nat \<Rightarrow> shmem_world \<Rightarrow> shmem_world result" where
  "shmem_process fuel w = run_loop shmem_ended shmem_iter fuel w"

definition shmem_main :: "shm_env \<Rightarrow> shm_env \<Rightarrow> shmem_world EventMain" where
  "shmem_main es ec = \<lparr>em_send = shmem_send, em_cancelLoop = shmem_cancelLoop,
     em_initialize = shmem_initialize, em_bindServer = shmem_bindServer es,
     em_connectToServer = shmem_connectToServer ec, em_process = shmem_process\<rparr>"

subsection \<open>The contract\<close>

definition shmem_busy :: "hid \<Rightarrow> shmem_world \<Rightarrow> bool" where
  "shmem_busy h w \<longleftrightarrow> sh_server (main_obj w) = Some ServerObj \<and> sh_client (main_obj w) = Some ClientObj \<and>
     getParent ServerObj w = Some MainProcessor \<and> getParent ClientObj w = Some MainProcessor \<and>
     getContext ServerObj w = ClientDest \<and> getContext ClientObj w = ServerDest \<and>
     \<not> sh_loopEnd (main_obj w) \<and> (\<exists>b. shmem_access w = Inr b \<and> membuff_ok b)"

definition shmem_inflight :: "hid \<Rightarrow> char list \<Rightarrow> shmem_world \<Rightarrow> bool" where
  "shmem_inflight h m w \<longleftrightarrow> shmem_busy h w \<and> (\<exists>b. shmem_access w = Inr b \<and> membuff_holds h m b)"

lemma shmem_access_Inr [res_simps]:
  "shmem_access w = Inr b \<longleftrightarrow> sh_pbuff (main_obj w) \<noteq> None \<and> sh_segment (main_obj w) = Some b"
  by (auto simp: shmem_access_def split: option.splits)

lemmas shmem_state = shmem_busy_def shmem_inflight_def shmem_access_Inr

lemma shmem_send_busy:
  assumes "shmem_busy h w" and "m \<in> {client_message, server_message}"
  shows "\<exists>w1. shmem_send (Some h) m (int (length m)) True w = Inr w1 \<and> shmem_inflight (peer h) m w1 \<and>
    app_of w1 = app_of w"
proof -
  obtain b where b: "shmem_access w = Inr b" "membuff_ok b" using assms(1) by (auto simp: shmem_busy_def)
  have ctx: "getContext h w = dest_of (peer h)" using assms(1) by (cases h) (simp_all add: shmem_busy_def)
  obtain b' where "membuff_put m (int (length m)) (dest_of (peer h)) b = Inr b'" "membuff_holds (peer h) m b'"
    using membuff_put_message [OF b(2) assms(2)] by blast
  with assms(1) b(1) ctx show ?thesis
    by (auto simp: shmem_send_def shmem_state res_simps frame_simps membuff_holds_def)
qed

lemma shmem_iter_inflight:
  assumes "shmem_inflight h m w"
  shows "\<exists>rest n. shmem_iter w = handler_process shmem_parent h (map Some m @ rest) n True w"
proof -
  obtain b rest where b: "shmem_access w = Inr b" "membuff_holds h m b" "mbuffer b = map Some m @ rest"
    using assms by (auto simp: shmem_inflight_def membuff_holds_def)
  have "shmem_iter w = handler_process shmem_parent h (mbuffer b) (uint (mlen b)) True w"
    using b(1,2) assms
    by (cases h) (auto simp: shmem_iter_def shmem_state membuff_holds_def ClientDest_def ServerDest_def
        shmem_access_def)
  with b(3) show ?thesis by metis
qed

interpretation shmem: echo_transport shmem_parent shmem_iter shmem_ended shmem_inflight shmem_busy
proof (unfold_locales, goal_cases)
  case (1 w w' h m)
  then show ?case using net_of_eqD [OF 1(1)] by (simp add: shmem_state)
next
  case (2 w w' h)
  then show ?case using net_of_eqD [OF 2(1)] by (simp add: shmem_state)
next
  case (4 h w)
  then show ?case by (cases h) (simp_all add: shmem_state)
next
  case (8 h m w)
  then have "shmem_busy h w" by (simp add: shmem_inflight_def)
  with shmem_iter_inflight [OF 8] show ?case by blast
next
  case (5 h w m)
  then show ?case using shmem_send_busy by (simp add: shmem_parent_def)
qed (simp_all add: shmem_state shmem_parent_def shmem_cancelLoop_def shmem_ended_def frame_simps)

subsection \<open>The program over this transport\<close>

definition shm_env_ok :: "shm_env \<Rightarrow> bool" where
  "shm_env_ok e \<longleftrightarrow> ftok_result e \<noteq> -1 \<and> shmget_result e \<noteq> -1 \<and> shmat_works e"

text \<open>What a segment can hold when the program starts: nothing yet, or any value of the struct.\<close>

definition segment_ok :: "membuff option \<Rightarrow> bool" where
  "segment_ok seg = (case seg of None \<Rightarrow> True | Some b \<Rightarrow> membuff_ok b)"

lemmas shmem_setup_simps = shmem_main_def shmem_bindServer_def shmem_initialize_def start_world_def
  shmem_zero_def shmem_connectToServer_def shmem_createSharedMem_def EchoClient_new_def EchoServer_new_def
  EventHandler_new_def EchoClient_enable_def EventHandler_send_def

lemma shmem_setup:
  assumes "shm_env_ok es" and "shm_env_ok ec" and "segment_ok seg"
  shows "\<exists>w w'. em_bindServer (shmem_main es ec) port ServerObj
       (em_initialize (shmem_main es ec) (start_world 0 (shmem_zero seg) ck (int N))) = Inr w \<and>
     em_connectToServer (shmem_main es ec) addr port ClientObj w = handler_enable shmem_parent ClientObj w' \<and>
     shmem_busy ClientObj w' \<and> app_of w' = ((0, 0, int N, None), ck, 0, [])"
  using assms
  by (cases seg) (auto simp: shmem_setup_simps shm_env_ok_def segment_ok_def shmem_state app_of_def Let_def)

lemma shmem_roles:
  assumes "shm_env_ok es" and "shm_env_ok ec" and "segment_ok seg"
    and "0 < N" and "int N \<le> INT_MAX" and "clock_sane ck" and "2 * N \<le> fuel"
  shows "\<exists>w'. run_roles (shmem_main es ec) fuel ArgParser_new
      (em_initialize (shmem_main es ec) (start_world 0 (shmem_zero seg) ck (int N))) = Inr w' \<and> finished N ck w'"
proof -
  let ?V = "shmem_main es ec" and ?a = ArgParser_new
  from shmem_setup [OF assms(1-3), of "pPort ?a" ck N "pAddress ?a"] shmem.enable_starts obtain w1 w2 where
    s: "em_bindServer ?V (pPort ?a) ServerObj (em_initialize ?V (start_world 0 (shmem_zero seg) ck (int N))) = Inr w1"
      "em_connectToServer ?V (pAddress ?a) (pPort ?a) ClientObj w1 = Inr w2"
      "shmem_inflight ServerObj client_message w2" "awaiting 0 N ck w2" by metis
  have "em_process ?V fuel w2 = rbind (run_loop shmem_ended shmem_iter fuel w2) (\<lambda>w. Inr (id w))"
    by (cases "run_loop shmem_ended shmem_iter fuel w2") (simp_all add: shmem_main_def shmem_process_def)
  from shmem.roles_complete [OF s(1,2) this s(3,4) _ assms(4-7)] show ?thesis
    by (simp add: ArgParser_new_def)
qed

text \<open>
  C21. The shared-memory program run with no arguments completes, whatever the segment still holds
  from earlier runs, if the calls that attach it succeed.
\<close>

theorem shmem_main_completes:
  assumes "shm_env_ok es" and "shm_env_ok ec" and "segment_ok seg"
    and "clock_sane ck" and "usecs (ck 1) \<le> usecs (ck 2)" and "2000 \<le> fuel"
  shows "\<exists>w. perf_main (shmem_main es ec) 0 (shmem_zero seg) ck fuel [] = Inr w \<and> benchmark_done 1000 ck w"
  using shmem_roles [of es ec seg 1000 ck fuel] assms by (intro main_benchmark_done) (auto simp: INT_MAX_def)

definition shm_good_env :: shm_env where
  "shm_good_env = \<lparr>ftok_result = 1, shmget_result = 0, shmat_works = True\<rparr>"

lemma shm_good_env_ok [simp]: "shm_env_ok shm_good_env"
  by (simp add: shm_env_ok_def shm_good_env_def)

text \<open>The witness starts from the segment that a completed run leaves behind.\<close>

definition stale_segment :: membuff where
  "stale_segment = \<lparr>destId = 1, mlen = 19, mbuffer = map Some server_message @ replicate 489 (Some NUL)\<rparr>"

theorem shmem_main_completes_witness:
  "\<exists>w. perf_main (shmem_main shm_good_env shm_good_env) 0 (shmem_zero (Some stale_segment)) still_clock 2000 [] = Inr w \<and>
     benchmark_done 1000 still_clock w"
  using shmem_main_completes [of shm_good_env shm_good_env "Some stale_segment" still_clock 2000]
  by (simp add: segment_ok_def stale_segment_def membuff_ok_def)

subsection \<open>What is sent is what is delivered\<close>





end
