(* ===== verification/ShmemSemMain.thy ===== *)
theory ShmemSemMain
  imports SharedMem
begin

section \<open>The shared-memory transport with semaphores (shmemsemserver.cpp)\<close>

text \<open>
  The struct again lives in a System V segment, and two named semaphores say when a message is
  ready: each handler's side waits on its own. The segment and the semaphores outlive the
  processes. A pointer to a semaphore is its name (\<open>None\<close> for \<open>NULL\<close> and for the value \<open>sem_open\<close>
  returns when it fails, which the code does not check). In a process that holds both roles nobody
  else posts, so a wait on a semaphore at 0 never returns.
\<close>

datatype sem_name = ServerSem | ClientSem

definition SEM_VALUE_MAX :: nat where "SEM_VALUE_MAX = 2147483647"

record ShMemSemLoopMain =
  ss_pbuff :: bool
  ss_server :: "hid option"
  ss_client :: "hid option"
  ss_semServer :: "sem_name option"
  ss_semClient :: "sem_name option"
  ss_semNext :: "sem_name option"
  ss_loopEnd :: bool
  ss_key :: int
  ss_shmemid :: int
  ss_segment :: "membuff option"
  ss_sems :: "sem_name \<Rightarrow> nat"

record sem_env =
  sem_ftok :: int
  sem_shmget :: int
  sem_shmat_works :: bool
  sem_open_works :: "sem_name \<Rightarrow> bool"

type_synonym shmsem_world = "(int, ShMemSemLoopMain) world"

definition shmsem_zero :: "membuff option \<Rightarrow> (sem_name \<Rightarrow> nat) \<Rightarrow> ShMemSemLoopMain" where
  "shmsem_zero seg sems = \<lparr>ss_pbuff = False, ss_server = None, ss_client = None, ss_semServer = None,
     ss_semClient = None, ss_semNext = None, ss_loopEnd = False, ss_key = 0, ss_shmemid = 0,
     ss_segment = seg, ss_sems = sems\<rparr>"

definition shmsem_initialize :: "shmsem_world \<Rightarrow> shmsem_world" where
  "shmsem_initialize w = w\<lparr>main_obj := (main_obj w)\<lparr>ss_loopEnd := False, ss_pbuff := False,
     ss_server := None, ss_client := None, ss_semServer := None, ss_semClient := None,
     ss_semNext := None\<rparr>\<rparr>"

definition shmsem_cancelLoop :: "shmsem_world \<Rightarrow> shmsem_world" where
  "shmsem_cancelLoop w = w\<lparr>main_obj := (main_obj w)\<lparr>ss_loopEnd := True\<rparr>\<rparr>"

definition shmsem_access :: "shmsem_world \<Rightarrow> membuff result" where
  "shmsem_access w =
     (case ss_segment (main_obj w) of
        Some b \<Rightarrow> if ss_pbuff (main_obj w) then Inr b else Inl (Undef ''null pbuff'')
      | None \<Rightarrow> Inl (Undef ''null pbuff''))"

definition sem_wait :: "sem_name option \<Rightarrow> shmsem_world \<Rightarrow> shmsem_world result" where
  "sem_wait s w =
     (case s of
        None \<Rightarrow> Inl (Undef ''sem_wait on an invalid semaphore'')
      | Some n \<Rightarrow>
          if ss_sems (main_obj w) n = 0 then Inl (Blocked ''sem_wait'')
          else Inr (w\<lparr>main_obj := (main_obj w)\<lparr>ss_sems := (ss_sems (main_obj w))(n := ss_sems (main_obj w) n - 1)\<rparr>\<rparr>))"

definition sem_post :: "sem_name option \<Rightarrow> shmsem_world \<Rightarrow> shmsem_world result" where
  "sem_post s w =
     (case s of
        None \<Rightarrow> Inl (Undef ''sem_post on an invalid semaphore'')
      | Some n \<Rightarrow>
          if ss_sems (main_obj w) n \<ge> SEM_VALUE_MAX then Inl (Exit 1 ''sem_post'')
          else Inr (w\<lparr>main_obj := (main_obj w)\<lparr>ss_sems := (ss_sems (main_obj w))(n := Suc (ss_sems (main_obj w) n))\<rparr>\<rparr>))"

definition shmsem_createSharedMem :: "sem_env \<Rightarrow> shmsem_world \<Rightarrow> shmsem_world result" where
  "shmsem_createSharedMem e w =
     (let w = w\<lparr>main_obj := (main_obj w)\<lparr>ss_key := sem_ftok e\<rparr>\<rparr>
      in if ss_key (main_obj w) = -1 then Inl (Exit 1 ''ftok'')
         else
           let w = w\<lparr>main_obj := (main_obj w)\<lparr>ss_shmemid := sem_shmget e\<rparr>\<rparr>
           in if ss_shmemid (main_obj w) = -1 then Inl (Exit 1 ''shmemget'')
              else
                let w = w\<lparr>main_obj := (main_obj w)\<lparr>ss_segment :=
                         (case ss_segment (main_obj w) of None \<Rightarrow> Some membuff_zero | Some b \<Rightarrow> Some b)\<rparr>\<rparr>
                in if \<not> sem_shmat_works e then Inl (Exit 1 ''shmat'')
                   else
                     let w = w\<lparr>main_obj := (main_obj w)\<lparr>ss_pbuff := True,
                              ss_semServer := (if sem_open_works e ServerSem then Some ServerSem else None),
                              ss_semClient := (if sem_open_works e ClientSem then Some ClientSem else None)\<rparr>\<rparr>
                     in Inr (if ss_server (main_obj w) \<noteq> None
                             then w\<lparr>main_obj := (main_obj w)\<lparr>ss_semNext := ss_semServer (main_obj w)\<rparr>\<rparr>
                             else w\<lparr>main_obj := (main_obj w)\<lparr>ss_semNext := ss_semClient (main_obj w)\<rparr>\<rparr>))"

definition shmsem_bindServer :: "sem_env \<Rightarrow> string \<Rightarrow> hid \<Rightarrow> shmsem_world \<Rightarrow> shmsem_world result" where
  "shmsem_bindServer e port h w =
     (let w = w\<lparr>main_obj := (main_obj w)\<lparr>ss_server := Some h\<rparr>\<rparr>;
          w = setContext h ClientDest (setParent h w)
      in shmsem_createSharedMem e w)"

text \<open>
  \<open>send\<close> stores the message, posts the semaphore of the other side and chooses the semaphore that
  this process waits on next: the destination's if its handler lives here, otherwise its own.
\<close>

definition shmsem_send :: "hid option \<Rightarrow> char list \<Rightarrow> int \<Rightarrow> bool \<Rightarrow> shmsem_world \<Rightarrow> shmsem_world result" where
  "shmsem_send p data len isDataEnd w =
     (case p of
        None \<Rightarrow> Inr w
      | Some h \<Rightarrow>
          rbind (shmsem_access w) (\<lambda>b.
          rbind (membuff_put data len (getContext h w) b) (\<lambda>b'.
          let w = w\<lparr>main_obj := (main_obj w)\<lparr>ss_segment := Some b'\<rparr>\<rparr>;
              semDest = (if Some h = ss_server (main_obj w) then ss_semClient (main_obj w)
                         else ss_semServer (main_obj w))
          in rbind (sem_post semDest w) (\<lambda>w.
             Inr (w\<lparr>main_obj := (main_obj w)\<lparr>ss_semNext :=
                (if semDest = ss_semServer (main_obj w)
                 then (if ss_server (main_obj w) \<noteq> None then ss_semServer (main_obj w) else ss_semClient (main_obj w))
                 else (if ss_client (main_obj w) \<noteq> None then ss_semClient (main_obj w)
                       else ss_semServer (main_obj w)))\<rparr>\<rparr>)))))"

definition shmsem_parent :: "shmsem_world parent_ops" where
  "shmsem_parent = \<lparr>em_send = shmsem_send, em_cancelLoop = shmsem_cancelLoop\<rparr>"

definition shmsem_connectToServer ::
  "sem_env \<Rightarrow> string \<Rightarrow> string \<Rightarrow> hid \<Rightarrow> shmsem_world \<Rightarrow> shmsem_world result"
where
  "shmsem_connectToServer e address port h w =
     (let w = setParent h (w\<lparr>main_obj := (main_obj w)\<lparr>ss_client := Some h\<rparr>\<rparr>)
      in rbind (shmsem_createSharedMem e w) (\<lambda>w.
         handler_enable shmsem_parent h (setContext h ServerDest w)))"

definition shmsem_iter :: "shmsem_world \<Rightarrow> shmsem_world result" where
  "shmsem_iter w =
     rbind (sem_wait (ss_semNext (main_obj w)) w) (\<lambda>w.
     if \<not> ss_pbuff (main_obj w) then Inl (Exit 1 ''Invalid buffer'')
     else rbind (shmsem_access w) (\<lambda>b.
       if mlen b = 0 then Inl (Exit 1 ''Invalid buffer'')
       else let dest = (if uint (destId b) = ClientDest then ss_client (main_obj w) else ss_server (main_obj w))
            in case dest of
                 None \<Rightarrow> Inl (Exit 1 ''Invalid dest'')
               | Some d \<Rightarrow> handler_process shmsem_parent d (mbuffer b) (uint (mlen b)) True w))"

definition shmsem_ended :: "shmsem_world \<Rightarrow> bool" where
  "shmsem_ended w \<longleftrightarrow> ss_loopEnd (main_obj w)"

definition shmsem_process :: "nat \<Rightarrow> shmsem_world \<Rightarrow> shmsem_world result" where
  "shmsem_process fuel w = run_loop shmsem_ended shmsem_iter fuel w"

definition shmsem_main :: "sem_env \<Rightarrow> sem_env \<Rightarrow> shmsem_world EventMain" where
  "shmsem_main es ec = \<lparr>em_send = shmsem_send, em_cancelLoop = shmsem_cancelLoop,
     em_initialize = shmsem_initialize, em_bindServer = shmsem_bindServer es,
     em_connectToServer = shmsem_connectToServer ec, em_process = shmsem_process\<rparr>"

subsection \<open>The contract\<close>

fun sem_of :: "hid \<Rightarrow> sem_name" where
  "sem_of ServerObj = ServerSem"
| "sem_of ClientObj = ClientSem"

text \<open>
  Between two calls the semaphores are below their maximum; with a message in flight the
  destination's semaphore is the one waited on next and is positive.
\<close>

definition shmsem_wf :: "shmsem_world \<Rightarrow> bool" where
  "shmsem_wf w \<longleftrightarrow> ss_server (main_obj w) = Some ServerObj \<and> ss_client (main_obj w) = Some ClientObj \<and>
     ss_semServer (main_obj w) = Some ServerSem \<and> ss_semClient (main_obj w) = Some ClientSem \<and>
     getParent ServerObj w = Some MainProcessor \<and> getParent ClientObj w = Some MainProcessor \<and>
     getContext ServerObj w = ClientDest \<and> getContext ClientObj w = ServerDest \<and>
     \<not> ss_loopEnd (main_obj w) \<and> (\<exists>b. shmsem_access w = Inr b \<and> membuff_ok b)"

definition shmsem_busy :: "hid \<Rightarrow> shmsem_world \<Rightarrow> bool" where
  "shmsem_busy h w \<longleftrightarrow> shmsem_wf w \<and> (\<forall>s. ss_sems (main_obj w) s < SEM_VALUE_MAX)"

definition shmsem_inflight :: "hid \<Rightarrow> char list \<Rightarrow> shmsem_world \<Rightarrow> bool" where
  "shmsem_inflight h m w \<longleftrightarrow> shmsem_wf w \<and> ss_semNext (main_obj w) = Some (sem_of h) \<and>
     0 < ss_sems (main_obj w) (sem_of h) \<and> ss_sems (main_obj w) (sem_of h) \<le> SEM_VALUE_MAX \<and>
     ss_sems (main_obj w) (sem_of (peer h)) < SEM_VALUE_MAX \<and>
     (\<exists>b. shmsem_access w = Inr b \<and> membuff_holds h m b)"

lemma shmsem_access_Inr [res_simps]:
  "shmsem_access w = Inr b \<longleftrightarrow> ss_pbuff (main_obj w) \<and> ss_segment (main_obj w) = Some b"
  by (auto simp: shmsem_access_def split: option.splits)

lemma sem_of_cases: "(\<forall>s. Q s) \<longleftrightarrow> Q ServerSem \<and> Q ClientSem"
  by (metis sem_name.exhaust)

lemmas shmsem_state = shmsem_wf_def shmsem_busy_def shmsem_inflight_def shmsem_access_Inr sem_of_cases

lemma shmsem_send_busy:
  assumes "shmsem_busy h w" and "m \<in> {client_message, server_message}"
  shows "\<exists>w1. shmsem_send (Some h) m (int (length m)) True w = Inr w1 \<and> shmsem_inflight (peer h) m w1 \<and>
    app_of w1 = app_of w"
proof -
  obtain b where b: "shmsem_access w = Inr b" "membuff_ok b" using assms(1) by (auto simp: shmsem_busy_def shmsem_wf_def)
  have ctx: "getContext h w = dest_of (peer h)" using assms(1) by (cases h) (simp_all add: shmsem_busy_def shmsem_wf_def)
  obtain b' where "membuff_put m (int (length m)) (dest_of (peer h)) b = Inr b'" "membuff_holds (peer h) m b'"
    using membuff_put_message [OF b(2) assms(2)] by blast
  with assms(1) b(1) ctx show ?thesis
    by (cases h) (auto simp: shmsem_send_def sem_post_def shmsem_state res_simps frame_simps membuff_holds_def Let_def)
qed

text \<open>The world in which the loop calls the destination: the wait has taken one from its semaphore.\<close>

definition shmsem_waited :: "hid \<Rightarrow> shmsem_world \<Rightarrow> shmsem_world" where
  "shmsem_waited h w = w\<lparr>main_obj := (main_obj w)\<lparr>ss_sems :=
     (ss_sems (main_obj w))(sem_of h := ss_sems (main_obj w) (sem_of h) - 1)\<rparr>\<rparr>"

lemma shmsem_waited_busy:
  "shmsem_inflight h m w \<Longrightarrow> shmsem_busy h (shmsem_waited h w) \<and> app_of (shmsem_waited h w) = app_of w"
  by (cases h) (auto simp: shmsem_state shmsem_waited_def frame_simps membuff_holds_def)

lemma shmsem_iter_inflight:
  assumes "shmsem_inflight h m w"
  shows "\<exists>rest n. shmsem_iter w = handler_process shmsem_parent h (map Some m @ rest) n True (shmsem_waited h w)"
proof -
  obtain b rest where b: "shmsem_access w = Inr b" "membuff_holds h m b" "mbuffer b = map Some m @ rest"
    using assms by (auto simp: shmsem_inflight_def membuff_holds_def)
  have seg: "ss_pbuff (main_obj w)" "ss_segment (main_obj w) = Some b"
    using b(1) by (simp_all add: shmsem_access_Inr)
  have "shmsem_iter w = handler_process shmsem_parent h (mbuffer b) (uint (mlen b)) True (shmsem_waited h w)"
    using seg b(2) assms
    by (cases h) (auto simp: shmsem_iter_def sem_wait_def shmsem_waited_def shmsem_state membuff_holds_def
        ClientDest_def ServerDest_def shmsem_access_def)
  with b(3) show ?thesis by metis
qed

interpretation shmsem: echo_transport shmsem_parent shmsem_iter shmsem_ended shmsem_inflight shmsem_busy
proof (unfold_locales, goal_cases)
  case (1 w w' h m)
  then show ?case using net_of_eqD [OF 1(1)] by (simp add: shmsem_state)
next
  case (2 w w' h)
  then show ?case using net_of_eqD [OF 2(1)] by (simp add: shmsem_state)
next
  case (4 h w)
  then show ?case by (cases h) (simp_all add: shmsem_state)
next
  case (8 h m w)
  then show ?case using shmsem_iter_inflight shmsem_waited_busy by blast
next
  case (5 h w m)
  then show ?case using shmsem_send_busy by (simp add: shmsem_parent_def)
qed (simp_all add: shmsem_state shmsem_parent_def shmsem_cancelLoop_def shmsem_ended_def frame_simps)

subsection \<open>The program over this transport\<close>

definition sem_env_ok :: "sem_env \<Rightarrow> bool" where
  "sem_env_ok e \<longleftrightarrow> sem_ftok e \<noteq> -1 \<and> sem_shmget e \<noteq> -1 \<and> sem_shmat_works e \<and>
     sem_open_works e ServerSem \<and> sem_open_works e ClientSem"

definition sem_segment_ok :: "membuff option \<Rightarrow> bool" where
  "sem_segment_ok seg = (case seg of None \<Rightarrow> True | Some b \<Rightarrow> membuff_ok b)"

lemmas shmsem_setup_simps = shmsem_main_def shmsem_bindServer_def shmsem_initialize_def start_world_def
  shmsem_zero_def shmsem_connectToServer_def shmsem_createSharedMem_def EchoClient_new_def EchoServer_new_def
  EventHandler_new_def

lemma shmsem_setup:
  assumes "sem_env_ok es" and "sem_env_ok ec" and "sem_segment_ok seg"
    and "sems ServerSem < SEM_VALUE_MAX" and "sems ClientSem < SEM_VALUE_MAX"
  shows "\<exists>w w'. em_bindServer (shmsem_main es ec) port ServerObj
       (em_initialize (shmsem_main es ec) (start_world 0 (shmsem_zero seg sems) ck (int N))) = Inr w \<and>
     em_connectToServer (shmsem_main es ec) addr port ClientObj w = handler_enable shmsem_parent ClientObj w' \<and>
     shmsem_busy ClientObj w' \<and> app_of w' = ((0, 0, int N, None), ck, 0, [])"
  using assms
  by (cases seg) (auto simp: shmsem_setup_simps sem_env_ok_def sem_segment_ok_def shmsem_state app_of_def Let_def)

lemma shmsem_roles:
  assumes "sem_env_ok es" and "sem_env_ok ec" and "sem_segment_ok seg"
    and "sems ServerSem < SEM_VALUE_MAX" and "sems ClientSem < SEM_VALUE_MAX"
    and "0 < N" and "int N \<le> INT_MAX" and "clock_sane ck" and "2 * N \<le> fuel"
  shows "\<exists>w'. run_roles (shmsem_main es ec) fuel ArgParser_new
      (em_initialize (shmsem_main es ec) (start_world 0 (shmsem_zero seg sems) ck (int N))) = Inr w' \<and>
    finished N ck w'"
proof -
  let ?V = "shmsem_main es ec" and ?a = ArgParser_new
  from shmsem_setup [OF assms(1-5), of "pPort ?a" ck N "pAddress ?a"] shmsem.enable_starts obtain w1 w2 where
    s: "em_bindServer ?V (pPort ?a) ServerObj (em_initialize ?V (start_world 0 (shmsem_zero seg sems) ck (int N))) = Inr w1"
      "em_connectToServer ?V (pAddress ?a) (pPort ?a) ClientObj w1 = Inr w2"
      "shmsem_inflight ServerObj client_message w2" "awaiting 0 N ck w2" by metis
  have "em_process ?V fuel w2 = rbind (run_loop shmsem_ended shmsem_iter fuel w2) (\<lambda>w. Inr (id w))"
    by (cases "run_loop shmsem_ended shmsem_iter fuel w2") (simp_all add: shmsem_main_def shmsem_process_def)
  from shmsem.roles_complete [OF s(1,2) this s(3,4) _ assms(6-9)] show ?thesis
    by (simp add: ArgParser_new_def)
qed

text \<open>
  C22. The semaphore program run with no arguments completes without ever blocking, whatever the
  segment and the two semaphores still hold from earlier runs (the semaphores below their maximum).
\<close>

theorem shmsem_main_completes:
  assumes "sem_env_ok es" and "sem_env_ok ec" and "sem_segment_ok seg"
    and "sems ServerSem < SEM_VALUE_MAX" and "sems ClientSem < SEM_VALUE_MAX"
    and "clock_sane ck" and "usecs (ck 1) \<le> usecs (ck 2)" and "2000 \<le> fuel"
  shows "\<exists>w. perf_main (shmsem_main es ec) 0 (shmsem_zero seg sems) ck fuel [] = Inr w \<and> benchmark_done 1000 ck w"
  using shmsem_roles [of es ec seg sems 1000 ck fuel] assms
  by (intro main_benchmark_done) (auto simp: INT_MAX_def)

definition sem_good_env :: sem_env where
  "sem_good_env = \<lparr>sem_ftok = 1, sem_shmget = 0, sem_shmat_works = True, sem_open_works = (\<lambda>_. True)\<rparr>"

theorem shmsem_main_completes_witness:
  "\<exists>w. perf_main (shmsem_main sem_good_env sem_good_env) 0 (shmsem_zero None (\<lambda>_. 0)) still_clock 2000 [] = Inr w \<and>
     benchmark_done 1000 still_clock w"
  using shmsem_main_completes [of sem_good_env sem_good_env None "\<lambda>_. 0" still_clock 2000]
  by (simp add: sem_segment_ok_def sem_env_ok_def sem_good_env_def SEM_VALUE_MAX_def)

text \<open>
  A server alone (\<open>-s\<close>) on fresh semaphores blocks in its first \<open>sem_wait\<close> instead of spinning.
\<close>

theorem shmsem_server_waits:
  assumes "sem_env_ok es" and "sems ServerSem = 0" and "0 < fuel"
  shows "perf_main (shmsem_main es ec) 0 (shmsem_zero seg sems) ck fuel [''-s''] = Inl (Blocked ''sem_wait'')"
  using assms
  by (cases fuel) (simp_all add: perf_main_def parse_defs run_roles_def shmsem_setup_simps sem_env_ok_def
      shmsem_process_def shmsem_ended_def shmsem_iter_def sem_wait_def Let_def)

theorem shmsem_server_waits_witness:
  "perf_main (shmsem_main sem_good_env sem_good_env) 0 (shmsem_zero None (\<lambda>_. 0)) still_clock 5 [''-s''] =
     Inl (Blocked ''sem_wait'')"
  by (rule shmsem_server_waits) (simp_all add: sem_env_ok_def sem_good_env_def)

end
