(* ===== verification/ShmemProtocol.thy ===== *)
theory ShmemProtocol
  imports SharedMem
begin

section \<open>Two processes over the shared buffer\<close>

text \<open>
  The shared-memory transports with client and server in two processes (options \<open>-c\<close> and \<open>-s\<close>),
  as interleavings of single accesses to the shared struct: the loads of the polling loop, the
  byte comparisons of \<open>strcmp\<close>, and the stores of \<open>send\<close> (the length, the bytes of \<open>memcpy\<close> in any
  order, the destination). Each process holds one handler, so the pointer to the other one is null
  and a message for it is skipped (busy waiting) or fatal (semaphores). Accesses are taken as
  sequentially consistent.
\<close>

datatype pc =
    AtWait            \<comment> \<open>\<open>sem_wait(semNext)\<close>\<close>
  | AtLen             \<comment> \<open>\<open>if (!pbuff->len)\<close>\<close>
  | AtDest            \<comment> \<open>\<open>dest = (pbuff->destId == ClientDest) ? client : server\<close>\<close>
  | AtCompare nat     \<comment> \<open>\<open>strcmp\<close> at this byte\<close>
  | AtSetLen          \<comment> \<open>\<open>pbuff->len = len\<close>\<close>
  | AtCopy "nat set"  \<comment> \<open>\<open>memcpy\<close> with these bytes left to copy\<close>
  | AtSetDest         \<comment> \<open>\<open>pbuff->destId = context\<close>\<close>
  | AtPost            \<comment> \<open>\<open>sem_post(semDest)\<close>\<close>
  | AtDone            \<comment> \<open>the client has all its responses\<close>
  | AtDead            \<comment> \<open>\<open>exit(1)\<close>\<close>

record proto =
  mem :: membuff
  pcs :: "hid \<Rightarrow> pc"
  sems :: "hid \<Rightarrow> nat"
  sent :: nat
  got :: nat
  served :: nat

abbreviation goto :: "hid \<Rightarrow> pc \<Rightarrow> proto \<Rightarrow> proto" where
  "goto r p s \<equiv> s\<lparr>pcs := (pcs s)(r := p)\<rparr>"

abbreviation upd_mem :: "(membuff \<Rightarrow> membuff) \<Rightarrow> proto \<Rightarrow> proto" where
  "upd_mem f s \<equiv> s\<lparr>mem := f (mem s)\<rparr>"

text \<open>The message a process expects and the one it sends.\<close>

fun msg_in :: "hid \<Rightarrow> char list" where
  "msg_in ServerObj = client_message"
| "msg_in ClientObj = server_message"

fun msg_out :: "hid \<Rightarrow> char list" where
  "msg_out ServerObj = server_message"
| "msg_out ClientObj = client_message"

text \<open>Whether the destination field selects the handler that lives in the process.\<close>

fun selects :: "16 word \<Rightarrow> hid \<Rightarrow> bool" where
  "selects d ClientObj = (uint d = ClientDest)"
| "selects d ServerObj = (uint d \<noteq> ClientDest)"

text \<open>Counting when a handler has accepted its message, and when a send is complete.\<close>

fun accepted :: "nat \<Rightarrow> hid \<Rightarrow> proto \<Rightarrow> proto" where
  "accepted N ServerObj s = goto ServerObj AtSetLen s"
| "accepted N ClientObj s =
     goto ClientObj (if Suc (got s) = N then AtDone else AtSetLen) (s\<lparr>got := Suc (got s)\<rparr>)"

fun counted :: "hid \<Rightarrow> proto \<Rightarrow> proto" where
  "counted ServerObj s = s\<lparr>served := Suc (served s)\<rparr>"
| "counted ClientObj s = s\<lparr>sent := Suc (sent s)\<rparr>"

text \<open>
  The handler's own work, common to both transports: \<open>process\<close> compares and \<open>send\<close> stores. \<open>N\<close> is the
  number of requests, \<open>after\<close> where the process goes when the destination is stored.
\<close>

inductive handler_step :: "nat \<Rightarrow> pc \<Rightarrow> proto \<Rightarrow> proto \<Rightarrow> bool" for N after where
  cmp_differs: "pcs s r = AtCompare i \<Longrightarrow> mbuffer (mem s) ! i \<noteq> Some (msg_in r ! i) \<Longrightarrow>
     handler_step N after s (goto r AtDead s)"
| cmp_next: "pcs s r = AtCompare i \<Longrightarrow> mbuffer (mem s) ! i = Some (msg_in r ! i) \<Longrightarrow> msg_in r ! i \<noteq> NUL \<Longrightarrow>
     handler_step N after s (goto r (AtCompare (Suc i)) s)"
| cmp_equal: "pcs s r = AtCompare i \<Longrightarrow> mbuffer (mem s) ! i = Some (msg_in r ! i) \<Longrightarrow> msg_in r ! i = NUL \<Longrightarrow>
     handler_step N after s (accepted N r s)"
| set_len: "pcs s r = AtSetLen \<Longrightarrow>
     handler_step N after s (goto r (AtCopy {..<length (msg_out r)})
       (upd_mem (mlen_update (\<lambda>_. word_of_nat (length (msg_out r)))) s))"
| copy_byte: "pcs s r = AtCopy S \<Longrightarrow> i \<in> S \<Longrightarrow>
     handler_step N after s (goto r (AtCopy (S - {i}))
       (upd_mem (mbuffer_update (\<lambda>b. b[i := Some (msg_out r ! i)])) s))"
| copied: "pcs s r = AtCopy {} \<Longrightarrow> handler_step N after s (goto r AtSetDest s)"
| set_dest: "pcs s r = AtSetDest \<Longrightarrow>
     handler_step N after s (counted r (goto r after
       (upd_mem (destId_update (\<lambda>_. word_of_int (dest_of (peer r)))) s)))"

subsection \<open>Busy waiting (mmapserver.cpp, shmemserver.cpp)\<close>

inductive spin_step :: "nat \<Rightarrow> proto \<Rightarrow> proto \<Rightarrow> bool" for N where
  spin_empty: "pcs s r = AtLen \<Longrightarrow> mlen (mem s) = 0 \<Longrightarrow> spin_step N s s"
| spin_len: "pcs s r = AtLen \<Longrightarrow> mlen (mem s) \<noteq> 0 \<Longrightarrow> spin_step N s (goto r AtDest s)"
| spin_other: "pcs s r = AtDest \<Longrightarrow> \<not> selects (destId (mem s)) r \<Longrightarrow> spin_step N s (goto r AtLen s)"
| spin_mine: "pcs s r = AtDest \<Longrightarrow> selects (destId (mem s)) r \<Longrightarrow> spin_step N s (goto r (AtCompare 0) s)"
| spin_handler: "handler_step N AtLen s t \<Longrightarrow> spin_step N s t"

text \<open>The server polls, the client is in the \<open>send\<close> of its first request.\<close>

definition spin_init :: "nat \<Rightarrow> proto \<Rightarrow> bool" where
  "spin_init N s \<longleftrightarrow> 0 < N \<and> membuff_ok (mem s) \<and> pcs s ServerObj = AtLen \<and> pcs s ClientObj = AtSetLen \<and>
     sent s = 0 \<and> got s = 0 \<and> served s = 0"

subsection \<open>Semaphores (shmemsemserver.cpp)\<close>

inductive sem_step :: "nat \<Rightarrow> proto \<Rightarrow> proto \<Rightarrow> bool" for N where
  sem_waits: "pcs s r = AtWait \<Longrightarrow> 0 < sems s r \<Longrightarrow>
     sem_step N s (goto r AtLen (s\<lparr>sems := (sems s)(r := sems s r - 1)\<rparr>))"
| sem_empty: "pcs s r = AtLen \<Longrightarrow> mlen (mem s) = 0 \<Longrightarrow> sem_step N s (goto r AtDead s)"
| sem_len: "pcs s r = AtLen \<Longrightarrow> mlen (mem s) \<noteq> 0 \<Longrightarrow> sem_step N s (goto r AtDest s)"
| sem_other: "pcs s r = AtDest \<Longrightarrow> \<not> selects (destId (mem s)) r \<Longrightarrow> sem_step N s (goto r AtDead s)"
| sem_mine: "pcs s r = AtDest \<Longrightarrow> selects (destId (mem s)) r \<Longrightarrow> sem_step N s (goto r (AtCompare 0) s)"
| sem_handler: "handler_step N AtPost s t \<Longrightarrow> sem_step N s t"
| sem_posts: "pcs s r = AtPost \<Longrightarrow>
     sem_step N s (goto r AtWait (s\<lparr>sems := (sems s)(peer r := Suc (sems s (peer r)))\<rparr>))"

definition sem_init :: "nat \<Rightarrow> proto \<Rightarrow> bool" where
  "sem_init N s \<longleftrightarrow> 0 < N \<and> membuff_ok (mem s) \<and> pcs s ServerObj = AtWait \<and> pcs s ClientObj = AtSetLen \<and>
     sems s = (\<lambda>_. 0) \<and> sent s = 0 \<and> got s = 0 \<and> served s = 0"

subsection \<open>Safety of busy waiting\<close>

lemma length_msg [simp]: "length (msg_in r) = 19" "length (msg_out r) = 19"
  by (cases r; simp)+

lemma msg_in_peer [simp]: "msg_in (peer r) = msg_out r"
  by (cases r) auto

lemma msg_NUL: "i < 19 \<Longrightarrow> msg_in r ! i = NUL \<longleftrightarrow> i = 18"
  by (cases r) (auto simp: client_message_def server_message_def nth_append nth_Cons' less_Suc_eq numeral_eq_Suc)

text \<open>The buffer holds the message that process \<open>r\<close> expects, under its length.\<close>

definition full :: "hid \<Rightarrow> membuff \<Rightarrow> bool" where
  "full r b \<longleftrightarrow> mlen b \<noteq> 0 \<and> (\<forall>i<19. mbuffer b ! i = Some (msg_in r ! i))"

text \<open>What the process whose turn it is may be doing, and what the buffer holds then.\<close>

fun turn_ok :: "hid \<Rightarrow> pc \<Rightarrow> membuff \<Rightarrow> bool" where
  "turn_ok r AtLen b = full r b"
| "turn_ok r AtDest b = full r b"
| "turn_ok r (AtCompare i) b = (full r b \<and> i < 19)"
| "turn_ok r AtSetLen b = True"
| "turn_ok r (AtCopy S) b = (mlen b \<noteq> 0 \<and> S \<subseteq> {..<19} \<and>
     (\<forall>i<19. i \<notin> S \<longrightarrow> mbuffer b ! i = Some (msg_out r ! i)))"
| "turn_ok r AtSetDest b = full (peer r) b"
| "turn_ok r AtDone b = (r = ClientObj)"
| "turn_ok r _ b = False"

fun receiving :: "pc \<Rightarrow> bool" where
  "receiving AtWait = True"
| "receiving AtLen = True"
| "receiving AtDest = True"
| "receiving (AtCompare i) = True"
| "receiving _ = False"

text \<open>The counters, from the phase of the client and from whose turn it is.\<close>

definition counts_ok :: "nat \<Rightarrow> hid \<Rightarrow> proto \<Rightarrow> bool" where
  "counts_ok N r s \<longleftrightarrow>
     (if r = ServerObj then sent s = Suc (got s) \<and> served s = got s \<and> got s < N
      else if receiving (pcs s ClientObj) then sent s = Suc (got s) \<and> served s = Suc (got s) \<and> got s < N
      else sent s = got s \<and> served s = got s \<and> (if pcs s ClientObj = AtDone then got s = N else got s < N))"

text \<open>Whose turn it is, read off the destination field.\<close>

definition turn :: "proto \<Rightarrow> hid" where
  "turn s = (if uint (destId (mem s)) = ClientDest then ClientObj else ServerObj)"

definition spin_inv :: "nat \<Rightarrow> proto \<Rightarrow> bool" where
  "spin_inv N s \<longleftrightarrow> membuff_ok (mem s) \<and> pcs s (peer (turn s)) \<in> {AtLen, AtDest} \<and>
     turn_ok (turn s) (pcs s (turn s)) (mem s) \<and> counts_ok N (turn s) s"

lemma not_peer: "r' \<noteq> r \<Longrightarrow> r' = peer r"
  by (cases r; cases r') auto

lemma selects_turn: "selects (destId (mem s)) r \<longleftrightarrow> r = turn s"
  by (cases r) (auto simp: turn_def)

text \<open>A process that is past the polling loop has the turn.\<close>

lemma spin_inv_turn: "spin_inv N s \<Longrightarrow> pcs s r \<notin> {AtLen, AtDest} \<Longrightarrow> r = turn s"
  using not_peer [of r "turn s"] by (auto simp: spin_inv_def)

lemma turn_upd [simp]:
  "turn (s\<lparr>pcs := p\<rparr>) = turn s" "turn (s\<lparr>got := n\<rparr>) = turn s" "turn (s\<lparr>sems := m\<rparr>) = turn s"
  "turn (s\<lparr>mem := mlen_update f (mem s)\<rparr>) = turn s"
  "turn (s\<lparr>mem := mbuffer_update g (mem s)\<rparr>) = turn s"
  by (simp_all add: turn_def)

lemma turn_set_dest: "turn (s\<lparr>mem := (mem s)\<lparr>destId := word_of_int (dest_of r)\<rparr>\<rparr>) = r"
  by (cases r) (auto simp: turn_def ClientDest_def ServerDest_def)

lemma handler_step_spin_inv:
  assumes "handler_step N AtLen s t" and "spin_inv N s"
  shows "spin_inv N t"
  using assms
proof (cases rule: handler_step.cases)
  case (cmp_differs r i)
  then show ?thesis using assms(2) spin_inv_turn [OF assms(2), of r]
    by (auto simp: spin_inv_def full_def)
next
  case (cmp_next r i)
  then have r: "r = turn s" using spin_inv_turn [OF assms(2), of r] by auto
  with cmp_next assms(2) have "i < 19" by (simp add: spin_inv_def)
  moreover from this cmp_next(4) have "i \<noteq> 18" by (auto simp: msg_NUL)
  ultimately show ?thesis
    using cmp_next assms(2) r by (auto simp: spin_inv_def full_def counts_ok_def)
next
  case (cmp_equal r i)
  then have r: "r = turn s" using spin_inv_turn [OF assms(2), of r] by auto
  with cmp_equal assms(2) show ?thesis
    by (cases r) (auto simp: spin_inv_def counts_ok_def full_def split: if_splits)
next
  case (set_len r)
  then have r: "r = turn s" using spin_inv_turn [OF assms(2), of r] by auto
  with set_len assms(2) show ?thesis
    by (cases r) (auto simp: spin_inv_def counts_ok_def full_def membuff_ok_def)
next
  case (copy_byte r S i)
  then have r: "r = turn s" using spin_inv_turn [OF assms(2), of r] by auto
  with copy_byte assms(2) show ?thesis
    by (cases r) (auto simp: spin_inv_def counts_ok_def membuff_ok_def nth_list_update)
next
  case (copied r)
  then have r: "r = turn s" using spin_inv_turn [OF assms(2), of r] by auto
  with copied assms(2) show ?thesis
    by (cases r) (auto simp: spin_inv_def counts_ok_def full_def)
next
  case (set_dest r)
  then have r: "r = turn s" using spin_inv_turn [OF assms(2), of r] by auto
  with set_dest assms(2) show ?thesis
    by (cases r) (auto simp: spin_inv_def counts_ok_def full_def membuff_ok_def turn_def ClientDest_def ServerDest_def)
qed

lemma spin_step_inv: "spin_inv N s \<Longrightarrow> spin_step N s t \<Longrightarrow> spin_inv N t"
proof (erule spin_step.cases)
  fix s' r
  assume "spin_inv N s" "s = s'" "t = goto r AtDest s'" "pcs s' r = AtLen"
  then show ?thesis by (cases "r = turn s'") (auto simp: spin_inv_def counts_ok_def full_def dest: not_peer)
next
  fix s' r
  assume "spin_inv N s" "s = s'" "t = goto r AtLen s'" "pcs s' r = AtDest" "\<not> selects (destId (mem s')) r"
  then show ?thesis by (cases "r = turn s'") (auto simp: spin_inv_def counts_ok_def full_def dest: not_peer)
next
  fix s' r
  assume "spin_inv N s" "s = s'" "t = goto r (AtCompare 0) s'" "pcs s' r = AtDest" "selects (destId (mem s')) r"
  then show ?thesis by (auto simp: selects_turn spin_inv_def counts_ok_def full_def)
qed (auto intro: handler_step_spin_inv)

lemma spin_init_inv:
  "spin_init N s \<and> uint (destId (mem s)) = ClientDest \<Longrightarrow> spin_inv N s"
  by (auto simp: spin_init_def spin_inv_def turn_def counts_ok_def)

interpretation spin: invariant_system
  "\<lambda>s. spin_init N s \<and> uint (destId (mem s)) = ClientDest" "spin_step N" "spin_inv N"
  for N
  by unfold_locales (rule spin_init_inv, assumption, rule spin_step_inv)

text \<open>
  C8. Two processes that poll the shared struct are safe once the destination field names the
  client, as it does after any earlier exchange: in every interleaving neither process ever sees a
  torn or wrong message and exits, the client never gets more responses than it asked for, and when
  it is done it has sent \<open>N\<close> requests, the server has answered \<open>N\<close> and all \<open>N\<close> have arrived.
\<close>

theorem spin_safe:
  assumes "spin_init N s" and "uint (destId (mem s)) = ClientDest" and "(spin_step N)\<^sup>*\<^sup>* s t"
  shows "pcs t ServerObj \<noteq> AtDead \<and> pcs t ClientObj \<noteq> AtDead \<and> got t \<le> N \<and>
    (pcs t ClientObj = AtDone \<longrightarrow> sent t = N \<and> got t = N \<and> served t = N)"
proof -
  have "spin_inv N t" using spin.inv_reachable assms by blast
  then show ?thesis
    by (cases "turn t") (auto simp: spin_inv_def counts_ok_def split: if_splits)
qed

definition proto_start :: "16 word \<Rightarrow> pc \<Rightarrow> proto" where
  "proto_start d p = \<lparr>mem = membuff_zero\<lparr>destId := d\<rparr>, pcs = (\<lambda>_. AtSetLen)(ServerObj := p), sems = (\<lambda>_. 0),
     sent = 0, got = 0, served = 0\<rparr>"

lemma spin_init_start: "0 < N \<Longrightarrow> spin_init N (proto_start d AtLen)"
  by (simp add: spin_init_def proto_start_def membuff_ok_def membuff_zero_def)

theorem spin_safe_witness:
  "\<exists>t. (spin_step 3)\<^sup>*\<^sup>* (proto_start 1 AtLen) t \<and> pcs t ClientObj = AtCopy {..<19} \<and> pcs t ServerObj = AtLen \<and> got t \<le> 3"
proof -
  let ?s = "proto_start 1 AtLen"
  have "spin_step 3 ?s (goto ClientObj (AtCopy {..<19}) (upd_mem (mlen_update (\<lambda>_. 19)) ?s))" (is "spin_step 3 ?s ?t")
    using handler_step.set_len [of ?s ClientObj 3 AtLen] by (auto intro: spin_handler simp: proto_start_def)
  then have "(spin_step 3)\<^sup>*\<^sup>* ?s ?t" by blast
  then show ?thesis
    using spin_safe [of 3 ?s ?t] spin_init_start [of 3 1]
    by (auto simp: proto_start_def ClientDest_def)
qed

text \<open>
  C33. On a fresh struct, all zero, the first request races: the client stores the length before the
  data, and a destination field of 0 selects the server, so the server can find the length set,
  compare the still empty buffer with the client's message and exit.
\<close>

theorem spin_first_request_race:
  assumes "spin_init N s" and "mem s = membuff_zero"
  shows "\<exists>t. (spin_step N)\<^sup>*\<^sup>* s t \<and> pcs t ServerObj = AtDead"
proof -
  let ?s1 = "goto ClientObj (AtCopy {..<19}) (upd_mem (mlen_update (\<lambda>_. 19)) s)"
  let ?s2 = "goto ServerObj AtDest ?s1" and ?s3 = "goto ServerObj (AtCompare 0) ?s1"
  let ?s4 = "goto ServerObj AtDead ?s1"
  have "spin_step N s ?s1"
    using assms(1) handler_step.set_len [of s ClientObj N AtLen] by (auto simp: spin_init_def intro: spin_handler)
  moreover have "spin_step N ?s1 ?s2"
    using assms(1) spin_len [of ?s1 ServerObj N] by (simp add: spin_init_def)
  moreover have "spin_step N ?s2 ?s3"
    using spin_mine [of ?s2 ServerObj N] assms(2) by (simp add: membuff_zero_def ClientDest_def)
  moreover have "spin_step N ?s3 ?s4"
    using handler_step.cmp_differs [of ?s3 ServerObj 0 N AtLen] assms(2)
    by (auto simp: membuff_zero_def client_message_def intro: spin_handler)
  ultimately have "(spin_step N)\<^sup>*\<^sup>* s ?s4" by (meson r_into_rtranclp rtranclp_trans)
  then show ?thesis by force
qed

theorem spin_first_request_race_witness:
  "\<exists>t. (spin_step 1000)\<^sup>*\<^sup>* (proto_start 0 AtLen) t \<and> pcs t ServerObj = AtDead"
  by (rule spin_first_request_race) (simp_all add: spin_init_start, simp add: proto_start_def membuff_zero_def)

subsection \<open>Correctness and termination of the semaphores\<close>

text \<open>
  Exactly one process has the baton: it is active, or its semaphore is at 1; the other one waits on
  a semaphore at 0. \<open>baton_ok r p n b\<close> relates the place \<open>p\<close> of the process with the baton, its
  semaphore and the struct.
\<close>

fun baton_ok :: "hid \<Rightarrow> pc \<Rightarrow> nat \<Rightarrow> membuff \<Rightarrow> bool" where
  "baton_ok r AtWait n b = (n = 1 \<and> selects (destId b) r \<and> full r b)"
| "baton_ok r AtLen n b = (n = 0 \<and> selects (destId b) r \<and> full r b)"
| "baton_ok r AtDest n b = (n = 0 \<and> selects (destId b) r \<and> full r b)"
| "baton_ok r (AtCompare i) n b = (n = 0 \<and> selects (destId b) r \<and> full r b \<and> i < 19)"
| "baton_ok r AtPost n b = (n = 0 \<and> selects (destId b) (peer r) \<and> full (peer r) b)"
| "baton_ok r p n b = (n = 0 \<and> turn_ok r p b)"

definition sem_counts :: "nat \<Rightarrow> hid \<Rightarrow> proto \<Rightarrow> bool" where
  "sem_counts N r s \<longleftrightarrow>
     (if r = ServerObj
      then sent s = Suc (got s) \<and> served s = (if pcs s r = AtPost then Suc (got s) else got s) \<and> got s < N
      else if receiving (pcs s r) then sent s = Suc (got s) \<and> served s = Suc (got s) \<and> got s < N
      else if pcs s r = AtDone then sent s = N \<and> got s = N \<and> served s = N
      else sent s = (if pcs s r = AtPost then Suc (got s) else got s) \<and> served s = got s \<and> got s < N)"

definition owner :: "proto \<Rightarrow> hid" where
  "owner s = (if pcs s ClientObj = AtWait \<and> sems s ClientObj = 0 then ServerObj else ClientObj)"

definition sem_ok :: "nat \<Rightarrow> hid \<Rightarrow> proto \<Rightarrow> bool" where
  "sem_ok N r s \<longleftrightarrow> membuff_ok (mem s) \<and> pcs s (peer r) = AtWait \<and> sems s (peer r) = 0 \<and>
     baton_ok r (pcs s r) (sems s r) (mem s) \<and> sem_counts N r s"

definition sem_inv :: "nat \<Rightarrow> proto \<Rightarrow> bool" where
  "sem_inv N s \<longleftrightarrow> sem_ok N (owner s) s"

lemma sem_ok_owner: "sem_ok N r s \<Longrightarrow> owner s = r"
  by (cases r) (auto simp: sem_ok_def owner_def)

lemma sem_invI: "sem_ok N r s \<Longrightarrow> sem_inv N s"
  using sem_ok_owner by (simp add: sem_inv_def)

text \<open>Only the process with the baton can move.\<close>

lemma sem_ok_mover: "sem_ok N r s \<Longrightarrow> pcs s r' \<noteq> AtWait \<or> 0 < sems s r' \<Longrightarrow> r' = r"
  by (cases "r' = r") (auto simp: sem_ok_def dest!: not_peer)

lemma full_mlen: "full r b \<Longrightarrow> mlen b \<noteq> 0"
  by (simp add: full_def)

lemma handler_step_sem_ok:
  assumes "handler_step N AtPost s t" and ok: "sem_ok N r s"
  shows "sem_ok N r t"
  using assms(1)
proof (cases rule: handler_step.cases)
  case (cmp_differs r' i)
  then show ?thesis using ok sem_ok_mover [OF ok, of r'] by (auto simp: sem_ok_def full_def)
next
  case (cmp_next r' i)
  then have [simp]: "r' = r" using sem_ok_mover [OF ok, of r'] by auto
  have "i < 19" using cmp_next ok by (simp add: sem_ok_def)
  moreover from this cmp_next(4) have "i \<noteq> 18" by (auto simp: msg_NUL)
  ultimately show ?thesis using cmp_next ok by (auto simp: sem_ok_def sem_counts_def)
next
  case (cmp_equal r' i)
  then have [simp]: "r' = r" using sem_ok_mover [OF ok, of r'] by auto
  show ?thesis using cmp_equal ok
    by (cases r) (auto simp: sem_ok_def sem_counts_def split: if_splits)
next
  case (set_len r')
  then have [simp]: "r' = r" using sem_ok_mover [OF ok, of r'] by auto
  show ?thesis using set_len ok by (cases r) (auto simp: sem_ok_def sem_counts_def membuff_ok_def)
next
  case (copy_byte r' S i)
  then have [simp]: "r' = r" using sem_ok_mover [OF ok, of r'] by auto
  show ?thesis using copy_byte ok
    by (cases r) (auto simp: sem_ok_def sem_counts_def membuff_ok_def nth_list_update)
next
  case (copied r')
  then have [simp]: "r' = r" using sem_ok_mover [OF ok, of r'] by auto
  show ?thesis using copied ok by (cases r) (auto simp: sem_ok_def sem_counts_def full_def)
next
  case (set_dest r')
  then have [simp]: "r' = r" using sem_ok_mover [OF ok, of r'] by auto
  show ?thesis using set_dest ok
    by (cases r) (auto simp: sem_ok_def sem_counts_def full_def membuff_ok_def ClientDest_def ServerDest_def)
qed

lemma sem_step_ok:
  assumes "sem_step N s t" and ok: "sem_ok N r s"
  shows "sem_ok N (if pcs s r = AtPost then peer r else r) t"
  using assms(1)
proof (cases rule: sem_step.cases)
  case (sem_waits r')
  then have [simp]: "r' = r" using sem_ok_mover [OF ok, of r'] by auto
  show ?thesis using sem_waits ok by (cases r) (auto simp: sem_ok_def sem_counts_def)
next
  case (sem_empty r')
  then show ?thesis using ok sem_ok_mover [OF ok, of r'] by (auto simp: sem_ok_def full_def)
next
  case (sem_len r')
  then have [simp]: "r' = r" using sem_ok_mover [OF ok, of r'] by auto
  show ?thesis using sem_len ok by (cases r) (auto simp: sem_ok_def sem_counts_def)
next
  case (sem_other r')
  then show ?thesis using ok sem_ok_mover [OF ok, of r'] by (auto simp: sem_ok_def)
next
  case (sem_mine r')
  then have [simp]: "r' = r" using sem_ok_mover [OF ok, of r'] by auto
  show ?thesis using sem_mine ok by (cases r) (auto simp: sem_ok_def sem_counts_def)
next
  case sem_handler
  then have "pcs s r \<noteq> AtPost"
    using ok sem_ok_mover [OF ok] by (cases rule: handler_step.cases) (metis pc.distinct pc.simps)+
  with sem_handler ok show ?thesis by (simp add: handler_step_sem_ok)
next
  case (sem_posts r')
  then have [simp]: "r' = r" using sem_ok_mover [OF ok, of r'] by auto
  show ?thesis using sem_posts ok by (cases r) (auto simp: sem_ok_def sem_counts_def)
qed

lemma sem_step_inv: "sem_inv N s \<Longrightarrow> sem_step N s t \<Longrightarrow> sem_inv N t"
  using sem_step_ok sem_invI unfolding sem_inv_def by blast

text \<open>
  The work left for the process with the baton until it hands it over (46 steps from a wait to a
  post, since a message has 19 bytes), and from it the number of steps left in the whole run: two
  such turns for every response that is still missing.
\<close>

fun work :: "pc \<Rightarrow> nat" where
  "work AtWait = 46"
| "work AtLen = 45"
| "work AtDest = 44"
| "work (AtCompare i) = 24 + (19 - i)"
| "work AtSetLen = 23"
| "work (AtCopy S) = 3 + card S"
| "work AtSetDest = 2"
| "work AtPost = 1"
| "work AtDone = 0"
| "work AtDead = 0"

definition sem_left_of :: "nat \<Rightarrow> hid \<Rightarrow> proto \<Rightarrow> nat" where
  "sem_left_of N r s =
     (if r = ServerObj then work (pcs s ServerObj) + 46 + 92 * (N - Suc (got s))
      else if pcs s ClientObj = AtDone then 0
      else if receiving (pcs s ClientObj) then work (pcs s ClientObj) + 92 * (N - Suc (got s))
      else work (pcs s ClientObj) + 92 * (N - got s))"

definition sem_left :: "nat \<Rightarrow> proto \<Rightarrow> nat" where
  "sem_left N s = sem_left_of N (owner s) s"

lemma Suc_diff_mult: "m < N \<Longrightarrow> 92 * (N - m) = 92 + 92 * (N - Suc m)"
  by simp

lemma copy_card: "finite S \<Longrightarrow> i \<in> S \<Longrightarrow> card (S - {i}) < card S"
  by (metis card_Diff1_less)

lemma handler_step_work:
  assumes "handler_step N AtPost s t" and ok: "sem_ok N r s"
  shows "sem_left_of N r t < sem_left_of N r s"
  using assms(1)
proof (cases rule: handler_step.cases)
  case (cmp_differs r' i)
  then show ?thesis using ok sem_ok_mover [OF ok, of r'] by (auto simp: sem_ok_def full_def)
next
  case (cmp_next r' i)
  then have [simp]: "r' = r" using sem_ok_mover [OF ok, of r'] by auto
  show ?thesis using cmp_next ok by (cases r) (auto simp: sem_ok_def sem_left_of_def)
next
  case (cmp_equal r' i)
  then have [simp]: "r' = r" using sem_ok_mover [OF ok, of r'] by auto
  show ?thesis using cmp_equal ok by (cases r) (auto simp: sem_ok_def sem_left_of_def)
next
  case (set_len r')
  then have [simp]: "r' = r" using sem_ok_mover [OF ok, of r'] by auto
  show ?thesis using set_len ok by (cases r) (auto simp: sem_left_of_def)
next
  case (copy_byte r' S i)
  then have [simp]: "r' = r" using sem_ok_mover [OF ok, of r'] by auto
  have "finite S" using copy_byte ok by (cases r) (auto simp: sem_ok_def intro: finite_subset)
  then have "card (S - {i}) < card S" using copy_byte(3) by (rule copy_card)
  then show ?thesis using copy_byte ok by (cases r) (auto simp: sem_left_of_def)
next
  case (copied r')
  then have [simp]: "r' = r" using sem_ok_mover [OF ok, of r'] by auto
  show ?thesis using copied ok by (cases r) (auto simp: sem_left_of_def)
next
  case (set_dest r')
  then have [simp]: "r' = r" using sem_ok_mover [OF ok, of r'] by auto
  show ?thesis using set_dest ok by (cases r) (auto simp: sem_left_of_def)
qed

lemma sem_step_work:
  assumes "sem_step N s t" and ok: "sem_ok N r s"
  shows "sem_left_of N (if pcs s r = AtPost then peer r else r) t < sem_left_of N r s"
  using assms(1)
proof (cases rule: sem_step.cases)
  case (sem_waits r')
  then have [simp]: "r' = r" using sem_ok_mover [OF ok, of r'] by auto
  show ?thesis using sem_waits ok by (cases r) (auto simp: sem_left_of_def)
next
  case (sem_empty r')
  then show ?thesis using ok sem_ok_mover [OF ok, of r'] by (auto simp: sem_ok_def full_def)
next
  case (sem_len r')
  then have [simp]: "r' = r" using sem_ok_mover [OF ok, of r'] by auto
  show ?thesis using sem_len ok by (cases r) (auto simp: sem_left_of_def)
next
  case (sem_other r')
  then show ?thesis using ok sem_ok_mover [OF ok, of r'] by (auto simp: sem_ok_def)
next
  case (sem_mine r')
  then have [simp]: "r' = r" using sem_ok_mover [OF ok, of r'] by auto
  show ?thesis using sem_mine ok by (cases r) (auto simp: sem_left_of_def)
next
  case sem_handler
  then have "pcs s r \<noteq> AtPost"
    using ok sem_ok_mover [OF ok] by (cases rule: handler_step.cases) (metis pc.distinct pc.simps)+
  with sem_handler ok show ?thesis by (simp add: handler_step_work)
next
  case (sem_posts r')
  then have [simp]: "r' = r" using sem_ok_mover [OF ok, of r'] by auto
  show ?thesis using sem_posts ok
    by (cases r) (auto simp: sem_left_of_def sem_ok_def sem_counts_def Suc_diff_mult)
qed

lemma sem_progress:
  assumes "sem_ok N r s" and "pcs s ClientObj \<noteq> AtDone"
  shows "\<exists>t. sem_step N s t"
proof (cases "pcs s r")
  case (AtCompare i)
  then have "mbuffer (mem s) ! i = Some (msg_in r ! i)" using assms(1) by (auto simp: sem_ok_def full_def)
  with AtCompare show ?thesis
    by (cases "msg_in r ! i = NUL") (blast intro: sem_handler handler_step.intros)+
next
  case (AtCopy S)
  then show ?thesis by (cases "S = {}") (blast intro: sem_handler handler_step.intros)+
next
  case AtWait
  then show ?thesis using assms(1) sem_waits [of s r N] by (auto simp: sem_ok_def)
next
  case AtDone
  then show ?thesis using assms by (auto simp: sem_ok_def)
next
  case AtDead
  then show ?thesis using assms by (auto simp: sem_ok_def)
qed (use assms in \<open>auto simp: sem_ok_def dest: full_mlen intro: sem_step.intros handler_step.intros\<close>)

text \<open>When the client is done, nothing is left to do.\<close>

lemma sem_done_left: "sem_inv N s \<Longrightarrow> pcs s ClientObj = AtDone \<Longrightarrow> sem_left N s = 0"
  by (cases "owner s") (auto simp: sem_inv_def sem_ok_def sem_left_def sem_left_of_def)

lemma sem_init_inv: "sem_init N s \<Longrightarrow> sem_inv N s"
  by (rule sem_invI [of N ClientObj]) (auto simp: sem_init_def sem_ok_def sem_counts_def)

interpretation semsys: terminating_system "sem_init N" "sem_step N" "sem_inv N"
  "\<lambda>s. pcs s ClientObj = AtDone" "sem_left N" for N
proof unfold_locales
  fix s t
  assume "sem_inv N s" and st: "sem_step N s t"
  then have ok: "sem_ok N (owner s) s" by (simp add: sem_inv_def)
  show "sem_left N t < sem_left N s"
    using sem_step_work [OF st ok] sem_ok_owner [OF sem_step_ok [OF st ok]] by (simp add: sem_left_def)
qed (auto intro: sem_init_inv sem_step_inv sem_progress [OF sem_inv_def [THEN iffD1]])

text \<open>
  C3. With semaphores the two processes are correct from any contents of the struct, a fresh one
  included: in every interleaving no process exits, and every schedule runs to completion after at
  most \<open>92 N + 23\<close> steps, where it stops with \<open>N\<close> requests sent, answered and received.
\<close>

theorem sem_correct:
  assumes "sem_init N s"
  shows "((sem_step N)\<^sup>*\<^sup>* s t \<longrightarrow> pcs t ServerObj \<noteq> AtDead \<and> pcs t ClientObj \<noteq> AtDead) \<and>
    ((sem_step N ^^ n) s t \<longrightarrow> n \<le> 92 * N + 23) \<and>
    ((sem_step N)\<^sup>*\<^sup>* s t \<and> (\<nexists>u. sem_step N t u) \<longrightarrow>
       pcs t ClientObj = AtDone \<and> sent t = N \<and> got t = N \<and> served t = N)"
proof -
  have inv: "sem_inv N s" using assms by (rule sem_init_inv)
  have alive: "sem_inv N u \<Longrightarrow> pcs u ServerObj \<noteq> AtDead \<and> pcs u ClientObj \<noteq> AtDead" for u
    by (cases "owner u") (auto simp: sem_inv_def sem_ok_def)
  have fin: "sem_inv N u \<Longrightarrow> pcs u ClientObj = AtDone \<Longrightarrow> sent u = N \<and> got u = N \<and> served u = N" for u
    by (cases "owner u") (auto simp: sem_inv_def sem_ok_def sem_counts_def)
  have "sem_left N s \<le> 92 * N + 23" using assms by (simp add: sem_left_def sem_left_of_def sem_init_def owner_def)
  then show ?thesis
    using semsys.inv_steps [OF _ inv] semsys.schedule_bounded [OF _ inv] semsys.stuck_is_final [OF inv]
      alive fin by (meson add_leE le_trans)
qed

theorem sem_correct_witness:
  "sem_init 2 (proto_start 0 AtWait) \<and>
   (\<exists>t. (sem_step 2)\<^sup>*\<^sup>* (proto_start 0 AtWait) t \<and> pcs t ClientObj = AtDone \<and> served t = 2)"
proof -
  have i: "sem_init 2 (proto_start 0 AtWait)"
    by (simp add: sem_init_def proto_start_def membuff_ok_def membuff_zero_def)
  from semsys.reaches_final [OF sem_init_inv [OF i]] obtain t where
    t: "(sem_step 2)\<^sup>*\<^sup>* (proto_start 0 AtWait) t" "pcs t ClientObj = AtDone" by blast
  moreover have inv: "sem_inv 2 t" using semsys.inv_reachable [OF i t(1)] .
  moreover have "\<nexists>u. sem_step 2 t u"
    using semsys.decrease [OF inv] sem_done_left [OF inv t(2)] by (metis not_less_zero)
  ultimately show ?thesis using sem_correct [OF i, of t 0] i by blast
qed

end
