(* ===== verification/Decimal.thy ===== *)
theory Decimal
  imports Prelude
begin

section \<open>Decimal numbers in strings\<close>

text \<open>
  What the program uses of the C and C++ libraries to turn numbers into strings and back:
  \<open>std::to_string\<close>, the scanner of \<open>strtol\<close> in base 10 and, on top of it, \<open>atoi\<close> (the port number of
  the socket transports) and \<open>std::stoi\<close> (the counters in the cache of the thread benchmarks).
\<close>

definition digit_char :: "nat \<Rightarrow> char" where
  "digit_char d = char_of (48 + d)"

definition digit_val :: "char \<Rightarrow> nat" where
  "digit_val c = of_char c - 48"

definition is_digit :: "char \<Rightarrow> bool" where
  "is_digit c \<longleftrightarrow> 48 \<le> (of_char c :: nat) \<and> (of_char c :: nat) \<le> 57"

definition is_space :: "char \<Rightarrow> bool" where
  "is_space c \<longleftrightarrow> (of_char c :: nat) = 32 \<or> 9 \<le> (of_char c :: nat) \<and> (of_char c :: nat) \<le> 13"

fun nat_digits :: "nat \<Rightarrow> string" where
  "nat_digits n = (if n < 10 then [digit_char n] else nat_digits (n div 10) @ [digit_char (n mod 10)])"

declare nat_digits.simps [simp del]

definition to_string :: "int \<Rightarrow> string" where
  "to_string x = (if x < 0 then CHR ''-'' # nat_digits (nat (- x)) else nat_digits (nat x))"

definition digits_val :: "string \<Rightarrow> nat" where
  "digits_val ds = foldl (\<lambda>v c. 10 * v + digit_val c) 0 ds"

text \<open>
  The scan of \<open>strtol\<close>: white space, an optional sign, then the longest run of digits; \<open>None\<close> when
  there is no digit (no conversion). What follows the digits is ignored.
\<close>

definition strtol_scan :: "string \<Rightarrow> int option" where
  "strtol_scan s =
     (let s = dropWhile is_space s;
          neg = (s \<noteq> [] \<and> hd s = CHR ''-'');
          s = (if s \<noteq> [] \<and> hd s \<in> {CHR ''-'', CHR ''+''} then tl s else s);
          ds = takeWhile is_digit s
      in if ds = [] then None
         else Some (if neg then - int (digits_val ds) else int (digits_val ds)))"

text \<open>\<open>atoi\<close>: 0 without a conversion, undefined behaviour when the value does not fit an \<open>int\<close>.\<close>

definition atoi :: "string \<Rightarrow> int result" where
  "atoi s = (case strtol_scan s of
     None \<Rightarrow> Inr 0
   | Some v \<Rightarrow> if int_ok v then Inr v else Inl (Undef ''atoi out of range''))"

text \<open>\<open>std::stoi\<close>: it throws in both cases.\<close>

definition stoi :: "string \<Rightarrow> int result" where
  "stoi s = (case strtol_scan s of
     None \<Rightarrow> Inl (Uncaught ''std::invalid_argument'')
   | Some v \<Rightarrow> if int_ok v then Inr v else Inl (Uncaught ''std::out_of_range''))"

subsection \<open>Round trips\<close>

lemma of_char_digit [simp]: "d < 10 \<Longrightarrow> (of_char (digit_char d) :: nat) = 48 + d"
  by (simp add: digit_char_def)

lemma digit_val_char [simp]: "d < 10 \<Longrightarrow> digit_val (digit_char d) = d"
  by (simp add: digit_val_def)

lemma is_digit_char [simp]: "d < 10 \<Longrightarrow> is_digit (digit_char d)"
  by (simp add: is_digit_def)

lemma nat_digits_digits: "c \<in> set (nat_digits n) \<Longrightarrow> is_digit c"
proof (induction n rule: nat_digits.induct)
  case (1 n)
  then show ?case by (subst (asm) (2) nat_digits.simps) (auto split: if_splits)
qed

lemma nat_digits_nonempty [simp]: "nat_digits n \<noteq> []"
  by (subst nat_digits.simps) simp

lemma digits_val_snoc: "digits_val (ds @ [c]) = 10 * digits_val ds + digit_val c"
  by (simp add: digits_val_def)

lemma digits_val_nat_digits [simp]: "digits_val (nat_digits n) = n"
proof (induction n rule: nat_digits.induct)
  case (1 n)
  show ?case
  proof (cases "n < 10")
    case True
    then show ?thesis by (subst nat_digits.simps) (simp add: digits_val_def)
  next
    case False
    then show ?thesis using 1 by (subst nat_digits.simps) (simp add: digits_val_snoc)
  qed
qed

lemma digit_not_space: "is_digit c \<Longrightarrow> \<not> is_space c"
  by (auto simp: is_digit_def is_space_def)

lemma digit_not_sign: "is_digit c \<Longrightarrow> c \<noteq> CHR ''-'' \<and> c \<noteq> CHR ''+''"
  by (auto simp: is_digit_def)

lemma dropWhile_space_digits: "ds \<noteq> [] \<Longrightarrow> \<forall>c\<in>set ds. is_digit c \<Longrightarrow> dropWhile is_space (ds @ s) = ds @ s"
  by (cases ds) (auto simp: digit_not_space)

lemma strtol_scan_digits:
  assumes "ds \<noteq> []" and "\<forall>c\<in>set ds. is_digit c" and "s = [] \<or> \<not> is_digit (hd s)"
  shows "strtol_scan (ds @ s) = Some (int (digits_val ds))"
    and "strtol_scan (CHR ''-'' # ds @ s) = Some (- int (digits_val ds))"
proof -
  have tw: "takeWhile is_digit (ds @ s) = ds" using assms(2,3) by (cases s) (auto simp: takeWhile_append)
  have hd: "is_digit (hd (ds @ s))" using assms(1,2) by (cases ds) auto
  have "\<not> is_space (CHR ''-'')" by (simp add: is_space_def)
  then show "strtol_scan (CHR ''-'' # ds @ s) = Some (- int (digits_val ds))"
    using tw assms(1) by (simp add: strtol_scan_def)
  show "strtol_scan (ds @ s) = Some (int (digits_val ds))"
    using tw assms(1) digit_not_sign [OF hd] dropWhile_space_digits [OF assms(1,2)]
    by (auto simp: strtol_scan_def Let_def)
qed

lemma strtol_scan_to_string [simp]: "strtol_scan (to_string x) = Some x"
  using strtol_scan_digits [of "nat_digits (nat x)" "[]"] strtol_scan_digits(2) [of "nat_digits (nat (- x))" "[]"]
  by (auto simp: to_string_def nat_digits_digits)

lemma stoi_to_string [res_simps]: "int_ok x \<Longrightarrow> stoi (to_string x) = Inr x"
  by (simp add: stoi_def)

lemma atoi_to_string [res_simps]: "int_ok x \<Longrightarrow> atoi (to_string x) = Inr x"
  by (simp add: atoi_def)

lemma to_string_inj: "to_string x = to_string y \<longleftrightarrow> x = y"
  by (metis option.inject strtol_scan_to_string)

lemma to_string_nonempty [simp]: "to_string x \<noteq> []"
  by (simp add: to_string_def)

end
