(* ===== verification/Sockets.thy ===== *)
theory Sockets
  imports PerfMain Decimal
begin

section \<open>Sockets: what the socket transports share\<close>

text \<open>
  The socket calls of the operating system are a parameter of the socket transports: a record of
  functions on a state \<open>'o\<close> that the transports cannot look into. \<open>bindServer\<close>, \<open>send\<close> and
  \<open>connectToServer\<close> have the same text in the epoll, select and kqueue servers on TCP and are modelled
  once here, over the fields those classes have in common.
\<close>

subsection \<open>The system calls\<close>

text \<open>
  A descriptor is an \<open>int\<close>, -1 for failure; \<open>os_recv\<close> gives \<open>None\<close> for -1 and otherwise the bytes,
  none at the end of the stream; \<open>os_send\<close> gives \<open>None\<close> when the call raises \<open>SIGPIPE\<close>, whose default
  action ends the process. The last three calls are those of the datagram transports: \<open>os_recvfrom\<close>
  gives the datagram and its sender, \<open>os_sendto\<close> gives -1 for a failure. Addresses and ports are in
  host byte order.
\<close>

type_synonym addr = "32 word \<times> 16 word"

record 'o sock_os =
  os_socket :: "'o \<Rightarrow> int \<times> 'o"
  os_nonblock :: "int \<Rightarrow> 'o \<Rightarrow> 'o"
  os_reuseaddr :: "int \<Rightarrow> 'o \<Rightarrow> 'o"
  os_bind :: "int \<Rightarrow> 32 word \<Rightarrow> 16 word \<Rightarrow> 'o \<Rightarrow> bool \<times> 'o"
  os_listen :: "int \<Rightarrow> int \<Rightarrow> 'o \<Rightarrow> bool \<times> 'o"
  os_connect :: "int \<Rightarrow> 32 word \<Rightarrow> 16 word \<Rightarrow> 'o \<Rightarrow> bool \<times> 'o"
  os_accept :: "int \<Rightarrow> 'o \<Rightarrow> int \<times> 'o"
  os_recv :: "int \<Rightarrow> nat \<Rightarrow> 'o \<Rightarrow> string option \<times> 'o"
  os_send :: "int \<Rightarrow> string \<Rightarrow> 'o \<Rightarrow> int option \<times> 'o"
  os_close :: "int \<Rightarrow> 'o \<Rightarrow> 'o"
  os_socket_dgram :: "'o \<Rightarrow> int \<times> 'o"
  os_recvfrom :: "int \<Rightarrow> nat \<Rightarrow> 'o \<Rightarrow> (string \<times> addr) option \<times> 'o"
  os_sendto :: "int \<Rightarrow> string \<Rightarrow> addr \<Rightarrow> 'o \<Rightarrow> int \<times> 'o"

text \<open>
  \<open>inet_pton(AF_INET, ...)\<close>: four decimal numbers up to 255 without leading zeros, separated by
  dots; anything else leaves the address as it was.
\<close>

fun split_dots :: "string \<Rightarrow> string list" where
  "split_dots [] = [[]]"
| "split_dots (c # s) =
     (if c = CHR ''.'' then [] # split_dots s
      else case split_dots s of [] \<Rightarrow> [[c]] | p # ps \<Rightarrow> (c # p) # ps)"

definition octet :: "string \<Rightarrow> nat option" where
  "octet s = (if s \<noteq> [] \<and> list_all is_digit s \<and> length s \<le> 3 \<and> (hd s = CHR ''0'' \<longrightarrow> length s = 1) \<and>
     digits_val s \<le> 255 then Some (digits_val s) else None)"

definition inet_pton :: "string \<Rightarrow> 32 word option" where
  "inet_pton s = (case map octet (split_dots s) of
     [Some a, Some b, Some c, Some d] \<Rightarrow> Some (word_of_nat (((a * 256 + b) * 256 + c) * 256 + d))
   | _ \<Rightarrow> None)"

subsection \<open>The common part of the TCP servers\<close>

record 'o TcpMain =
  listener :: int
  dest :: int
  server :: "hid option"
  client :: "hid option"
  loopEnd :: bool
  os_state :: 'o

type_synonym ('o, 'z) tcp_world = "(int, ('o, 'z) TcpMain_scheme) world"

definition sys ::
  "('o \<Rightarrow> 'a \<times> 'o) \<Rightarrow> ('c, ('o, 'z) TcpMain_scheme, 'y) world_scheme \<Rightarrow> 'a \<times> ('c, ('o, 'z) TcpMain_scheme, 'y) world_scheme"
where
  "sys f w = (let (r, s) = f (os_state (main_obj w)) in (r, w\<lparr>main_obj := (main_obj w)\<lparr>os_state := s\<rparr>\<rparr>))"

definition sys_do ::
  "('o \<Rightarrow> 'o) \<Rightarrow> ('c, ('o, 'z) TcpMain_scheme, 'y) world_scheme \<Rightarrow> ('c, ('o, 'z) TcpMain_scheme, 'y) world_scheme"
where
  "sys_do f w = w\<lparr>main_obj := (main_obj w)\<lparr>os_state := f (os_state (main_obj w))\<rparr>\<rparr>"

definition tcp_initialize :: "('c, ('o, 'z) TcpMain_scheme) world \<Rightarrow> ('c, ('o, 'z) TcpMain_scheme) world" where
  "tcp_initialize w = w\<lparr>main_obj := (main_obj w)\<lparr>loopEnd := False, listener := -1, dest := -1\<rparr>\<rparr>"

definition tcp_cancelLoop :: "('c, ('o, 'z) TcpMain_scheme) world \<Rightarrow> ('c, ('o, 'z) TcpMain_scheme) world" where
  "tcp_cancelLoop w = w\<lparr>main_obj := (main_obj w)\<lparr>loopEnd := True\<rparr>\<rparr>"

text \<open>\<open>htons(atoi(port))\<close>: the conversion to the 16 bits of \<open>sin_port\<close> drops the upper bits.\<close>

definition sin_port :: "string \<Rightarrow> 16 word result" where
  "sin_port port = rbind (atoi port) (\<lambda>n. Inr (word_of_int n))"

definition tcp_bindServer ::
  "('o, 'y) sock_os_scheme \<Rightarrow> string \<Rightarrow> hid \<Rightarrow> ('o, 'z) tcp_world \<Rightarrow> ('o, 'z) tcp_world result"
where
  "tcp_bindServer os port h w =
     rbind (sin_port port) (\<lambda>p.
     let (l, w) = sys (os_socket os) w;
         w = w\<lparr>main_obj := (main_obj w)\<lparr>listener := l, server := Some h\<rparr>\<rparr>;
         w = setParent h w;
         w = sys_do (os_nonblock os l) w;
         w = sys_do (os_reuseaddr os l) w;
         (bound, w) = sys (os_bind os l 0 p) w
     in if \<not> bound then Inr w
        else let (_, w) = sys (os_listen os l 16) w in Inr w)"

definition tcp_send ::
  "('o, 'y) sock_os_scheme \<Rightarrow> hid option \<Rightarrow> char list \<Rightarrow> int \<Rightarrow> bool \<Rightarrow> ('o, 'z) tcp_world \<Rightarrow>
   ('o, 'z) tcp_world result"
where
  "tcp_send os p data len isDataEnd w =
     (case p of
        None \<Rightarrow> Inr w
      | Some h \<Rightarrow>
          if 0 \<le> len \<and> nat len \<le> length data
          then let (r, w) = sys (os_send os (getContext h w) (take (nat len) data)) w
               in case r of None \<Rightarrow> Inl (Signal ''SIGPIPE'') | Some _ \<Rightarrow> Inr w
          else Inl (Undef ''send reads out of bounds''))"

definition tcp_parent :: "('o, 'y) sock_os_scheme \<Rightarrow> ('o, 'z) tcp_world parent_ops" where
  "tcp_parent os = \<lparr>em_send = tcp_send os, em_cancelLoop = tcp_cancelLoop\<rparr>"

definition tcp_connectToServer ::
  "('o, 'y) sock_os_scheme \<Rightarrow> string \<Rightarrow> string \<Rightarrow> hid \<Rightarrow> ('o, 'z) tcp_world \<Rightarrow> ('o, 'z) tcp_world result"
where
  "tcp_connectToServer os address port h w =
     rbind (sin_port port) (\<lambda>p.
     let a = (case inet_pton address of None \<Rightarrow> 0 | Some a \<Rightarrow> a);
         (d, w) = sys (os_socket os) w;
         w = w\<lparr>main_obj := (main_obj w)\<lparr>dest := d, client := Some h\<rparr>\<rparr>;
         (connected, w) = sys (os_connect os d a p) w
     in if \<not> connected then Inl (Exit 1 ''connect'')
        else let w = setParent h w;
                 w = setContext h d w;
                 w = sys_do (os_nonblock os d) w
             in handler_enable (tcp_parent os) h w)"

lemma app_of_sys [frame_simps]: "app_of (snd (sys f w)) = app_of w" "app_of (sys_do g w) = app_of w"
  by (simp_all add: sys_def sys_do_def app_of_def split: prod.splits)

lemma sin_port_to_string: "int_ok n \<Longrightarrow> sin_port (to_string n) = Inr (word_of_int n)"
  by (simp add: sin_port_def res_simps)

text \<open>The default port and address.\<close>

lemma default_port [res_simps]: "sin_port ''8000'' = Inr 8000"
  by (simp add: sin_port_def atoi_def strtol_scan_def is_space_def is_digit_def digits_val_def digit_val_def
      int_ok_def INT_MAX_def)

lemma default_address [res_simps]: "inet_pton ''127.0.0.1'' = Some 0x7F000001"
  by (simp add: inet_pton_def octet_def is_digit_def digits_val_def digit_val_def)

end
