(* ===== verification/Loopback.thy ===== *)
theory Loopback
  imports Sockets
begin

section \<open>A kernel: the network of one machine\<close>

text \<open>
  An executable operating system for the socket transports: descriptors (the lowest free number is
  given out, up to a limit of 1024), listening sockets with their queue of connections, connected
  endpoints with the bytes that wait in them, datagram sockets with the datagrams that wait in them
  (port 0 is an unbound socket, which gets an ephemeral port at its first send), and epoll and
  kqueue instances with their interest lists. Sends arrive at once and whole, and a process that
  waits for input which nobody is left to send waits for ever. Data sockets are used in non-blocking
  mode, as the transports use them.
\<close>

datatype tcp_file =
    TcpNew
  | TcpBound "16 word"
  | TcpListen "16 word" nat "nat list"
  | TcpConn nat
  | UdpSock "16 word" "(string \<times> addr) list"
  | EpollFile "(int \<times> nat) list"
  | KqueueFile "(int \<times> hid option) list"

record kernel =
  files :: "int \<Rightarrow> tcp_file option"
  ports :: "16 word \<Rightarrow> int option"
  inbox :: "nat \<Rightarrow> string"
  opened :: "nat \<Rightarrow> bool"
  endpoints :: nat
  uports :: "16 word \<Rightarrow> int option"
  ephemeral :: "16 word"
  groups :: "32 word \<Rightarrow> int list"

definition kernel_zero :: kernel where
  "kernel_zero = \<lparr>files = (\<lambda>_. None), ports = (\<lambda>_. None), inbox = (\<lambda>_. []), opened = (\<lambda>_. False),
     endpoints = 0, uports = (\<lambda>_. None), ephemeral = 49152, groups = (\<lambda>_. [])\<rparr>"

function free_fd :: "(int \<Rightarrow> tcp_file option) \<Rightarrow> int \<Rightarrow> int" where
  "free_fd fs n = (if 1024 \<le> n then -1 else if fs n = None then n else free_fd fs (n + 1))"
  by pat_completeness auto
termination by (relation "measure (\<lambda>(fs, n). nat (1024 - n))") auto

declare free_fd.simps [simp del]

definition k_open :: "tcp_file \<Rightarrow> kernel \<Rightarrow> int \<times> kernel" where
  "k_open f k = (let fd = free_fd (files k) 3
     in if fd = -1 then (-1, k) else (fd, k\<lparr>files := (files k)(fd \<mapsto> f)\<rparr>))"

fun other_end :: "nat \<Rightarrow> nat" where
  "other_end e = (if even e then e + 1 else e - 1)"

definition k_bind :: "int \<Rightarrow> 32 word \<Rightarrow> 16 word \<Rightarrow> kernel \<Rightarrow> bool \<times> kernel" where
  "k_bind fd a p k =
     (case files k fd of
        Some TcpNew \<Rightarrow>
          if ports k p = None
          then (True, k\<lparr>files := (files k)(fd \<mapsto> TcpBound p), ports := (ports k)(p \<mapsto> fd)\<rparr>)
          else (False, k)
      | Some (UdpSock q ds) \<Rightarrow>
          if q = 0 \<and> uports k p = None
          then (True, k\<lparr>files := (files k)(fd \<mapsto> UdpSock p ds), uports := (uports k)(p \<mapsto> fd)\<rparr>)
          else (False, k)
      | _ \<Rightarrow> (False, k))"

definition k_listen :: "int \<Rightarrow> int \<Rightarrow> kernel \<Rightarrow> bool \<times> kernel" where
  "k_listen fd n k = (case files k fd of
     Some (TcpBound p) \<Rightarrow> (True, k\<lparr>files := (files k)(fd \<mapsto> TcpListen p (nat n) [])\<rparr>)
   | _ \<Rightarrow> (False, k))"

definition k_connect :: "int \<Rightarrow> 32 word \<Rightarrow> 16 word \<Rightarrow> kernel \<Rightarrow> bool \<times> kernel" where
  "k_connect fd a p k =
     (case (files k fd, ports k p) of
        (Some TcpNew, Some l) \<Rightarrow>
          (case files k l of
             Some (TcpListen q n pending) \<Rightarrow>
               if (a = 0x7F000001 \<or> a = 0) \<and> length pending < n
               then let e = endpoints k
                    in (True, k\<lparr>files := (files k)(fd \<mapsto> TcpConn e, l \<mapsto> TcpListen q n (pending @ [e + 1])),
                         opened := (opened k)(e := True, e + 1 := True), endpoints := e + 2\<rparr>)
               else (False, k)
           | _ \<Rightarrow> (False, k))
      | _ \<Rightarrow> (False, k))"

definition k_accept :: "int \<Rightarrow> kernel \<Rightarrow> int \<times> kernel" where
  "k_accept fd k = (case files k fd of
     Some (TcpListen p n (e # es)) \<Rightarrow>
       (case k_open (TcpConn e) k of (afd, k') \<Rightarrow>
          if afd = -1 then (-1, k) else (afd, k'\<lparr>files := (files k')(fd \<mapsto> TcpListen p n es)\<rparr>))
   | _ \<Rightarrow> (-1, k))"

definition k_recv :: "int \<Rightarrow> nat \<Rightarrow> kernel \<Rightarrow> string option \<times> kernel" where
  "k_recv fd n k = (case files k fd of
     Some (TcpConn e) \<Rightarrow>
       if inbox k e \<noteq> [] then (Some (take n (inbox k e)), k\<lparr>inbox := (inbox k)(e := drop n (inbox k e))\<rparr>)
       else if opened k (other_end e) then (None, k) else (Some [], k)
   | _ \<Rightarrow> (None, k))"

definition k_send :: "int \<Rightarrow> string \<Rightarrow> kernel \<Rightarrow> int option \<times> kernel" where
  "k_send fd bs k = (case files k fd of
     Some (TcpConn e) \<Rightarrow>
       if opened k (other_end e)
       then (Some (int (length bs)), k\<lparr>inbox := (inbox k)(other_end e := inbox k (other_end e) @ bs)\<rparr>)
       else (None, k)
   | _ \<Rightarrow> (Some (-1), k))"

text \<open>
  Datagrams. The receivers of an address of this machine are the socket bound to the port; those of
  another address are the members of the group that are bound to the port. A datagram nobody
  receives is dropped. A socket that is not bound gets the next ephemeral port.
\<close>

definition local_addr :: "32 word \<Rightarrow> bool" where
  "local_addr a \<longleftrightarrow> a = 0x7F000001 \<or> a = 0"

fun udp_port :: "tcp_file option \<Rightarrow> 16 word" where
  "udp_port (Some (UdpSock p q)) = p"
| "udp_port _ = 0"

fun udp_push :: "string \<times> addr \<Rightarrow> tcp_file \<Rightarrow> tcp_file" where
  "udp_push d (UdpSock p q) = UdpSock p (q @ [d])"
| "udp_push d f = f"

definition k_receivers :: "kernel \<Rightarrow> addr \<Rightarrow> int list" where
  "k_receivers k = (\<lambda>(a, p).
     if local_addr a then (case uports k p of None \<Rightarrow> [] | Some i \<Rightarrow> [i])
     else filter (\<lambda>i. udp_port (files k i) = p) (groups k a))"

definition k_sendto :: "int \<Rightarrow> string \<Rightarrow> addr \<Rightarrow> kernel \<Rightarrow> int \<times> kernel" where
  "k_sendto fd bs to k =
     (case files k fd of
        Some (UdpSock p q) \<Rightarrow>
          if p = 0 \<and> uports k (ephemeral k) \<noteq> None then (-1, k)
          else let me = (if p = 0 then ephemeral k else p);
                   k = (if p = 0
                        then k\<lparr>files := (files k)(fd \<mapsto> UdpSock me q), uports := (uports k)(me \<mapsto> fd),
                               ephemeral := me + 1\<rparr>
                        else k)
               in (int (length bs),
                   k\<lparr>files := (\<lambda>i. if i \<in> set (k_receivers k to)
                                  then map_option (udp_push (bs, 0x7F000001, me)) (files k i) else files k i)\<rparr>)
      | _ \<Rightarrow> (-1, k))"

definition k_recvfrom :: "int \<Rightarrow> nat \<Rightarrow> kernel \<Rightarrow> (string \<times> addr) option \<times> kernel" where
  "k_recvfrom fd n k = (case files k fd of
     Some (UdpSock p ((bs, from) # q)) \<Rightarrow>
       (Some (take n bs, from), k\<lparr>files := (files k)(fd \<mapsto> UdpSock p q)\<rparr>)
   | _ \<Rightarrow> (None, k))"

definition k_join :: "int \<Rightarrow> 32 word \<Rightarrow> kernel \<Rightarrow> bool \<times> kernel" where
  "k_join fd a k = (case files k fd of
     Some (UdpSock p q) \<Rightarrow> (True, k\<lparr>groups := (groups k)(a := groups k a @ [fd])\<rparr>)
   | _ \<Rightarrow> (False, k))"

text \<open>Closing a descriptor also takes it off every interest list and out of every group.\<close>

definition forget_fd :: "int \<Rightarrow> tcp_file \<Rightarrow> tcp_file" where
  "forget_fd fd f = (case f of
     EpollFile l \<Rightarrow> EpollFile (filter (\<lambda>x. fst x \<noteq> fd) l)
   | KqueueFile l \<Rightarrow> KqueueFile (filter (\<lambda>x. fst x \<noteq> fd) l)
   | _ \<Rightarrow> f)"

definition k_close :: "int \<Rightarrow> kernel \<Rightarrow> kernel" where
  "k_close fd k =
     (let k = (case files k fd of
           Some (TcpBound p) \<Rightarrow> k\<lparr>ports := (ports k)(p := None)\<rparr>
         | Some (TcpListen p n es) \<Rightarrow> k\<lparr>ports := (ports k)(p := None), opened := (\<lambda>e. opened k e \<and> e \<notin> set es)\<rparr>
         | Some (TcpConn e) \<Rightarrow> k\<lparr>opened := (opened k)(e := False)\<rparr>
         | Some (UdpSock p q) \<Rightarrow> k\<lparr>uports := (\<lambda>i. if uports k i = Some fd then None else uports k i),
                                      groups := (\<lambda>a. filter (\<lambda>i. i \<noteq> fd) (groups k a))\<rparr>
         | _ \<Rightarrow> k)
      in k\<lparr>files := (\<lambda>i. if i = fd then None else map_option (forget_fd fd) (files k i))\<rparr>)"

definition k_readable :: "kernel \<Rightarrow> int \<Rightarrow> bool" where
  "k_readable k fd = (case files k fd of
     Some (TcpListen p n es) \<Rightarrow> es \<noteq> []
   | Some (TcpConn e) \<Rightarrow> inbox k e \<noteq> [] \<or> \<not> opened k (other_end e)
   | Some (UdpSock p q) \<Rightarrow> q \<noteq> []
   | _ \<Rightarrow> False)"

definition loopback :: "kernel sock_os" where
  "loopback = \<lparr>os_socket = k_open TcpNew, os_nonblock = (\<lambda>fd k. k), os_reuseaddr = (\<lambda>fd k. k),
     os_bind = k_bind, os_listen = k_listen, os_connect = k_connect, os_accept = k_accept,
     os_recv = k_recv, os_send = k_send, os_close = k_close,
     os_socket_dgram = k_open (UdpSock 0 []), os_recvfrom = k_recvfrom, os_sendto = k_sendto\<rparr>"

subsection \<open>The state in which the two handlers are connected\<close>

text \<open>
  \<open>linked k c s\<close>: descriptors \<open>c\<close> and \<open>s\<close> are the two open ends of one connection. A send on either
  of them is what the next receive on the other one returns.
\<close>

definition linked :: "kernel \<Rightarrow> int \<Rightarrow> int \<Rightarrow> bool" where
  "linked k c s \<longleftrightarrow> (\<exists>e. files k c = Some (TcpConn e) \<and> files k s = Some (TcpConn (other_end e)) \<and>
     opened k e \<and> opened k (other_end e))"

definition waiting :: "kernel \<Rightarrow> int \<Rightarrow> string" where
  "waiting k fd = (case files k fd of Some (TcpConn e) \<Rightarrow> inbox k e | _ \<Rightarrow> [])"

lemma other_end_simps [simp]: "other_end (other_end e) = e" "other_end e \<noteq> e" "e \<noteq> other_end e"
  by (cases e; auto)+

declare other_end.simps [simp del]

lemma linked_sym: "linked k c s \<longleftrightarrow> linked k s c"
  unfolding linked_def by (metis other_end_simps(1))

lemma linked_distinct: "linked k c s \<Longrightarrow> c \<noteq> s"
  by (auto simp: linked_def)

lemma k_send_linked:
  assumes "linked k c s"
  obtains k' where "k_send c bs k = (Some (int (length bs)), k')" "linked k' c s" "waiting k' s = waiting k s @ bs"
    "waiting k' c = waiting k c" "files k' = files k" "ports k' = ports k"
  using assms that by (auto simp: linked_def k_send_def waiting_def)

lemma k_recv_linked:
  assumes "linked k c s" and "waiting k c = bs" and "bs \<noteq> []" and "length bs \<le> n"
  obtains k' where "k_recv c n k = (Some bs, k')" "linked k' c s" "waiting k' c = []"
    "waiting k' s = waiting k s" "files k' = files k" "ports k' = ports k"
  using assms that by (auto simp: linked_def k_recv_def waiting_def)

text \<open>What \<open>send\<close> of a TCP transport does to a connection.\<close>

lemma tcp_send_linked:
  assumes "os_send os = k_send" and "getContext h w = c" and "linked (os_state (main_obj w)) c d"
  shows "\<exists>k'. tcp_send os (Some h) m (int (length m)) True w = Inr (w\<lparr>main_obj := (main_obj w)\<lparr>os_state := k'\<rparr>\<rparr>) \<and>
    linked k' c d \<and> waiting k' d = waiting (os_state (main_obj w)) d @ m \<and>
    waiting k' c = waiting (os_state (main_obj w)) c \<and> files k' = files (os_state (main_obj w))"
proof -
  from k_send_linked [OF assms(3), of m] obtain k' where
    "k_send c m (os_state (main_obj w)) = (Some (int (length m)), k')" "linked k' c d"
    "waiting k' d = waiting (os_state (main_obj w)) d @ m" "waiting k' c = waiting (os_state (main_obj w)) c"
    "files k' = files (os_state (main_obj w))" by blast
  then show ?thesis using assms(1,2) by (intro exI [of _ k']) (simp add: tcp_send_def sys_def)
qed

lemma k_readable_linked: "linked k c s \<Longrightarrow> k_readable k c \<longleftrightarrow> waiting k c \<noteq> []"
  by (auto simp: linked_def k_readable_def waiting_def)

text \<open>
  \<open>dgram k fd p q\<close>: descriptor \<open>fd\<close> is a datagram socket bound to port \<open>p\<close> in whose queue the datagrams
  \<open>q\<close> wait.
\<close>

definition dgram :: "kernel \<Rightarrow> int \<Rightarrow> 16 word \<Rightarrow> (string \<times> addr) list \<Rightarrow> bool" where
  "dgram k fd p q \<longleftrightarrow> files k fd = Some (UdpSock p q) \<and> p \<noteq> 0 \<and> uports k p = Some fd"

lemma k_readable_dgram: "dgram k fd p q \<Longrightarrow> k_readable k fd \<longleftrightarrow> q \<noteq> []"
  by (simp add: dgram_def k_readable_def)

lemma k_sendto_dgram:
  assumes "dgram k c pc qc" and "dgram k s ps qs" and "c \<noteq> s"
  obtains k' where "k_sendto c bs (0x7F000001, ps) k = (int (length bs), k')" "dgram k' c pc qc"
    "dgram k' s ps (qs @ [(bs, 0x7F000001, pc)])" "\<And>i. i \<noteq> s \<Longrightarrow> files k' i = files k i" "uports k' = uports k"
  using assms that by (auto simp: dgram_def k_sendto_def k_receivers_def local_addr_def Let_def)

lemma k_recvfrom_dgram:
  assumes "dgram k c p ((bs, from) # q)" and "length bs \<le> n"
  obtains k' where "k_recvfrom c n k = (Some (bs, from), k')" "dgram k' c p q"
    "\<And>i. i \<noteq> c \<Longrightarrow> files k' i = files k i" "uports k' = uports k"
  using assms that by (auto simp: dgram_def k_recvfrom_def)

lemma dgram_other: "dgram k fd p q \<Longrightarrow> files k' fd = files k fd \<Longrightarrow> uports k' = uports k \<Longrightarrow> dgram k' fd p q"
  by (simp add: dgram_def)

text \<open>Sending and receiving change datagram sockets only.\<close>

definition dgram_change :: "tcp_file option \<Rightarrow> tcp_file option \<Rightarrow> bool" where
  "dgram_change f g \<longleftrightarrow> f = g \<or> (\<exists>p q p' q'. f = Some (UdpSock p q) \<and> g = Some (UdpSock p' q'))"

lemma k_recvfrom_files: "k_recvfrom sock n k = (r, k') \<Longrightarrow> dgram_change (files k i) (files k' i)"
  by (auto simp: k_recvfrom_def dgram_change_def split: option.splits tcp_file.splits list.splits if_splits)

lemma k_sendto_files:
  assumes "k_sendto sock bs a k = (m, k')"
  shows "dgram_change (files k i) (files k' i)"
proof (cases "\<exists>p q. files k sock = Some (UdpSock p q)")
  case True
  then obtain p q where "files k sock = Some (UdpSock p q)" by blast
  then show ?thesis using assms
    by (cases "files k i"; cases "the (files k i)") (auto simp: k_sendto_def dgram_change_def Let_def split: if_splits)
qed (use assms in \<open>auto simp: k_sendto_def dgram_change_def split: option.splits tcp_file.splits\<close>)

lemma free_fd_free: "free_fd fs n \<noteq> -1 \<Longrightarrow> fs (free_fd fs n) = None"
  by (induction fs n rule: free_fd.induct) (metis free_fd.simps)

lemmas kernel_ops = k_open_def free_fd.simps k_bind_def k_listen_def k_connect_def k_accept_def k_send_def
  other_end.simps kernel_zero_def

end
