(* ===== verification/EpollMain.thy ===== *)
theory EpollMain
  imports Loopback
begin

section \<open>The epoll transport (epollserver.cpp)\<close>

text \<open>
  \<open>EpollMain\<close> registers each descriptor with a \<open>MyEventData\<close> allocated by \<open>new\<close>, whose address the
  kernel hands back with the event. The heap of these objects is explicit: \<open>delete\<close> frees one, and
  an access to a freed one is undefined behaviour. Addresses are not reused in the model, so an
  access after \<open>delete\<close> is always noticed.
\<close>

record MyEventData =
  fd :: int
  pHandler :: "hid option"

record 'o EpollMain = "'o TcpMain" +
  heap :: "nat \<Rightarrow> MyEventData option"
  brk :: nat

record epoll_event =
  ev_err :: bool
  ev_hup :: bool
  ev_in :: bool
  ev_ptr :: nat

text \<open>
  The epoll calls: \<open>epoll_wait\<close> gives \<open>None\<close> when it never returns, and otherwise the events that it
  stores; the list is empty when it returns -1 (the loop of \<open>process\<close> then runs zero times).
\<close>

record 'o epoll_os = "'o sock_os" +
  os_epoll_create1 :: "'o \<Rightarrow> int \<times> 'o"
  os_epoll_ctl_add :: "int \<Rightarrow> int \<Rightarrow> nat \<Rightarrow> 'o \<Rightarrow> bool \<times> 'o"
  os_epoll_wait :: "int \<Rightarrow> nat \<Rightarrow> 'o \<Rightarrow> epoll_event list option \<times> 'o"

type_synonym 'o epoll_world = "(int, 'o EpollMain) world"
type_synonym ('c, 'o, 'z) event_world = "('c, ('o, 'z) EpollMain_scheme) world"

definition MAXEVENTS :: nat where "MAXEVENTS = 64"

definition epoll_zero :: "'o \<Rightarrow> 'o EpollMain" where
  "epoll_zero s = \<lparr>listener = 0, dest = 0, server = None, client = None, loopEnd = False, os_state = s,
     heap = (\<lambda>_. None), brk = 0\<rparr>"

definition epoll_new :: "MyEventData \<Rightarrow> ('c, 'o, 'z) event_world \<Rightarrow> nat \<times> ('c, 'o, 'z) event_world" where
  "epoll_new d w = (brk (main_obj w),
     w\<lparr>main_obj := (main_obj w)\<lparr>heap := (heap (main_obj w))(brk (main_obj w) \<mapsto> d), brk := Suc (brk (main_obj w))\<rparr>\<rparr>)"

definition epoll_deref :: "nat \<Rightarrow> ('c, 'o, 'z) event_world \<Rightarrow> MyEventData result" where
  "epoll_deref p w = (case heap (main_obj w) p of
     None \<Rightarrow> Inl (Undef ''use after free'') | Some d \<Rightarrow> Inr d)"

definition epoll_delete :: "nat \<Rightarrow> ('c, 'o, 'z) event_world \<Rightarrow> ('c, 'o, 'z) event_world result" where
  "epoll_delete p w = (case heap (main_obj w) p of
     None \<Rightarrow> Inl (Undef ''double free'')
   | Some _ \<Rightarrow> Inr (w\<lparr>main_obj := (main_obj w)\<lparr>heap := (heap (main_obj w))(p := None)\<rparr>\<rparr>))"

text \<open>\<open>new MyEventData(data)\<close> and \<open>epoll_ctl(efd, EPOLL_CTL_ADD, ...)\<close> with it.\<close>

definition epoll_register ::
  "('o, 'y) epoll_os_scheme \<Rightarrow> int \<Rightarrow> int \<Rightarrow> hid option \<Rightarrow> ('c, 'o, 'z) event_world \<Rightarrow> bool \<times> ('c, 'o, 'z) event_world"
where
  "epoll_register os efd sock h w =
     (let (p, w) = epoll_new \<lparr>fd = sock, pHandler = h\<rparr> w in sys (os_epoll_ctl_add os efd sock p) w)"

definition epoll_close_delete :: "('o, 'y) epoll_os_scheme \<Rightarrow> nat \<Rightarrow> ('c, 'o, 'z) event_world \<Rightarrow> ('c, 'o, 'z) event_world result" where
  "epoll_close_delete os p w =
     rbind (epoll_deref p w) (\<lambda>data. epoll_delete p (sys_do (os_close os (fd data)) w))"

text \<open>
  The body of the loop over the events, for one of them; the boolean says whether it left the loop
  by \<open>break\<close>. The buffer is a local array, so all of it but the received bytes is indeterminate.
\<close>

definition epoll_event_body ::
  "('o, 'y) epoll_os_scheme \<Rightarrow> int \<Rightarrow> epoll_event \<Rightarrow> 'o epoll_world \<Rightarrow> (bool \<times> 'o epoll_world) result"
where
  "epoll_event_body os efd ev w =
     (if ev_err ev \<or> ev_hup ev \<or> \<not> ev_in ev
      then rbind (epoll_close_delete os (ev_ptr ev) w) (\<lambda>w. Inr (False, w))
      else rbind (epoll_deref (ev_ptr ev) w) (\<lambda>data.
        if listener (main_obj w) = fd data
        then let (acceptfd, w) = sys (os_accept os (listener (main_obj w))) w
             in if acceptfd = -1 then Inr (False, w)
                else let w = sys_do (os_nonblock os acceptfd) w;
                         (_, w) = epoll_register os efd acceptfd (server (main_obj w)) w
                     in Inr (False, w)
        else let (r, w) = sys (os_recv os (fd data) 1024) w
             in case r of
                  None \<Rightarrow> rbind (epoll_close_delete os (ev_ptr ev) w) (\<lambda>w. Inr (False, w))
                | Some bs \<Rightarrow>
                    if bs = [] then rbind (epoll_close_delete os (ev_ptr ev) w) (\<lambda>w. Inr (True, w))
                    else (case pHandler data of
                            None \<Rightarrow> Inr (False, w)
                          | Some h \<Rightarrow>
                              rbind (handler_process (tcp_parent os) h (recv_into (replicate 1024 None) bs)
                                       (int (length bs)) True (setContext h (fd data) w))
                                (\<lambda>w. Inr (False, w)))))"

fun epoll_events ::
  "('o, 'y) epoll_os_scheme \<Rightarrow> int \<Rightarrow> epoll_event list \<Rightarrow> 'o epoll_world \<Rightarrow> 'o epoll_world result"
where
  "epoll_events os efd [] w = Inr w"
| "epoll_events os efd (ev # evs) w =
     rbind (epoll_event_body os efd ev w) (\<lambda>(left_loop, w). if left_loop then Inr w else epoll_events os efd evs w)"

definition epoll_iter :: "('o, 'y) epoll_os_scheme \<Rightarrow> int \<Rightarrow> 'o epoll_world \<Rightarrow> 'o epoll_world result" where
  "epoll_iter os efd w =
     (let (evs, w) = sys (os_epoll_wait os efd MAXEVENTS) w
      in case evs of None \<Rightarrow> Inl (Blocked ''epoll_wait'') | Some evs \<Rightarrow> epoll_events os efd evs w)"

definition epoll_ended :: "'o epoll_world \<Rightarrow> bool" where
  "epoll_ended w \<longleftrightarrow> loopEnd (main_obj w)"

text \<open>The registrations in front of the loop.\<close>

definition epoll_add_or_exit ::
  "('o, 'y) epoll_os_scheme \<Rightarrow> int \<Rightarrow> int \<Rightarrow> hid option \<Rightarrow> ('c, 'o, 'z) event_world \<Rightarrow> ('c, 'o, 'z) event_world result"
where
  "epoll_add_or_exit os efd sock h w =
     (if sock \<noteq> -1
      then case epoll_register os efd sock h w of (ok, w) \<Rightarrow> if ok then Inr w else Inl (Exit 1 ''epoll_ctl'')
      else Inr w)"

definition epoll_prepare :: "('o, 'y) epoll_os_scheme \<Rightarrow> 'o epoll_world \<Rightarrow> (int \<times> 'o epoll_world) result" where
  "epoll_prepare os w =
     (let (efd, w) = sys (os_epoll_create1 os) w
      in if efd = -1 then Inl (Exit 1 ''epoll_create'')
         else rbind (epoll_add_or_exit os efd (listener (main_obj w)) None w) (\<lambda>w.
              rbind (epoll_add_or_exit os efd (dest (main_obj w)) (client (main_obj w)) w) (\<lambda>w.
              Inr (efd, w))))"

definition epoll_process :: "('o, 'y) epoll_os_scheme \<Rightarrow> nat \<Rightarrow> 'o epoll_world \<Rightarrow> 'o epoll_world result" where
  "epoll_process os fuel w =
     rbind (epoll_prepare os w) (\<lambda>(efd, w).
     rbind (run_loop epoll_ended (epoll_iter os efd) fuel w) (\<lambda>w.
     Inr (sys_do (os_close os (listener (main_obj w))) w)))"

definition epoll_initialize :: "'o epoll_world \<Rightarrow> 'o epoll_world" where
  "epoll_initialize w = tcp_initialize w"

definition epoll_cancelLoop :: "'o epoll_world \<Rightarrow> 'o epoll_world" where
  "epoll_cancelLoop w = tcp_cancelLoop w"

definition epoll_bindServer :: "('o, 'y) epoll_os_scheme \<Rightarrow> string \<Rightarrow> hid \<Rightarrow> 'o epoll_world \<Rightarrow> 'o epoll_world result" where
  "epoll_bindServer os port h w = tcp_bindServer os port h w"

definition epoll_send ::
  "('o, 'y) epoll_os_scheme \<Rightarrow> hid option \<Rightarrow> char list \<Rightarrow> int \<Rightarrow> bool \<Rightarrow> 'o epoll_world \<Rightarrow> 'o epoll_world result"
where
  "epoll_send os p data len isDataEnd w = tcp_send os p data len isDataEnd w"

definition epoll_connectToServer ::
  "('o, 'y) epoll_os_scheme \<Rightarrow> string \<Rightarrow> string \<Rightarrow> hid \<Rightarrow> 'o epoll_world \<Rightarrow> 'o epoll_world result"
where
  "epoll_connectToServer os address port h w = tcp_connectToServer os address port h w"

definition epoll_main :: "('o, 'y) epoll_os_scheme \<Rightarrow> 'o epoll_world EventMain" where
  "epoll_main os = \<lparr>em_send = epoll_send os, em_cancelLoop = epoll_cancelLoop, em_initialize = epoll_initialize,
     em_bindServer = epoll_bindServer os, em_connectToServer = epoll_connectToServer os,
     em_process = epoll_process os\<rparr>"

subsection \<open>The heap of event data\<close>

text \<open>
  What the transport relies on of epoll, as its manual page documents it: a descriptor is on an
  interest list at most once and with the pointer it was added with, closing it takes it off, and
  \<open>epoll_wait\<close> reports each entry of the list at most once. \<open>interest\<close> reads the list off the state.
\<close>

locale epoll_kernel =
  fixes os :: "('o, 'y) epoll_os_scheme"
    and interest :: "int \<Rightarrow> 'o \<Rightarrow> (int \<times> nat) set"
  assumes create_empty: "os_epoll_create1 os s = (efd, s') \<Longrightarrow> efd \<noteq> -1 \<Longrightarrow> interest efd s' = {}"
    and ctl_add: "os_epoll_ctl_add os efd sock p s = (ok, s') \<Longrightarrow>
      interest efd s' = (if ok then insert (sock, p) (interest efd s) else interest efd s)"
    and close_removes: "interest efd (os_close os sock s) \<subseteq> {x \<in> interest efd s. fst x \<noteq> sock}"
    and wait_reports: "os_epoll_wait os efd n s = (evs, s') \<Longrightarrow>
      interest efd s' = interest efd s \<and>
      (\<forall>l. evs = Some l \<longrightarrow> (\<exists>xs. distinct xs \<and> set xs \<subseteq> interest efd s \<and> map ev_ptr l = map snd xs))"
    and accept_keeps: "os_accept os sock s = (r, s') \<Longrightarrow> interest efd s' = interest efd s"
    and recv_keeps: "os_recv os sock n s = (bs, s') \<Longrightarrow> interest efd s' = interest efd s"
    and send_keeps: "os_send os sock ds s = (m, s') \<Longrightarrow> interest efd s' = interest efd s"
    and nonblock_keeps: "interest efd (os_nonblock os sock s) = interest efd s"
begin

text \<open>
  The invariant inside a round of events, with the pointers still to be handled: every pointer on
  the interest list and every pointer still to be handled is allocated, and an allocated object
  carries the descriptor it is registered for.
\<close>

definition heap_ok :: "int \<Rightarrow> nat list \<Rightarrow> ('c, 'o, 'z) event_world \<Rightarrow> bool" where
  "heap_ok efd pend w \<longleftrightarrow>
     (\<forall>(f, p) \<in> interest efd (os_state (main_obj w)). \<exists>d. heap (main_obj w) p = Some d \<and> fd d = f) \<and>
     (\<forall>p. heap (main_obj w) p \<noteq> None \<longrightarrow> p < brk (main_obj w)) \<and>
     (\<forall>p \<in> set pend. heap (main_obj w) p \<noteq> None) \<and> distinct pend"

definition epoll_failures :: "failure set" where
  "epoll_failures = handler_failures \<union> {Signal ''SIGPIPE'', Undef ''send reads out of bounds'',
     Exit 1 ''epoll_create'', Exit 1 ''epoll_ctl'', Exit 1 ''connect'', Undef ''atoi out of range'',
     Blocked ''epoll_wait'', OutOfFuel}"

lemma epoll_failures_mem [simp]:
  "Exit 1 ''epoll_create'' \<in> epoll_failures" "Exit 1 ''epoll_ctl'' \<in> epoll_failures"
  "Exit 1 ''connect'' \<in> epoll_failures" "OutOfFuel \<in> epoll_failures" "Blocked ''epoll_wait'' \<in> epoll_failures"
  by (simp_all add: epoll_failures_def)

lemma heap_ok_net: "net_of w = net_of w' \<Longrightarrow> heap_ok efd pend w \<Longrightarrow> heap_ok efd pend w'"
  by (simp add: heap_ok_def net_of_def)

lemma heap_ok_less: "heap_ok efd (p # pend) w \<Longrightarrow> heap_ok efd pend w" "heap_ok efd pend w \<Longrightarrow> heap_ok efd [] w"
  by (simp_all add: heap_ok_def)

lemma heap_ok_os:
  assumes "heap_ok efd pend w" and "interest efd s' \<subseteq> interest efd (os_state (main_obj w))"
  shows "heap_ok efd pend (w\<lparr>main_obj := (main_obj w)\<lparr>os_state := s'\<rparr>\<rparr>)"
  using assms by (auto simp: heap_ok_def)

lemma heap_ok_sys:
  assumes "heap_ok efd pend w" and "sys f w = (r, w')"
    and "\<And>s x s'. f s = (x, s') \<Longrightarrow> interest efd s' \<subseteq> interest efd s"
  shows "heap_ok efd pend w'"
proof -
  obtain s' where "f (os_state (main_obj w)) = (r, s')" "w' = w\<lparr>main_obj := (main_obj w)\<lparr>os_state := s'\<rparr>\<rparr>"
    using assms(2) by (auto simp: sys_def split: prod.splits)
  then show ?thesis using heap_ok_os [OF assms(1)] assms(3) by simp
qed

lemma heap_ok_sys_do:
  assumes "heap_ok efd pend w" and "\<And>s. interest efd (g s) \<subseteq> interest efd s"
  shows "heap_ok efd pend (sys_do g w)"
  using heap_ok_os [OF assms] by (simp add: sys_do_def)

lemma heap_ok_setContext: "heap_ok efd pend (setContext h c w) = heap_ok efd pend w"
  by (simp add: heap_ok_def)

lemma heap_ok_send: "transport_keeps h (tcp_parent os) epoll_failures (heap_ok efd pend)"
  unfolding transport_keeps_def
proof (intro conjI allI impI, goal_cases)
  case 1
  then show ?case by (auto simp: epoll_failures_def)
next
  case (2 w w')
  then show ?case by (rule heap_ok_net)
next
  case (3 d n e w)
  then show ?case
    using heap_ok_sys [OF 3] send_keeps
    by (fastforce simp: tcp_parent_def tcp_send_def epoll_failures_def split: option.splits prod.splits)
next
  case (4 w)
  then show ?case by (simp add: tcp_parent_def tcp_cancelLoop_def heap_ok_def)
qed

lemma heap_ok_register:
  assumes ok: "heap_ok efd pend w" and reg: "epoll_register os efd sock h w = (r, w')"
  shows "heap_ok efd pend w'"
proof -
  let ?s = "os_state (main_obj w)" and ?p = "brk (main_obj w)"
  obtain s' where add: "os_epoll_ctl_add os efd sock ?p ?s = (r, s')"
    and w': "w' = w\<lparr>main_obj := (main_obj w)\<lparr>heap := (heap (main_obj w))(?p \<mapsto> \<lparr>fd = sock, pHandler = h\<rparr>),
      brk := Suc ?p, os_state := s'\<rparr>\<rparr>"
    using reg by (auto simp: epoll_register_def epoll_new_def sys_def split: prod.splits)
  have "p \<noteq> ?p" if "(f, p) \<in> interest efd ?s" for f p
    using ok that by (fastforce simp: heap_ok_def)
  then show ?thesis
    using ok by (fastforce simp: w' heap_ok_def ctl_add [OF add] less_Suc_eq split: if_splits)
qed

lemma heap_ok_close_delete:
  assumes ok: "heap_ok efd (p # pend) w"
  shows "post epoll_failures (heap_ok efd pend) (epoll_close_delete os p w)"
proof -
  obtain d where d: "heap (main_obj w) p = Some d" using ok by (auto simp: heap_ok_def)
  let ?s = "os_state (main_obj w)" and ?w = "sys_do (os_close os (fd d)) w"
  have gone: "(f, p) \<notin> interest efd (os_close os (fd d) ?s)" for f
    using close_removes [of efd "fd d" ?s] ok d by (fastforce simp: heap_ok_def)
  have "heap_ok efd (p # pend) ?w"
    using ok close_removes by (intro heap_ok_sys_do) blast+
  then have "heap_ok efd pend (?w\<lparr>main_obj := (main_obj ?w)\<lparr>heap := (heap (main_obj ?w))(p := None)\<rparr>\<rparr>)"
    using gone by (fastforce simp: heap_ok_def sys_do_def)
  then show ?thesis using d
    by (simp add: epoll_close_delete_def epoll_deref_def epoll_delete_def sys_do_def)
qed

lemma heap_ok_event_body:
  assumes ok: "heap_ok efd (ev_ptr ev # pend) w"
  shows "post epoll_failures (\<lambda>(b, w). heap_ok efd pend w) (epoll_event_body os efd ev w)"
proof -
  obtain d where d: "heap (main_obj w) (ev_ptr ev) = Some d" using ok by (auto simp: heap_ok_def)
  have del: "post epoll_failures (\<lambda>(b, w). heap_ok efd pend w)
      (rbind (epoll_close_delete os (ev_ptr ev) v) (\<lambda>w. Inr (b, w)))"
    if "heap_ok efd (ev_ptr ev # pend) v" for v b
    by (rule post_bind [OF heap_ok_close_delete [OF that]]) simp
  have accept: "heap_ok efd pend v" if "sys (os_accept os l) w = (r, v)" for l r v
    using heap_ok_sys [OF heap_ok_less(1) [OF ok] that] accept_keeps by blast
  have add: "heap_ok efd pend v'" if "heap_ok efd pend v"
    "epoll_register os efd a (server (main_obj (sys_do (os_nonblock os a) v))) (sys_do (os_nonblock os a) v) = (r, v')"
    for a v v' r
    using heap_ok_register [OF heap_ok_sys_do [OF that(1)] that(2)] nonblock_keeps by blast
  have recv: "heap_ok efd (ev_ptr ev # pend) v" if "sys (os_recv os (fd d) 1024) w = (r, v)" for r v
    using heap_ok_sys [OF ok that] recv_keeps by blast
  have handle: "post epoll_failures (\<lambda>(b, w). heap_ok efd pend w)
      (rbind (handler_process (tcp_parent os) h buf n True (setContext h c v)) (\<lambda>w. Inr (False, w)))"
    if "heap_ok efd (ev_ptr ev # pend) v" for h buf n c v
    using heap_ok_less(1) [OF that]
    by (intro post_bind [OF post_handler_process [OF heap_ok_send]]) (auto simp: heap_ok_setContext)
  show ?thesis
    using ok d by (auto simp: epoll_event_body_def epoll_deref_def Let_def split: prod.splits option.splits
        intro!: del handle intro: accept add [OF accept] recv heap_ok_less(1) [OF recv])
qed

lemma heap_ok_events:
  "heap_ok efd (map ev_ptr evs) w \<Longrightarrow> post epoll_failures (heap_ok efd []) (epoll_events os efd evs w)"
proof (induction evs arbitrary: w)
  case (Cons ev evs)
  then have "post epoll_failures (\<lambda>(b, w). heap_ok efd (map ev_ptr evs) w) (epoll_event_body os efd ev w)"
    by (intro heap_ok_event_body) simp
  then show ?case
    using Cons.IH by (auto intro!: post_bind intro: heap_ok_less(2))
qed simp

text \<open>What \<open>epoll_wait\<close> reports: allocated objects, each once.\<close>

lemma heap_ok_wait:
  assumes ok: "heap_ok efd [] w" and e: "os_epoll_wait os efd n (os_state (main_obj w)) = (Some l, s')"
  shows "heap_ok efd (map ev_ptr l) (w\<lparr>main_obj := (main_obj w)\<lparr>os_state := s'\<rparr>\<rparr>)"
proof -
  have keep: "interest efd s' = interest efd (os_state (main_obj w))" using wait_reports [OF e] by blast
  obtain xs where xs: "distinct xs" "set xs \<subseteq> interest efd (os_state (main_obj w))" "map ev_ptr l = map snd xs"
    using wait_reports [OF e] by blast
  have alloc: "\<exists>d. heap (main_obj w) p = Some d \<and> fd d = f" if "(f, p) \<in> set xs" for f p
    using ok subsetD [OF xs(2) that] by (auto simp: heap_ok_def)
  have "inj_on snd (set xs)"
  proof (rule inj_onI)
    fix x y assume xy: "x \<in> set xs" "y \<in> set xs" and eq: "snd x = snd y"
    from xy have "\<exists>d. heap (main_obj w) (snd x) = Some d \<and> fd d = fst x"
      "\<exists>d. heap (main_obj w) (snd y) = Some d \<and> fd d = fst y" by (simp_all add: alloc)
    with eq show "x = y" by (auto simp: prod_eq_iff)
  qed
  then have rep: "distinct (map ev_ptr l)" using xs(1,3) by (simp add: distinct_map)
  have "\<forall>p \<in> set (map ev_ptr l). heap (main_obj w) p \<noteq> None" using xs(3) by (auto dest: alloc)
  then have "heap_ok efd (map ev_ptr l) w" using ok rep by (simp add: heap_ok_def)
  from heap_ok_os [OF this, of s'] show ?thesis using keep by simp
qed

lemma heap_ok_iter:
  assumes ok: "heap_ok efd [] w"
  shows "post epoll_failures (heap_ok efd []) (epoll_iter os efd w)"
proof -
  obtain evs s' where e: "os_epoll_wait os efd MAXEVENTS (os_state (main_obj w)) = (evs, s')" by fastforce
  show ?thesis
    using e heap_ok_events heap_ok_wait [OF ok, of MAXEVENTS _ s']
    by (cases evs) (auto simp: epoll_iter_def sys_def)
qed

text \<open>Before \<open>process\<close> nothing is allocated; the registrations in front of the loop establish the invariant.\<close>

definition heap_fresh :: "('c, 'o, 'z) event_world \<Rightarrow> bool" where
  "heap_fresh w \<longleftrightarrow> heap (main_obj w) = (\<lambda>_. None)"

lemma fresh_sys: "heap_fresh w \<Longrightarrow> sys f w = (r, w') \<Longrightarrow> heap_fresh w'"
  by (auto simp: heap_fresh_def sys_def split: prod.splits)

lemma fresh_frame:
  "heap_fresh (sys_do g w) = heap_fresh w" "heap_fresh (setParent h w) = heap_fresh w"
  "heap_fresh (setContext h c w) = heap_fresh w"
  by (simp_all add: heap_fresh_def sys_do_def)

lemma fresh_send: "transport_keeps h (tcp_parent os) epoll_failures heap_fresh"
  by (auto simp: transport_keeps_def tcp_parent_def tcp_send_def tcp_cancelLoop_def heap_fresh_def net_of_def
      sys_def epoll_failures_def Let_def split: option.splits prod.splits)

lemma post_sin_port: "post epoll_failures (\<lambda>_. True) (sin_port port)"
  by (auto simp: sin_port_def atoi_def epoll_failures_def split: option.splits)

lemma fresh_bindServer:
  assumes "heap_fresh w"
  shows "post epoll_failures heap_fresh (tcp_bindServer os port h w)"
  unfolding tcp_bindServer_def using assms
  by (intro post_bind [OF post_sin_port])
    (auto simp: heap_fresh_def sys_def sys_do_def Let_def split: prod.splits)

lemma fresh_connectToServer:
  assumes "heap_fresh w"
  shows "post epoll_failures heap_fresh (tcp_connectToServer os address port h w)"
proof -
  have en: "post epoll_failures heap_fresh (handler_enable (tcp_parent os) h v)" if "heap_fresh v" for v
    using post_EchoClient_sendData [OF fresh_send that] that
    by (cases h) (simp_all add: EchoClient_enable_def)
  have "heap_fresh (v\<lparr>main_obj := (main_obj v)\<lparr>dest := d, client := Some h\<rparr>\<rparr>)" if "heap_fresh v" for v d
    using that by (simp add: heap_fresh_def)
  with assms show ?thesis unfolding tcp_connectToServer_def
    by (intro post_bind [OF post_sin_port])
      (auto simp: Let_def fresh_frame split: prod.splits option.splits intro!: en
        dest!: fresh_sys [rotated])
qed

lemma heap_ok_add_or_exit:
  "heap_ok efd [] v \<Longrightarrow> post epoll_failures (heap_ok efd []) (epoll_add_or_exit os efd sock h v)"
  using heap_ok_register by (auto simp: epoll_add_or_exit_def split: prod.splits)

lemma heap_ok_created:
  assumes "heap_fresh w" and "os_epoll_create1 os (os_state (main_obj w)) = (efd, s')" and "efd \<noteq> -1"
  shows "heap_ok efd [] (w\<lparr>main_obj := (main_obj w)\<lparr>os_state := s'\<rparr>\<rparr>)"
  using assms create_empty by (simp add: heap_ok_def heap_fresh_def)

lemma heap_ok_prepare:
  assumes "heap_fresh w"
  shows "post epoll_failures (\<lambda>(efd, w). heap_ok efd [] w) (epoll_prepare os w)"
proof -
  obtain efd s' where c: "os_epoll_create1 os (os_state (main_obj w)) = (efd, s')" by fastforce
  then show ?thesis
    using heap_ok_created [OF assms c] unfolding epoll_prepare_def sys_def
    by (auto intro!: post_bind [OF heap_ok_add_or_exit])
qed

lemma heap_safe_process:
  assumes "heap_fresh w"
  shows "post epoll_failures (\<lambda>_. True) (epoll_process os fuel w)"
proof -
  have loop: "post epoll_failures (heap_ok efd []) (run_loop epoll_ended (epoll_iter os efd) fuel v)"
    if "heap_ok efd [] v" for efd v
    by (rule run_loop_post [OF heap_ok_iter that]) simp_all
  show ?thesis unfolding epoll_process_def
    by (auto intro!: post_bind [OF heap_ok_prepare [OF assms]] post_bind [OF loop])
qed

lemma heap_safe_main:
  "post (insert (Exit 1 usage) epoll_failures) (\<lambda>_. True) (perf_main (epoll_main os) 0 (epoll_zero s) ck fuel argv)"
  by (rule post_perf_main [where ?Q0.0 = heap_fresh and Q = heap_fresh])
    (simp_all add: epoll_main_def epoll_bindServer_def epoll_connectToServer_def fresh_bindServer
      fresh_connectToServer heap_safe_process heap_fresh_def epoll_initialize_def tcp_initialize_def
      start_world_def epoll_zero_def)

end

subsection \<open>The kernel's epoll\<close>

text \<open>An entry of an interest list; the first one of a descriptor counts.\<close>

definition k_epoll_ctl_add :: "int \<Rightarrow> int \<Rightarrow> nat \<Rightarrow> kernel \<Rightarrow> bool \<times> kernel" where
  "k_epoll_ctl_add efd sock p k =
     (case (files k efd, files k sock) of
        (Some (EpollFile l), Some f) \<Rightarrow>
          if sock = efd \<or> map_of l sock \<noteq> None then (False, k)
          else (True, k\<lparr>files := (files k)(efd \<mapsto> EpollFile (l @ [(sock, p)]))\<rparr>)
      | _ \<Rightarrow> (False, k))"

definition k_epoll_wait :: "int \<Rightarrow> nat \<Rightarrow> kernel \<Rightarrow> epoll_event list option \<times> kernel" where
  "k_epoll_wait efd n k =
     (case files k efd of
        Some (EpollFile l) \<Rightarrow>
          let ready = filter (k_readable k) (remdups (map fst l))
          in if ready = [] then (None, k)
             else (Some (map (\<lambda>f. \<lparr>ev_err = False, ev_hup = False, ev_in = True, ev_ptr = the (map_of l f)\<rparr>)
                     (take n ready)), k)
      | _ \<Rightarrow> (Some [], k))"

definition loopback_epoll :: "kernel epoll_os" where
  "loopback_epoll = \<lparr>os_socket = k_open TcpNew, os_nonblock = (\<lambda>fd k. k), os_reuseaddr = (\<lambda>fd k. k),
     os_bind = k_bind, os_listen = k_listen, os_connect = k_connect, os_accept = k_accept,
     os_recv = k_recv, os_send = k_send, os_close = k_close,
     os_socket_dgram = k_open (UdpSock 0 []), os_recvfrom = k_recvfrom, os_sendto = k_sendto,
     os_epoll_create1 = k_open (EpollFile []), os_epoll_ctl_add = k_epoll_ctl_add,
     os_epoll_wait = k_epoll_wait\<rparr>"

definition k_interest :: "int \<Rightarrow> kernel \<Rightarrow> (int \<times> nat) set" where
  "k_interest efd k = (case files k efd of
     Some (EpollFile l) \<Rightarrow> {(f, p). map_of l f = Some p} | _ \<Rightarrow> {})"

lemma map_of_forget: "map_of (filter (\<lambda>x. fst x \<noteq> f) l) g = (if g = f then None else map_of l g)"
  by (induction l) auto

lemma k_open_interest:
  "k_open f k = (r, k') \<Longrightarrow> (\<And>l. f \<noteq> EpollFile l) \<Longrightarrow> k_interest efd k' = k_interest efd k"
  using free_fd_free [of "files k" 3]
  by (cases f) (auto simp: k_open_def k_interest_def Let_def split: if_splits)

lemma k_accept_interest:
  assumes "k_accept l k = (r, k')"
  shows "k_interest efd k' = k_interest efd k"
proof (cases "\<exists>p n e es. files k l = Some (TcpListen p n (e # es))")
  case True
  then obtain p n e es where "files k l = Some (TcpListen p n (e # es))" by blast
  then show ?thesis using assms free_fd_free [of "files k" 3]
    by (auto simp: k_accept_def k_open_def k_interest_def Let_def split: if_splits)
next
  case False
  then have "k' = k" using assms by (auto simp: k_accept_def split: option.splits tcp_file.splits list.splits)
  then show ?thesis by simp
qed

lemma k_wait_reports:
  assumes "k_epoll_wait efd n k = (Some l, k')"
  shows "\<exists>xs. distinct xs \<and> set xs \<subseteq> k_interest efd k \<and> map ev_ptr l = map snd xs"
proof (cases "\<exists>il. files k efd = Some (EpollFile il)")
  case True
  then obtain il where il: "files k efd = Some (EpollFile il)" by blast
  let ?xs = "map (\<lambda>f. (f, the (map_of il f))) (take n (filter (k_readable k) (remdups (map fst il))))"
  have "distinct ?xs" by (auto simp: distinct_map inj_on_def)
  moreover have "set ?xs \<subseteq> k_interest efd k"
    by (auto simp: k_interest_def il dest!: in_set_takeD) (metis map_of_eq_None_iff option.collapse image_eqI fst_conv)
  moreover have "map ev_ptr l = map snd ?xs"
    using assms by (auto simp: k_epoll_wait_def il Let_def split: if_splits)
  ultimately show ?thesis by blast
qed (use assms in \<open>auto simp: k_epoll_wait_def split: option.splits tcp_file.splits\<close>)

interpretation loopback_epoll: epoll_kernel loopback_epoll k_interest
proof (unfold_locales, goal_cases)
  case (1 s efd s')
  then show ?case by (auto simp: loopback_epoll_def k_open_def k_interest_def Let_def split: if_splits)
next
  case (2 efd sock p s ok s')
  then show ?case
    by (auto simp: loopback_epoll_def k_epoll_ctl_add_def k_interest_def map_add_def
        split: option.splits tcp_file.splits if_splits)
next
  case (3 efd sock s)
  then show ?case
    by (auto simp: loopback_epoll_def k_close_def k_interest_def forget_fd_def Let_def map_of_forget
        split: option.splits tcp_file.splits if_splits)
next
  case (4 efd n s evs s')
  then have "s' = s"
    by (auto simp: loopback_epoll_def k_epoll_wait_def Let_def split: option.splits tcp_file.splits if_splits)
  with 4 show ?case using k_wait_reports by (auto simp: loopback_epoll_def)
next
  case (5 sock s r s' efd)
  then show ?case using k_accept_interest by (simp add: loopback_epoll_def)
qed (auto simp: loopback_epoll_def k_recv_def k_send_def k_interest_def
      split: option.splits tcp_file.splits if_splits)

text \<open>
  C4. For every operating system whose epoll behaves as documented, whatever its other answers
  (failing calls, spurious or erroneous events, streams cut into pieces, peers that go away) and for
  every command line: no run of the epoll program dereferences or deletes a \<open>MyEventData\<close> that was
  already deleted.
\<close>

theorem epoll_no_use_after_free:
  assumes "epoll_kernel os interest"
  shows "perf_main (epoll_main os) 0 (epoll_zero s) ck fuel argv
     \<notin> {Inl (Undef ''use after free''), Inl (Undef ''double free'')}"
  using epoll_kernel.heap_safe_main [OF assms, of s ck fuel argv]
  by (auto simp: post_def epoll_kernel.epoll_failures_def [OF assms] handler_failures_def usage_def)

theorem epoll_no_use_after_free_witness:
  "perf_main (epoll_main loopback_epoll) 0 (epoll_zero kernel_zero) still_clock 10 [''-s'']
     \<notin> {Inl (Undef ''use after free''), Inl (Undef ''double free'')}"
  by (rule epoll_no_use_after_free [OF loopback_epoll.epoll_kernel_axioms])

subsection \<open>The contract\<close>

text \<open>
  The state between two rounds of the loop, once the connection is accepted: the listener has
  nothing pending, the two ends of the connection are registered with the client and the server.
\<close>

definition epoll_entry :: "kernel epoll_world \<Rightarrow> int \<Rightarrow> nat \<Rightarrow> hid option \<Rightarrow> bool" where
  "epoll_entry w sock p h \<longleftrightarrow> heap (main_obj w) p = Some \<lparr>fd = sock, pHandler = h\<rparr>"

fun epoll_sock :: "hid \<Rightarrow> int" where
  "epoll_sock ServerObj = 6"
| "epoll_sock ClientObj = 4"

definition epoll_wf :: "kernel epoll_world \<Rightarrow> bool" where
  "epoll_wf w \<longleftrightarrow> (let m = main_obj w; k = os_state m in
     listener m = 3 \<and> \<not> loopEnd m \<and> (\<forall>h. getParent h w = Some MainProcessor) \<and>
     (\<exists>p. files k 3 = Some (TcpListen p 16 [])) \<and> files k 5 = Some (EpollFile [(3, 0), (4, 1), (6, 2)]) \<and>
     linked k 4 6 \<and> epoll_entry w 3 0 None \<and> epoll_entry w 4 1 (Some ClientObj) \<and> epoll_entry w 6 2 (Some ServerObj))"

definition epoll_busy :: "hid \<Rightarrow> kernel epoll_world \<Rightarrow> bool" where
  "epoll_busy h w \<longleftrightarrow> epoll_wf w \<and> getContext h w = epoll_sock h \<and>
     (\<forall>h'. waiting (os_state (main_obj w)) (epoll_sock h') = [])"

definition epoll_inflight :: "hid \<Rightarrow> char list \<Rightarrow> kernel epoll_world \<Rightarrow> bool" where
  "epoll_inflight h m w \<longleftrightarrow> epoll_wf w \<and> m \<in> {client_message, server_message} \<and>
     waiting (os_state (main_obj w)) (epoll_sock h) = m \<and>
     waiting (os_state (main_obj w)) (epoll_sock (peer h)) = []"

lemmas epoll_state = epoll_wf_def epoll_busy_def epoll_inflight_def epoll_entry_def

lemma linked_sock: "linked k 4 6 \<Longrightarrow> linked k (epoll_sock h) (epoll_sock (peer h))"
  by (cases h) (simp_all add: linked_sym)

lemma epoll_send_busy:
  assumes "epoll_busy h w" and "m \<in> {client_message, server_message}"
  shows "\<exists>w1. tcp_send loopback_epoll (Some h) m (int (length m)) True w = Inr w1 \<and>
    epoll_inflight (peer h) m w1 \<and> app_of w1 = app_of w"
proof -
  let ?k = "os_state (main_obj w)"
  have "linked ?k (epoll_sock h) (epoll_sock (peer h))" and ctx: "getContext h w = epoll_sock h"
    using assms(1) by (auto simp: epoll_state Let_def intro: linked_sock)
  then obtain k' where k': "tcp_send loopback_epoll (Some h) m (int (length m)) True w =
      Inr (w\<lparr>main_obj := (main_obj w)\<lparr>os_state := k'\<rparr>\<rparr>)" "linked k' (epoll_sock h) (epoll_sock (peer h))"
    "waiting k' (epoll_sock (peer h)) = waiting ?k (epoll_sock (peer h)) @ m"
    "waiting k' (epoll_sock h) = waiting ?k (epoll_sock h)" "files k' = files ?k"
    using tcp_send_linked [of loopback_epoll h w "epoll_sock h" "epoll_sock (peer h)" m] by (auto simp: loopback_epoll_def)
  have "linked k' 4 6" using k'(2) by (cases h) (simp_all add: linked_sym)
  then have "epoll_inflight (peer h) m (w\<lparr>main_obj := (main_obj w)\<lparr>os_state := k'\<rparr>\<rparr>)"
    using assms k'(3-5) by (cases h) (auto simp: epoll_state Let_def hid_all)
  with k'(1) show ?thesis by (auto simp: frame_simps)
qed

lemma epoll_wait_inflight:
  assumes "epoll_inflight h m w"
  shows "k_epoll_wait 5 MAXEVENTS (os_state (main_obj w)) =
    (Some [\<lparr>ev_err = False, ev_hup = False, ev_in = True, ev_ptr = (case h of ServerObj \<Rightarrow> 2 | ClientObj \<Rightarrow> 1)\<rparr>],
     os_state (main_obj w))"
proof -
  let ?k = "os_state (main_obj w)"
  have l: "linked ?k 4 6" "linked ?k 6 4" using assms by (auto simp: epoll_state Let_def linked_sym)
  have "k_readable ?k 4 \<longleftrightarrow> h = ClientObj" "k_readable ?k 6 \<longleftrightarrow> h = ServerObj"
    using assms k_readable_linked [OF l(1)] k_readable_linked [OF l(2)]
    by (cases h; auto simp: epoll_inflight_def client_message_def server_message_def)+
  moreover have "\<not> k_readable ?k 3" using assms by (auto simp: epoll_state Let_def k_readable_def)
  ultimately show ?thesis
    using assms by (cases h) (auto simp: epoll_state Let_def k_epoll_wait_def MAXEVENTS_def)
qed

lemma epoll_iter_inflight:
  assumes "epoll_inflight h m w"
  shows "\<exists>w1 rest n. epoll_iter loopback_epoll 5 w =
      handler_process (tcp_parent loopback_epoll) h (map Some m @ rest) n True w1 \<and> epoll_busy h w1 \<and> app_of w1 = app_of w"
proof -
  let ?k = "os_state (main_obj w)"
  have l: "linked ?k (epoll_sock h) (epoll_sock (peer h))"
    using assms by (auto simp: epoll_state Let_def intro: linked_sock)
  have m: "m \<noteq> []" "length m = 19" using assms by (auto simp: epoll_inflight_def client_message_def server_message_def)
  from k_recv_linked [OF l _ m(1), of 1024] obtain k' where
    k': "k_recv (epoll_sock h) 1024 ?k = (Some m, k')" "linked k' (epoll_sock h) (epoll_sock (peer h))"
    "waiting k' (epoll_sock h) = []" "waiting k' (epoll_sock (peer h)) = waiting ?k (epoll_sock (peer h))"
    "files k' = files ?k" using assms m(2) by (auto simp: epoll_inflight_def)
  let ?w = "setContext h (epoll_sock h) (w\<lparr>main_obj := (main_obj w)\<lparr>os_state := k'\<rparr>\<rparr>)"
  have "linked k' 4 6" using k'(2) by (cases h) (simp_all add: linked_sym)
  then have busy: "epoll_busy h ?w" using assms k'(3-5) by (cases h) (auto simp: epoll_state Let_def hid_all)
  have "epoll_iter loopback_epoll 5 w = handler_process (tcp_parent loopback_epoll) h
      (map Some m @ replicate 1005 None) 19 True ?w"
    using assms m k'(1) epoll_wait_inflight [OF assms]
    by (cases h) (auto simp: epoll_iter_def sys_def loopback_epoll_def epoll_event_body_def epoll_deref_def
        epoll_state Let_def recv_into_def rbind_assoc res_simps)
  then show ?thesis using busy by (metis app_of_setContext app_of_main_obj)
qed

interpretation epoll: echo_transport "tcp_parent loopback_epoll" "epoll_iter loopback_epoll 5" epoll_ended
  epoll_inflight epoll_busy
proof (unfold_locales, goal_cases)
  case (1 w w' h m)
  then show ?case using net_of_eqD [OF 1(1)] by (simp add: epoll_state)
next
  case (2 w w' h)
  then show ?case using net_of_eqD [OF 2(1)] by (simp add: epoll_state)
next
  case (3 h m w)
  then show ?case by (simp add: epoll_state epoll_ended_def Let_def)
next
  case (4 h w)
  then show ?case by (simp add: epoll_state Let_def)
next
  case (8 h m w)
  then show ?case by (rule epoll_iter_inflight)
next
  case (5 h w m)
  then show ?case using epoll_send_busy by (simp add: tcp_parent_def)
qed (simp_all add: tcp_parent_def tcp_cancelLoop_def epoll_ended_def frame_simps)

subsection \<open>The program over this transport\<close>

lemmas epoll_setup_simps = epoll_main_def epoll_bindServer_def tcp_bindServer_def epoll_initialize_def
  tcp_initialize_def start_world_def epoll_zero_def epoll_connectToServer_def tcp_connectToServer_def
  EchoClient_new_def EchoServer_new_def EventHandler_new_def sys_def sys_do_def loopback_epoll_def

text \<open>
  From the start to the loop: both roles are set up, the client's request waits in the connection,
  and the first round of the loop accepts it.
\<close>

lemma epoll_setup:
  "\<exists>w1 w2 w3 w4. em_bindServer (epoll_main loopback_epoll) ''8000'' ServerObj
       (em_initialize (epoll_main loopback_epoll) (start_world 0 (epoll_zero kernel_zero) ck (int N))) = Inr w1 \<and>
     em_connectToServer (epoll_main loopback_epoll) ''127.0.0.1'' ''8000'' ClientObj w1 = Inr w2 \<and>
     epoll_prepare loopback_epoll w2 = Inr (5, w3) \<and> \<not> epoll_ended w3 \<and>
     epoll_iter loopback_epoll 5 w3 = Inr w4 \<and>
     epoll_inflight ServerObj client_message w4 \<and> awaiting 0 N ck w4"
  by (simp add: epoll_setup_simps kernel_ops res_simps Let_def EchoClient_enable_def EchoClient_sendData_def
      EventHandler_send_def tcp_parent_def tcp_send_def int_ok_def INT_MAX_def epoll_prepare_def
      epoll_add_or_exit_def epoll_register_def epoll_new_def k_epoll_ctl_add_def epoll_ended_def
      epoll_iter_def k_epoll_wait_def k_readable_def MAXEVENTS_def epoll_event_body_def epoll_deref_def
      epoll_state linked_def waiting_def hid_all app_defs)

lemma epoll_roles:
  assumes "0 < N" and "int N \<le> INT_MAX" and "clock_sane ck" and "2 * N < fuel"
  shows "\<exists>w'. run_roles (epoll_main loopback_epoll) fuel ArgParser_new
      (em_initialize (epoll_main loopback_epoll) (start_world 0 (epoll_zero kernel_zero) ck (int N))) = Inr w' \<and>
    finished N ck w'"
proof -
  let ?V = "epoll_main loopback_epoll" and ?a = ArgParser_new
  have a: "pPort ?a = ''8000''" "pAddress ?a = ''127.0.0.1''" by (simp_all add: ArgParser_new_def)
  from epoll_setup [of ck N] obtain w1 w2 w3 w4 where
    s: "em_bindServer ?V (pPort ?a) ServerObj (em_initialize ?V (start_world 0 (epoll_zero kernel_zero) ck (int N))) = Inr w1"
      "em_connectToServer ?V (pAddress ?a) (pPort ?a) ClientObj w1 = Inr w2"
    and loop: "epoll_prepare loopback_epoll w2 = Inr (5, w3)" "\<not> epoll_ended w3" "epoll_iter loopback_epoll 5 w3 = Inr w4"
    and start: "epoll_inflight ServerObj client_message w4" "awaiting 0 N ck w4" unfolding a by blast
  obtain f where f: "fuel = Suc f" "2 * N \<le> f" using assms(4) by (cases fuel) auto
  have "em_process ?V fuel w2 = rbind (run_loop epoll_ended (epoll_iter loopback_epoll 5) f w4)
      (\<lambda>w. Inr (sys_do (os_close loopback_epoll (listener (main_obj w))) w))"
    using loop by (simp add: epoll_main_def epoll_process_def f(1))
  from epoll.roles_complete [OF s this start _ assms(1-3) f(2)] show ?thesis
    by (simp add: ArgParser_new_def frame_simps)
qed

text \<open>
  C9. On one machine the epoll program run with no arguments completes: the loop accepts the
  client's connection in its first round and then delivers every request and every response in one
  round each, without ever blocking.
\<close>

theorem epoll_main_completes:
  assumes "clock_sane ck" and "usecs (ck 1) \<le> usecs (ck 2)" and "2001 \<le> fuel"
  shows "\<exists>w. perf_main (epoll_main loopback_epoll) 0 (epoll_zero kernel_zero) ck fuel [] = Inr w \<and>
    benchmark_done 1000 ck w"
  using epoll_roles [of 1000 ck fuel] assms by (intro main_benchmark_done) (auto simp: INT_MAX_def)

theorem epoll_main_completes_witness:
  "\<exists>w. perf_main (epoll_main loopback_epoll) 0 (epoll_zero kernel_zero) still_clock 2001 [] = Inr w \<and>
    benchmark_done 1000 still_clock w"
  by (rule epoll_main_completes) simp_all

text \<open>
  Alone, the server waits for a connection in \<open>epoll_wait\<close>, and the client without a server exits
  with status 1 after \<open>connect\<close> fails.
\<close>

theorem epoll_single_roles:
  "perf_main (epoll_main loopback_epoll) 0 (epoll_zero kernel_zero) ck (Suc fuel) [''-s''] =
     Inl (Blocked ''epoll_wait'') \<and>
   perf_main (epoll_main loopback_epoll) 0 (epoll_zero kernel_zero) ck fuel [''-c''] = Inl (Exit 1 ''connect'')"
  by (simp add: perf_main_def parse_defs run_roles_def epoll_setup_simps kernel_ops res_simps Let_def
      epoll_process_def epoll_prepare_def epoll_add_or_exit_def epoll_register_def epoll_new_def
      k_epoll_ctl_add_def epoll_ended_def epoll_iter_def k_epoll_wait_def k_readable_def)

text \<open>
  C39. TCP does not keep message boundaries, and the transport hands over what one \<open>recv\<close> returned: when
  that is only a part of the message the handler waits for, the handler's \<open>strcmp\<close> runs into the
  indeterminate rest of the buffer.
\<close>

theorem epoll_partial_message:
  assumes "heap (main_obj w) (ev_ptr ev) = Some \<lparr>fd = sock, pHandler = Some h\<rparr>"
    and "listener (main_obj w) \<noteq> sock" and "ev_in ev \<and> \<not> ev_err ev \<and> \<not> ev_hup ev"
    and "m = (case h of ServerObj \<Rightarrow> client_message | ClientObj \<Rightarrow> server_message)"
    and "os_recv os sock 1024 (os_state (main_obj w)) = (Some (take n m), s)" and "0 < n" and "n < length m"
  shows "epoll_event_body os efd ev w = Inl (Undef ''strcmp reads indeterminate memory'')"
proof -
  have m: "c_string m" "length m = 19" using assms(4) by (cases h; simp)+
  have buf: "recv_into (replicate 1024 None) (take n m) = map Some (take n m) @ None # replicate (1023 - n) None"
    using assms(7) m(2) by (simp add: recv_into_def flip: replicate_Suc)
  have "strcmp (map Some (take n m) @ None # replicate (1023 - n) None) m = None"
    using strcmp_partial [OF m(1) assms(7)] .
  moreover have "take n m \<noteq> []" using assms(6,7) by auto
  ultimately show ?thesis
    using assms buf by (cases h) (simp_all add: epoll_event_body_def epoll_deref_def sys_def
        EchoServer_process_def EchoClient_process_def)
qed

definition partial_world :: "kernel epoll_world" where
  "partial_world = (start_world 0 (epoll_zero kernel_zero) still_clock 1000)
     \<lparr>main_obj := (epoll_zero (kernel_zero\<lparr>files := [6 \<mapsto> TcpConn 1], inbox := (\<lambda>_. ''Hello'')\<rparr>))
        \<lparr>listener := 3, heap := [2 \<mapsto> \<lparr>fd = 6, pHandler = Some ServerObj\<rparr>]\<rparr>\<rparr>"

theorem epoll_partial_message_witness:
  "epoll_event_body loopback_epoll 5 \<lparr>ev_err = False, ev_hup = False, ev_in = True, ev_ptr = 2\<rparr> partial_world =
     Inl (Undef ''strcmp reads indeterminate memory'')"
  by (rule epoll_partial_message [where n = 5 and h = ServerObj and sock = 6 and m = client_message
        and s = "(os_state (main_obj partial_world))\<lparr>inbox := (\<lambda>_. ''Hello'')(1 := [])\<rparr>"])
    (simp_all add: partial_world_def epoll_zero_def loopback_epoll_def k_recv_def client_message_def)

end
