(* ===== verification/SelectMain.thy ===== *)
theory SelectMain
  imports Loopback
begin

section \<open>The select transport (selectserver.cpp)\<close>

text \<open>
  \<open>SelectMain\<close> keeps an array \<open>states\<close> of \<open>FD_SETSIZE\<close> pointers, indexed by descriptor, and an array
  \<open>fds\<close> with the descriptors in use. Both are locals of \<open>process\<close> and part of the state here:
  \<open>sel_states i\<close> is \<open>None\<close> for a null pointer and \<open>Some h\<close> for a \<open>ClientState\<close> with handler \<open>h\<close>;
  \<open>sel_fds\<close> holds the first \<open>numfds\<close> elements of \<open>fds\<close>. An index outside the arrays, or outside an
  \<open>fd_set\<close>, is undefined behaviour. \<open>sel_returned\<close> records that \<open>process\<close> has left its loop by the
  \<open>return\<close> after a failed \<open>select\<close>.
\<close>

definition FD_SETSIZE :: int where "FD_SETSIZE = 1024"

type_synonym fd_set = "int \<Rightarrow> bool"

datatype sel_outcome = SelBlocks | SelError | SelReady fd_set

record 'o select_os = "'o sock_os" +
  os_select :: "int \<Rightarrow> fd_set \<Rightarrow> 'o \<Rightarrow> sel_outcome \<times> 'o"

record 'o SelectMain = "'o TcpMain" +
  sel_states :: "int \<Rightarrow> hid option option"
  sel_fds :: "int list"
  sel_returned :: bool

type_synonym 'o select_world = "(int, 'o SelectMain) world"
type_synonym ('c, 'o, 'z, 'y) fds_world = "('c, ('o, 'z) SelectMain_scheme, 'y) world_scheme"

definition select_zero :: "'o \<Rightarrow> 'o SelectMain" where
  "select_zero s = \<lparr>listener = 0, dest = 0, server = None, client = None, loopEnd = False, os_state = s,
     sel_states = (\<lambda>_. None), sel_fds = [],
     sel_returned = False\<rparr>"

definition in_fdset :: "int \<Rightarrow> bool" where
  "in_fdset i \<longleftrightarrow> 0 \<le> i \<and> i < FD_SETSIZE"

definition FD_SET :: "int \<Rightarrow> fd_set \<Rightarrow> fd_set result" where
  "FD_SET i S = (if in_fdset i then Inr (S(i := True)) else Inl (Undef ''fd_set out of bounds''))"

definition buildfds :: "(int \<Rightarrow> hid option option) \<Rightarrow> int list" where
  "buildfds states = filter (\<lambda>i. states i \<noteq> None) (map int [0..<nat FD_SETSIZE])"

text \<open>\<open>states[i] = state\<close>, and \<open>fds[numfds++] = i\<close>.\<close>

definition set_state :: "int \<Rightarrow> hid option option \<Rightarrow> ('c, 'o, 'z, 'y) fds_world \<Rightarrow> ('c, 'o, 'z, 'y) fds_world result" where
  "set_state i s w =
     (if in_fdset i then Inr (w\<lparr>main_obj := (main_obj w)\<lparr>sel_states := (sel_states (main_obj w))(i := s)\<rparr>\<rparr>)
      else Inl (Undef ''array index out of bounds''))"

definition push_fd :: "int \<Rightarrow> ('c, 'o, 'z, 'y) fds_world \<Rightarrow> ('c, 'o, 'z, 'y) fds_world result" where
  "push_fd i w =
     (if int (length (sel_fds (main_obj w))) < FD_SETSIZE
      then Inr (w\<lparr>main_obj := (main_obj w)\<lparr>sel_fds := sel_fds (main_obj w) @ [i]\<rparr>\<rparr>)
      else Inl (Undef ''array index out of bounds''))"

definition rebuild :: "('c, 'o, 'z, 'y) fds_world \<Rightarrow> ('c, 'o, 'z, 'y) fds_world" where
  "rebuild w = w\<lparr>main_obj := (main_obj w)\<lparr>sel_fds := buildfds (sel_states (main_obj w))\<rparr>\<rparr>"

text \<open>The descriptors of \<open>fds\<close> added to the set, and \<open>maxfd\<close>.\<close>

fun fill_fdset :: "int list \<Rightarrow> int \<Rightarrow> fd_set \<Rightarrow> (int \<times> fd_set) result" where
  "fill_fdset [] maxfd S = Inr (maxfd, S)"
| "fill_fdset (i # is) maxfd S = rbind (FD_SET i S) (\<lambda>S. fill_fdset is (if i > maxfd then i else maxfd) S)"

definition select_fdset :: "'o select_world \<Rightarrow> (int \<times> fd_set) result" where
  "select_fdset w =
     (let l = listener (main_obj w)
      in rbind (if l \<noteq> -1 then FD_SET l (\<lambda>_. False) else Inr (\<lambda>_. False))
           (fill_fdset (sel_fds (main_obj w)) l))"

text \<open>\<open>states\<close> and \<open>fds\<close> as they are set up in front of the loop.\<close>

definition select_prepare :: "'o select_world \<Rightarrow> 'o select_world result" where
  "select_prepare w =
     (let w = w\<lparr>main_obj := (main_obj w)\<lparr>sel_states := (\<lambda>_. None), sel_fds := [],
         sel_returned := False\<rparr>\<rparr>
      in rbind (if dest (main_obj w) \<noteq> -1 then set_state (dest (main_obj w)) (Some (client (main_obj w))) w else Inr w)
           (\<lambda>w. let w = rebuild w in rbind (select_fdset w) (\<lambda>_. Inr w)))"

definition select_accept :: "'o select_os \<Rightarrow> fd_set \<Rightarrow> 'o select_world \<Rightarrow> 'o select_world result" where
  "select_accept os readset w =
     (let l = listener (main_obj w)
      in if l \<noteq> -1 \<and> readset l
         then let (sock, w) = sys (os_accept os l) w
              in if sock < 0 then Inr w
                 else if sock > FD_SETSIZE then Inr (sys_do (os_close os sock) w)
                 else let w = sys_do (os_nonblock os sock) w
                      in rbind (set_state sock (Some (server (main_obj w))) w) (push_fd sock)
         else Inr w)"

definition select_close ::
  "('o, 'x) select_os_scheme \<Rightarrow> int \<Rightarrow> ('c, 'o, 'z, 'y) fds_world \<Rightarrow> ('c, 'o, 'z, 'y) fds_world result"
where
  "select_close os i w =
     rbind (set_state i None w) (\<lambda>w. Inr (rebuild (sys_do (os_close os i) w)))"

text \<open>
  One descriptor of the scan. \<open>recv\<close> gives -1 for every error, which differs from the constant
  \<open>EAGAIN\<close>, so the test \<open>result < 0 && result != EAGAIN\<close> is true for every error.
\<close>

definition select_scan_body :: "'o select_os \<Rightarrow> fd_set \<Rightarrow> int \<Rightarrow> 'o select_world \<Rightarrow> 'o select_world result" where
  "select_scan_body os readset i w =
     (if i = listener (main_obj w) \<or> \<not> readset i then Inr w
      else let (r, w) = sys (os_recv os i 1024) w
           in case r of
                None \<Rightarrow> select_close os i w
              | Some bs \<Rightarrow>
                  if bs = [] then select_close os i w
                  else (case sel_states (main_obj w) i of
                          Some (Some h) \<Rightarrow>
                            handler_process (tcp_parent os) h (recv_into (replicate 1024 None) bs)
                              (int (length bs)) True (setContext h i w)
                        | _ \<Rightarrow> Inr w))"

fun select_scan :: "'o select_os \<Rightarrow> fd_set \<Rightarrow> int list \<Rightarrow> 'o select_world \<Rightarrow> 'o select_world result" where
  "select_scan os readset [] w = Inr w"
| "select_scan os readset (i # is) w = rbind (select_scan_body os readset i w) (select_scan os readset is)"

definition select_iter :: "'o select_os \<Rightarrow> 'o select_world \<Rightarrow> 'o select_world result" where
  "select_iter os w =
     rbind (select_fdset w) (\<lambda>(maxfd, S).
     let (r, w) = sys (os_select os (maxfd + 1) S) w
     in case r of
          SelBlocks \<Rightarrow> Inl (Blocked ''select'')
        | SelError \<Rightarrow> Inr (w\<lparr>main_obj := (main_obj w)\<lparr>sel_returned := True\<rparr>\<rparr>)
        | SelReady readset \<Rightarrow>
            rbind (select_accept os readset w) (select_scan os readset (map int [0..<nat (maxfd + 1)])))"

definition select_ended :: "'o select_world \<Rightarrow> bool" where
  "select_ended w \<longleftrightarrow> sel_returned (main_obj w) \<or> loopEnd (main_obj w)"

definition select_process :: "'o select_os \<Rightarrow> nat \<Rightarrow> 'o select_world \<Rightarrow> 'o select_world result" where
  "select_process os fuel w = rbind (select_prepare w) (run_loop select_ended (select_iter os) fuel)"

definition select_initialize :: "'o select_world \<Rightarrow> 'o select_world" where
  "select_initialize w = tcp_initialize w"

definition select_cancelLoop :: "'o select_world \<Rightarrow> 'o select_world" where
  "select_cancelLoop w = tcp_cancelLoop w"

definition select_bindServer :: "'o select_os \<Rightarrow> string \<Rightarrow> hid \<Rightarrow> 'o select_world \<Rightarrow> 'o select_world result" where
  "select_bindServer os port h w = tcp_bindServer os port h w"

definition select_send ::
  "'o select_os \<Rightarrow> hid option \<Rightarrow> char list \<Rightarrow> int \<Rightarrow> bool \<Rightarrow> 'o select_world \<Rightarrow> 'o select_world result"
where
  "select_send os p data len isDataEnd w = tcp_send os p data len isDataEnd w"

definition select_connectToServer ::
  "'o select_os \<Rightarrow> string \<Rightarrow> string \<Rightarrow> hid \<Rightarrow> 'o select_world \<Rightarrow> 'o select_world result"
where
  "select_connectToServer os address port h w = tcp_connectToServer os address port h w"

definition select_main :: "'o select_os \<Rightarrow> 'o select_world EventMain" where
  "select_main os = \<lparr>em_send = select_send os, em_cancelLoop = select_cancelLoop,
     em_initialize = select_initialize, em_bindServer = select_bindServer os,
     em_connectToServer = select_connectToServer os, em_process = select_process os\<rparr>"

text \<open>
  udpselectserver.cpp has the same text as selectserver.cpp, byte for byte (its class is also called
  \<open>SelectMain\<close> and opens \<open>SOCK_STREAM\<close> sockets), so its program is this one.
\<close>

definition udp_select_main :: "'o select_os \<Rightarrow> 'o select_world EventMain" where
  "udp_select_main os = select_main os"

subsection \<open>The arrays\<close>

lemma buildfds_distinct: "distinct (buildfds states)"
  by (auto simp: buildfds_def distinct_map intro!: distinct_filter)

lemma set_buildfds: "set (buildfds states) = {i. in_fdset i \<and> states i \<noteq> None}"
proof -
  have "in_fdset i \<longleftrightarrow> i \<in> int ` {0..<nat FD_SETSIZE}" for i
    by (auto simp: in_fdset_def FD_SETSIZE_def image_iff intro: bexI [of _ "nat i"])
  then show ?thesis by (auto simp: buildfds_def)
qed

lemma fill_fdset_in_range:
  "\<forall>i\<in>set is. in_fdset i \<Longrightarrow> \<forall>i. S i \<longrightarrow> in_fdset i \<Longrightarrow>
   \<exists>m' S'. fill_fdset is m S = Inr (m', S') \<and> (\<forall>i. S' i \<longrightarrow> in_fdset i)"
  by (induction "is" arbitrary: m S) (auto simp: FD_SET_def)

text \<open>
  What the arrays rely on of the operating system: \<open>open\<close> reads off the state which descriptors are in
  use. \<open>socket\<close> and \<open>accept\<close> give out a descriptor that is not in use, below the process' limit, and
  \<open>select\<close> reports only descriptors it was asked about.
\<close>

locale select_kernel =
  fixes os :: "'o select_os"
    and in_use :: "'o \<Rightarrow> int set"
    and limit :: int
  assumes socket_fresh: "os_socket os s = (r, s') \<Longrightarrow> r = -1 \<and> in_use s' = in_use s \<or>
      0 \<le> r \<and> r < limit \<and> r \<notin> in_use s \<and> in_use s' = insert r (in_use s)"
    and accept_fresh: "os_accept os l s = (r, s') \<Longrightarrow> r = -1 \<and> in_use s' = in_use s \<or>
      0 \<le> r \<and> r < limit \<and> r \<notin> in_use s \<and> in_use s' = insert r (in_use s)"
    and close_frees: "in_use (os_close os i s) = in_use s - {i}"
    and select_subset: "os_select os nfds S s = (out, s') \<Longrightarrow> in_use s' = in_use s \<and>
      (\<forall>R. out = SelReady R \<longrightarrow> (\<forall>i. R i \<longrightarrow> S i))"
    and recv_keeps: "os_recv os i n s = (bs, s') \<Longrightarrow> in_use s' = in_use s"
    and send_keeps: "os_send os i ds s = (m, s') \<Longrightarrow> in_use s' = in_use s"
    and connect_keeps: "os_connect os i a p s = (ok, s') \<Longrightarrow> in_use s' = in_use s"
    and nonblock_keeps: "in_use (os_nonblock os i s) = in_use s"
    and limit_small: "limit \<le> FD_SETSIZE"
begin

text \<open>
  The invariant of the loop: the slots in use are within the array and stand for descriptors in
  use, and \<open>fds\<close> lists exactly them, each once; hence \<open>numfds\<close> never exceeds the array.
\<close>

definition arrays_ok :: "'o select_world \<Rightarrow> bool" where
  "arrays_ok w \<longleftrightarrow> (let m = main_obj w in
     (\<forall>i. sel_states m i \<noteq> None \<longrightarrow> in_fdset i \<and> i \<in> in_use (os_state m)) \<and>
     distinct (sel_fds m) \<and> set (sel_fds m) = {i. sel_states m i \<noteq> None} \<and>
     (listener m = -1 \<or> in_fdset (listener m)))"

definition select_failures :: "failure set" where
  "select_failures = handler_failures \<union> {Signal ''SIGPIPE'', Undef ''send reads out of bounds'',
     Exit 1 ''connect'', Undef ''atoi out of range'', Blocked ''select'', OutOfFuel}"

lemma select_failures_mem [simp]:
  "Blocked ''select'' \<in> select_failures" "OutOfFuel \<in> select_failures" "Exit 1 ''connect'' \<in> select_failures"
  by (simp_all add: select_failures_def)

lemma arrays_ok_net: "net_of w = net_of w' \<Longrightarrow> arrays_ok w \<Longrightarrow> arrays_ok w'"
  by (simp add: arrays_ok_def net_of_def)

lemma arrays_ok_os:
  assumes "arrays_ok w" and "in_use s' \<supseteq> in_use (os_state (main_obj w))"
  shows "arrays_ok (w\<lparr>main_obj := (main_obj w)\<lparr>os_state := s'\<rparr>\<rparr>)"
  using assms by (auto simp: arrays_ok_def Let_def)

lemma arrays_ok_sys:
  assumes "arrays_ok w" and "sys f w = (r, w')"
    and "\<And>s x s'. f s = (x, s') \<Longrightarrow> in_use s' \<supseteq> in_use s"
  shows "arrays_ok w'"
proof -
  obtain s' where "f (os_state (main_obj w)) = (r, s')" "w' = w\<lparr>main_obj := (main_obj w)\<lparr>os_state := s'\<rparr>\<rparr>"
    using assms(2) by (auto simp: sys_def split: prod.splits)
  then show ?thesis using arrays_ok_os [OF assms(1)] assms(3) by simp
qed

lemma arrays_ok_setContext: "arrays_ok (setContext h c w) = arrays_ok w"
  by (simp add: arrays_ok_def)

lemma arrays_ok_send: "transport_keeps h (tcp_parent os) select_failures arrays_ok"
  unfolding transport_keeps_def
proof (intro conjI allI impI, goal_cases)
  case 1
  then show ?case by (auto simp: select_failures_def)
next
  case (2 w w')
  then show ?case by (rule arrays_ok_net)
next
  case (3 d n e w)
  then show ?case
    using arrays_ok_sys [OF 3] send_keeps
    by (fastforce simp: tcp_parent_def tcp_send_def select_failures_def split: option.splits prod.splits)
next
  case (4 w)
  then show ?case by (simp add: tcp_parent_def tcp_cancelLoop_def arrays_ok_def Let_def)
qed

lemma arrays_ok_fdset:
  assumes "arrays_ok w"
  shows "\<exists>m S. select_fdset w = Inr (m, S) \<and> (\<forall>i. S i \<longrightarrow> in_fdset i)"
proof -
  have "\<forall>i\<in>set (sel_fds (main_obj w)). in_fdset i" using assms by (auto simp: arrays_ok_def Let_def)
  then show ?thesis
    using assms fill_fdset_in_range by (auto simp: select_fdset_def FD_SET_def arrays_ok_def Let_def)
qed

lemma fds_room:
  assumes "distinct fds" and "\<forall>i\<in>set fds. in_fdset i" and "in_fdset sock" and "sock \<notin> set fds"
  shows "int (length fds) < FD_SETSIZE"
proof -
  have sub: "insert sock (set fds) \<subseteq> {0..<FD_SETSIZE}" using assms(2,3) by (auto simp: in_fdset_def)
  have "Suc (length fds) = card (insert sock (set fds))" using assms(1,4) by (simp add: distinct_card)
  also have "\<dots> \<le> card {0..<FD_SETSIZE}" using sub by (intro card_mono) auto
  finally show ?thesis by (simp add: FD_SETSIZE_def)
qed

text \<open>An accepted descriptor is new and below the limit, so its slot and a place in \<open>fds\<close> are free.\<close>

lemma arrays_ok_accept:
  assumes ok: "arrays_ok w"
  shows "post select_failures arrays_ok (select_accept os readset w)"
proof (cases "listener (main_obj w) \<noteq> -1 \<and> readset (listener (main_obj w))")
  case True
  let ?m = "main_obj w"
  obtain sock s' where a: "os_accept os (listener ?m) (os_state ?m) = (sock, s')" by fastforce
  show ?thesis
  proof (cases "sock < 0")
    case neg: True
    then have "in_use s' = in_use (os_state ?m)" using accept_fresh [OF a] by auto
    then show ?thesis using True neg a arrays_ok_os [OF ok] by (simp add: select_accept_def sys_def)
  next
    case False
    then have new: "sock < limit" "sock \<notin> in_use (os_state ?m)" "in_use s' = insert sock (in_use (os_state ?m))"
      using accept_fresh [OF a] by auto
    have sock: "in_fdset sock" "\<not> sock > FD_SETSIZE" using False new(1) limit_small by (auto simp: in_fdset_def)
    have "sel_states ?m sock = None" using ok new(2) by (auto simp: arrays_ok_def Let_def)
    then have notin: "sock \<notin> set (sel_fds ?m)" using ok by (auto simp: arrays_ok_def Let_def)
    have "int (length (sel_fds ?m)) < FD_SETSIZE"
      using ok notin sock(1) by (intro fds_room) (auto simp: arrays_ok_def Let_def)
    then show ?thesis
      using ok True False a sock notin new(3) nonblock_keeps
      by (auto simp: select_accept_def sys_def sys_do_def set_state_def push_fd_def arrays_ok_def Let_def)
  qed
qed (use ok in \<open>auto simp: select_accept_def\<close>)

lemma arrays_ok_close:
  assumes "arrays_ok w" and "in_fdset i"
  shows "post select_failures arrays_ok (select_close os i w)"
  using assms by (auto simp: select_close_def set_state_def rebuild_def sys_do_def arrays_ok_def Let_def
      close_frees buildfds_distinct set_buildfds)

lemma arrays_ok_scan_body:
  assumes ok: "arrays_ok w" and i: "readset i \<Longrightarrow> in_fdset i"
  shows "post select_failures arrays_ok (select_scan_body os readset i w)"
proof -
  have recv: "arrays_ok v" if "sys (os_recv os i 1024) w = (r, v)" for r v
    using arrays_ok_sys [OF ok that] recv_keeps by blast
  have handle: "post select_failures arrays_ok (handler_process (tcp_parent os) h buf n True (setContext h c v))"
    if "arrays_ok v" for h buf n c v
    using that by (intro post_handler_process [OF arrays_ok_send]) (simp add: arrays_ok_setContext)
  show ?thesis
    using ok i by (auto simp: select_scan_body_def Let_def split: prod.splits option.splits
        intro!: arrays_ok_close handle intro: recv)
qed

lemma arrays_ok_scan:
  "arrays_ok w \<Longrightarrow> (\<And>i. readset i \<Longrightarrow> in_fdset i) \<Longrightarrow>
   post select_failures arrays_ok (select_scan os readset is w)"
  by (induction "is" arbitrary: w) (auto intro!: post_bind [OF arrays_ok_scan_body])

lemma arrays_ok_iter:
  assumes ok: "arrays_ok w"
  shows "post select_failures arrays_ok (select_iter os w)"
proof -
  obtain m S where S: "select_fdset w = Inr (m, S)" "\<And>i. S i \<Longrightarrow> in_fdset i"
    using arrays_ok_fdset [OF ok] by blast
  obtain r s' where r: "os_select os (m + 1) S (os_state (main_obj w)) = (r, s')" by fastforce
  let ?w = "w\<lparr>main_obj := (main_obj w)\<lparr>os_state := s'\<rparr>\<rparr>"
  have keep: "arrays_ok ?w" using arrays_ok_os [OF ok] select_subset [OF r] by simp
  show ?thesis
  proof (cases r)
    case (SelReady R)
    then have "in_fdset i" if "R i" for i using select_subset [OF r] S(2) that by blast
    then show ?thesis
      using SelReady r S(1) by (auto simp: select_iter_def sys_def intro!: post_bind [OF arrays_ok_accept [OF keep]] arrays_ok_scan)
  qed (use S(1) r keep in \<open>auto simp: select_iter_def sys_def arrays_ok_def Let_def\<close>)
qed

text \<open>In front of \<open>process\<close> the listener and the client's socket are descriptors the system gave out.\<close>

definition socks_ok :: "'o select_world \<Rightarrow> bool" where
  "socks_ok w \<longleftrightarrow> (let m = main_obj w in
     (listener m = -1 \<or> in_fdset (listener m)) \<and> (dest m = -1 \<or> in_fdset (dest m) \<and> dest m \<in> in_use (os_state m)))"

lemma arrays_ok_prepare:
  assumes "socks_ok w"
  shows "post select_failures arrays_ok (select_prepare w)"
  unfolding select_prepare_def Let_def
proof (rule post_bind [where Q = "\<lambda>v. arrays_ok (rebuild v)"], goal_cases)
  case 1
  then show ?case
    using assms by (auto simp: set_state_def rebuild_def socks_ok_def arrays_ok_def Let_def buildfds_distinct set_buildfds)
next
  case (2 v)
  then show ?case using arrays_ok_fdset [OF 2] by auto
qed

lemma arrays_safe_process:
  assumes "socks_ok w"
  shows "post select_failures (\<lambda>_. True) (select_process os fuel w)"
proof -
  have loop: "post select_failures arrays_ok (run_loop select_ended (select_iter os) fuel v)" if "arrays_ok v" for v
    by (rule run_loop_post [OF arrays_ok_iter that]) simp_all
  show ?thesis unfolding select_process_def
    by (auto intro!: post_bind [OF arrays_ok_prepare [OF assms]] intro: post_mono [OF loop])
qed

lemma post_sin_port: "post select_failures (\<lambda>_. True) (sin_port port)"
  by (auto simp: sin_port_def atoi_def select_failures_def split: option.splits)

lemma socks_ok_socket:
  assumes "os_socket os s = (r, s')"
  shows "in_use s' \<supseteq> in_use s" "r = -1 \<or> in_fdset r \<and> r \<in> in_use s'"
  using socket_fresh [OF assms] limit_small by (auto simp: in_fdset_def)

lemma socks_bindServer:
  assumes "dest (main_obj w) = -1"
  shows "post select_failures (\<lambda>v. socks_ok v \<and> dest (main_obj v) = -1) (tcp_bindServer os port h w)"
proof -
  obtain l s' where l: "os_socket os (os_state (main_obj w)) = (l, s')" by fastforce
  show ?thesis
    unfolding tcp_bindServer_def using assms l socks_ok_socket [OF l]
    by (intro post_bind [OF post_sin_port])
      (auto simp: sys_def sys_do_def socks_ok_def Let_def split: prod.splits)
qed

lemma socks_connectToServer:
  assumes "socks_ok w"
  shows "post select_failures socks_ok (tcp_connectToServer os address port h w)"
proof -
  have keeps: "transport_keeps g (tcp_parent os) select_failures socks_ok" for g
    by (auto simp: transport_keeps_def tcp_parent_def tcp_send_def tcp_cancelLoop_def socks_ok_def net_of_def
        sys_def select_failures_def Let_def send_keeps split: option.splits prod.splits)
  have en: "post select_failures socks_ok (handler_enable (tcp_parent os) h v)" if "socks_ok v" for v
    using post_EchoClient_sendData [OF keeps that] that by (cases h) (simp_all add: EchoClient_enable_def)
  obtain d s' where d: "os_socket os (os_state (main_obj w)) = (d, s')" by fastforce
  show ?thesis
    unfolding tcp_connectToServer_def using assms d socks_ok_socket [OF d]
    by (intro post_bind [OF post_sin_port])
      (auto simp: sys_def sys_do_def Let_def split: prod.splits option.splits intro!: en,
       auto simp: socks_ok_def Let_def connect_keeps nonblock_keeps)
qed

lemma arrays_safe_main:
  "post (insert (Exit 1 usage) select_failures) (\<lambda>_. True)
     (perf_main (select_main os) 0 (select_zero s) ck fuel argv)"
proof (rule post_perf_main [where ?Q0.0 = "\<lambda>w. socks_ok w \<and> dest (main_obj w) = -1" and Q = socks_ok], goal_cases)
  case (3 p w)
  then show ?case using post_mono [OF socks_bindServer subset_refl, of w socks_ok]
    by (auto simp: select_main_def select_bindServer_def)
qed (auto simp: select_main_def select_connectToServer_def socks_connectToServer arrays_safe_process
    socks_ok_def select_initialize_def tcp_initialize_def start_world_def select_zero_def)

end

subsection \<open>The kernel's select\<close>

definition k_select :: "int \<Rightarrow> fd_set \<Rightarrow> kernel \<Rightarrow> sel_outcome \<times> kernel" where
  "k_select nfds S k =
     (let ready = filter (\<lambda>i. S i \<and> k_readable k i) (map int [0..<nat nfds])
      in if ready = [] then (SelBlocks, k) else (SelReady (\<lambda>i. i \<in> set ready), k))"

definition loopback_select :: "kernel select_os" where
  "loopback_select = \<lparr>os_socket = k_open TcpNew, os_nonblock = (\<lambda>fd k. k), os_reuseaddr = (\<lambda>fd k. k),
     os_bind = k_bind, os_listen = k_listen, os_connect = k_connect, os_accept = k_accept,
     os_recv = k_recv, os_send = k_send, os_close = k_close,
     os_socket_dgram = k_open (UdpSock 0 []), os_recvfrom = k_recvfrom, os_sendto = k_sendto,
     os_select = k_select\<rparr>"

definition k_in_use :: "kernel \<Rightarrow> int set" where
  "k_in_use k = {i. files k i \<noteq> None}"

lemma free_fd_range: "0 \<le> n \<Longrightarrow> free_fd fs n = -1 \<or> 0 \<le> free_fd fs n \<and> free_fd fs n < 1024"
  by (induction fs n rule: free_fd.induct) (subst free_fd.simps, auto simp: free_fd.simps)

lemma k_open_in_use:
  "k_open f k = (r, k') \<Longrightarrow> r = -1 \<and> k' = k \<or>
   0 \<le> r \<and> r < 1024 \<and> r \<notin> k_in_use k \<and> k_in_use k' = insert r (k_in_use k)"
  using free_fd_range [of 3 "files k"] free_fd_free [of "files k" 3]
  by (auto simp: k_open_def k_in_use_def Let_def split: if_splits)

lemma k_accept_in_use:
  assumes "k_accept l k = (r, k')"
  shows "r = -1 \<and> k_in_use k' = k_in_use k \<or>
    0 \<le> r \<and> r < 1024 \<and> r \<notin> k_in_use k \<and> k_in_use k' = insert r (k_in_use k)"
proof (cases "\<exists>p n e es. files k l = Some (TcpListen p n (e # es))")
  case True
  then obtain p n e es where "files k l = Some (TcpListen p n (e # es))" by blast
  then show ?thesis
    using assms free_fd_range [of 3 "files k"] free_fd_free [of "files k" 3]
    by (auto simp: k_accept_def k_open_def k_in_use_def Let_def split: if_splits)
next
  case False
  then have "k' = k" "r = -1" using assms by (auto simp: k_accept_def split: option.splits tcp_file.splits list.splits)
  then show ?thesis by simp
qed

interpretation loopback_select: select_kernel loopback_select k_in_use 1024
proof (unfold_locales, goal_cases)
  case (1 s r s')
  then show ?case using k_open_in_use by (force simp: loopback_select_def)
next
  case (2 l s r s')
  then show ?case using k_accept_in_use by (simp add: loopback_select_def)
next
  case (3 i s)
  then show ?case
    by (auto simp: loopback_select_def k_close_def k_in_use_def Let_def split: option.splits tcp_file.splits)
next
  case (4 n S s r s')
  then show ?case by (auto simp: loopback_select_def k_select_def Let_def split: if_splits)
next
  case (7 i a p s ok s')
  then show ?case
    by (auto simp: loopback_select_def k_connect_def k_in_use_def Let_def
        split: option.splits tcp_file.splits if_splits)
qed (auto simp: loopback_select_def k_recv_def k_send_def FD_SETSIZE_def
      split: option.splits tcp_file.splits if_splits, auto simp: k_in_use_def)

subsection \<open>The contract\<close>

fun select_sock :: "hid \<Rightarrow> int" where
  "select_sock ServerObj = 5"
| "select_sock ClientObj = 4"

text \<open>The state between two rounds of the loop, once the connection is accepted.\<close>

definition select_wf :: "kernel select_world \<Rightarrow> bool" where
  "select_wf w \<longleftrightarrow> (let m = main_obj w; k = os_state m in
     listener m = 3 \<and> \<not> loopEnd m \<and> \<not> sel_returned m \<and> (\<forall>h. getParent h w = Some MainProcessor) \<and>
     (\<exists>p. files k 3 = Some (TcpListen p 16 [])) \<and> linked k 4 5 \<and> sel_fds m = [4, 5] \<and>
     (\<forall>h. sel_states m (select_sock h) = Some (Some h)))"

definition select_busy :: "hid \<Rightarrow> kernel select_world \<Rightarrow> bool" where
  "select_busy h w \<longleftrightarrow> select_wf w \<and> getContext h w = select_sock h \<and>
     (\<forall>h'. waiting (os_state (main_obj w)) (select_sock h') = [])"

definition select_inflight :: "hid \<Rightarrow> char list \<Rightarrow> kernel select_world \<Rightarrow> bool" where
  "select_inflight h m w \<longleftrightarrow> select_wf w \<and> m \<in> {client_message, server_message} \<and>
     waiting (os_state (main_obj w)) (select_sock h) = m \<and>
     waiting (os_state (main_obj w)) (select_sock (peer h)) = []"

lemmas select_state = select_wf_def select_busy_def select_inflight_def

lemma linked_select_sock: "linked k 4 5 \<Longrightarrow> linked k (select_sock h) (select_sock (peer h))"
  by (cases h) (simp_all add: linked_sym)

lemma select_send_busy:
  assumes "select_busy h w" and "m \<in> {client_message, server_message}"
  shows "\<exists>w1. tcp_send loopback_select (Some h) m (int (length m)) True w = Inr w1 \<and>
    select_inflight (peer h) m w1 \<and> app_of w1 = app_of w"
proof -
  let ?k = "os_state (main_obj w)"
  have "linked ?k (select_sock h) (select_sock (peer h))" and ctx: "getContext h w = select_sock h"
    using assms(1) by (auto simp: select_state Let_def intro: linked_select_sock)
  then obtain k' where k': "tcp_send loopback_select (Some h) m (int (length m)) True w =
      Inr (w\<lparr>main_obj := (main_obj w)\<lparr>os_state := k'\<rparr>\<rparr>)" "linked k' (select_sock h) (select_sock (peer h))"
    "waiting k' (select_sock (peer h)) = waiting ?k (select_sock (peer h)) @ m"
    "waiting k' (select_sock h) = waiting ?k (select_sock h)" "files k' = files ?k"
    using tcp_send_linked [of loopback_select h w "select_sock h" "select_sock (peer h)" m] by (auto simp: loopback_select_def)
  have "linked k' 4 5" using k'(2) by (cases h) (simp_all add: linked_sym)
  then have "select_inflight (peer h) m (w\<lparr>main_obj := (main_obj w)\<lparr>os_state := k'\<rparr>\<rparr>)"
    using assms k'(3-5) by (cases h) (auto simp: select_state Let_def hid_all)
  with k'(1) show ?thesis by (auto simp: frame_simps)
qed

lemma select_fdset_wf:
  "select_wf w \<Longrightarrow> select_fdset w = Inr (5, (\<lambda>i. i \<in> {3, 4, 5}))"
  by (auto simp: select_wf_def select_fdset_def FD_SET_def in_fdset_def FD_SETSIZE_def Let_def fun_eq_iff)

lemma k_select_inflight:
  assumes "select_inflight h m w"
  shows "k_select 6 (\<lambda>i. i \<in> {3, 4, 5}) (os_state (main_obj w)) =
    (SelReady (\<lambda>i. i = select_sock h), os_state (main_obj w))"
proof -
  let ?k = "os_state (main_obj w)"
  have l: "linked ?k 4 5" "linked ?k 5 4" using assms by (auto simp: select_state Let_def linked_sym)
  have "k_readable ?k 4 \<longleftrightarrow> h = ClientObj" "k_readable ?k 5 \<longleftrightarrow> h = ServerObj"
    using assms k_readable_linked [OF l(1)] k_readable_linked [OF l(2)]
    by (cases h; auto simp: select_inflight_def client_message_def server_message_def)+
  moreover have "\<not> k_readable ?k 3" using assms by (auto simp: select_state Let_def k_readable_def)
  ultimately show ?thesis by (cases h) (simp_all add: k_select_def upt_rec numeral_eq_Suc)
qed

text \<open>A scan in which only one descriptor is set is the work on that descriptor.\<close>

lemma select_scan_none: "(\<And>i. i \<in> set is \<Longrightarrow> \<not> R i) \<Longrightarrow> select_scan os R is w = Inr w"
  by (induction "is" arbitrary: w) (auto simp: select_scan_body_def)

lemma select_scan_one:
  "distinct is \<Longrightarrow> i \<in> set is \<Longrightarrow>
   select_scan os (\<lambda>j. j = i) is w = select_scan_body os (\<lambda>j. j = i) i w"
proof (induction "is" arbitrary: w)
  case (Cons j "is")
  show ?case
  proof (cases "j = i")
    case True
    then have "select_scan os (\<lambda>j. j = i) is = Inr" using Cons.prems by (auto intro!: ext select_scan_none)
    then show ?thesis using True by (simp add: res_simps)
  next
    case False
    then have "select_scan_body os (\<lambda>j. j = i) j w = Inr w" by (simp add: select_scan_body_def)
    then show ?thesis using False Cons by simp
  qed
qed simp

lemma select_iter_inflight:
  assumes "select_inflight h m w"
  shows "\<exists>w1 rest n. select_iter loopback_select w =
      handler_process (tcp_parent loopback_select) h (map Some m @ rest) n True w1 \<and>
      select_busy h w1 \<and> app_of w1 = app_of w"
proof -
  let ?k = "os_state (main_obj w)"
  have l: "linked ?k (select_sock h) (select_sock (peer h))"
    using assms by (auto simp: select_state Let_def intro: linked_select_sock)
  have m: "m \<noteq> []" "length m = 19" using assms by (auto simp: select_inflight_def client_message_def server_message_def)
  from k_recv_linked [OF l _ m(1), of 1024] obtain k' where
    k': "k_recv (select_sock h) 1024 ?k = (Some m, k')" "linked k' (select_sock h) (select_sock (peer h))"
    "waiting k' (select_sock h) = []" "waiting k' (select_sock (peer h)) = waiting ?k (select_sock (peer h))"
    "files k' = files ?k" using assms m(2) by (auto simp: select_inflight_def)
  let ?w = "setContext h (select_sock h) (w\<lparr>main_obj := (main_obj w)\<lparr>os_state := k'\<rparr>\<rparr>)"
  have "linked k' 4 5" using k'(2) by (cases h) (simp_all add: linked_sym)
  then have busy: "select_busy h ?w" using assms k'(3-5) by (cases h) (auto simp: select_state Let_def hid_all)
  have wf: "select_wf w" using assms by (simp add: select_inflight_def)
  have "select_iter loopback_select w = handler_process (tcp_parent loopback_select) h
      (map Some m @ replicate 1005 None) 19 True ?w"
  proof -
    have "select_iter loopback_select w = rbind (select_accept loopback_select (\<lambda>i. i = select_sock h) w)
        (select_scan loopback_select (\<lambda>i. i = select_sock h) (map int [0..<6]))"
      using k_select_inflight [OF assms] by (simp add: select_iter_def select_fdset_wf [OF wf] sys_def loopback_select_def)
    also have "\<dots> = select_scan_body loopback_select (\<lambda>i. i = select_sock h) (select_sock h) w"
      using wf by (cases h) (simp_all add: select_accept_def select_wf_def Let_def select_scan_one distinct_map image_iff)
    also have "\<dots> = handler_process (tcp_parent loopback_select) h (map Some m @ replicate 1005 None) 19 True ?w"
      using wf m k'(1) by (cases h) (auto simp: select_scan_body_def select_wf_def Let_def sys_def loopback_select_def
          recv_into_def hid_all)
    finally show ?thesis .
  qed
  then show ?thesis using busy by (metis app_of_setContext app_of_main_obj)
qed

interpretation select: echo_transport "tcp_parent loopback_select" "select_iter loopback_select" select_ended
  select_inflight select_busy
proof (unfold_locales, goal_cases)
  case (1 w w' h m)
  then show ?case using net_of_eqD [OF 1(1)] by (simp add: select_state)
next
  case (2 w w' h)
  then show ?case using net_of_eqD [OF 2(1)] by (simp add: select_state)
next
  case (3 h m w)
  then show ?case by (simp add: select_state select_ended_def Let_def)
next
  case (4 h w)
  then show ?case by (simp add: select_state Let_def)
next
  case (8 h m w)
  then show ?case by (rule select_iter_inflight)
next
  case (5 h w m)
  then show ?case using select_send_busy by (simp add: tcp_parent_def)
qed (simp_all add: tcp_parent_def tcp_cancelLoop_def select_ended_def frame_simps)

subsection \<open>The program over this transport\<close>

lemma buildfds_single: "in_fdset d \<Longrightarrow> buildfds [d \<mapsto> c] = [d]"
proof -
  assume "in_fdset d"
  then have "set (buildfds [d \<mapsto> c]) = {d}" by (auto simp: set_buildfds)
  then show ?thesis using buildfds_distinct [of "[d \<mapsto> c]"]
    by (metis distinct_card card.empty card_insert_disjoint finite.emptyI insert_absorb insert_not_empty
        length_0_conv length_Suc_conv list.set(1) list.simps(15) singleton_insert_inj_eq)
qed

lemmas select_setup_simps = select_main_def select_bindServer_def tcp_bindServer_def select_initialize_def
  tcp_initialize_def start_world_def select_zero_def select_connectToServer_def tcp_connectToServer_def
  EchoClient_new_def EchoServer_new_def EventHandler_new_def sys_def sys_do_def loopback_select_def

lemmas select_round_simps = select_prepare_def set_state_def rebuild_def in_fdset_def FD_SETSIZE_def
  select_fdset_def FD_SET_def select_ended_def select_iter_def k_select_def k_readable_def
  select_accept_def push_fd_def select_scan_body_def

lemma upt_0_5: "[0..<5] = [0, 1, 2, 3, 4 :: nat]"
  by (simp add: upt_rec numeral_eq_Suc)

lemma select_setup:
  "\<exists>w1 w2 w3 w4. em_bindServer (select_main loopback_select) ''8000'' ServerObj
       (em_initialize (select_main loopback_select) (start_world 0 (select_zero kernel_zero) ck (int N))) = Inr w1 \<and>
     em_connectToServer (select_main loopback_select) ''127.0.0.1'' ''8000'' ClientObj w1 = Inr w2 \<and>
     select_prepare w2 = Inr w3 \<and> \<not> select_ended w3 \<and> select_iter loopback_select w3 = Inr w4 \<and>
     select_inflight ServerObj client_message w4 \<and> awaiting 0 N ck w4"
  by (simp add: buildfds_single select_setup_simps kernel_ops res_simps Let_def EchoClient_enable_def EchoClient_sendData_def
      EventHandler_send_def tcp_parent_def tcp_send_def int_ok_def INT_MAX_def select_round_simps
      upt_0_5 select_state linked_def waiting_def hid_all app_defs)

lemma select_roles:
  assumes "0 < N" and "int N \<le> INT_MAX" and "clock_sane ck" and "2 * N < fuel"
  shows "\<exists>w'. run_roles (select_main loopback_select) fuel ArgParser_new
      (em_initialize (select_main loopback_select) (start_world 0 (select_zero kernel_zero) ck (int N))) = Inr w' \<and>
    finished N ck w'"
proof -
  let ?V = "select_main loopback_select" and ?a = ArgParser_new
  have a: "pPort ?a = ''8000''" "pAddress ?a = ''127.0.0.1''" by (simp_all add: ArgParser_new_def)
  from select_setup [of ck N] obtain w1 w2 w3 w4 where
    s: "em_bindServer ?V (pPort ?a) ServerObj (em_initialize ?V (start_world 0 (select_zero kernel_zero) ck (int N))) = Inr w1"
      "em_connectToServer ?V (pAddress ?a) (pPort ?a) ClientObj w1 = Inr w2"
    and loop: "select_prepare w2 = Inr w3" "\<not> select_ended w3" "select_iter loopback_select w3 = Inr w4"
    and start: "select_inflight ServerObj client_message w4" "awaiting 0 N ck w4" unfolding a by blast
  obtain f where f: "fuel = Suc f" "2 * N \<le> f" using assms(4) by (cases fuel) auto
  have "em_process ?V fuel w2 = rbind (run_loop select_ended (select_iter loopback_select) f w4) (\<lambda>w. Inr (id w))"
    using loop by (simp add: select_main_def select_process_def f(1) res_simps flip: id_def)
  from select.roles_complete [OF s this start _ assms(1-3) f(2)] show ?thesis
    by (simp add: ArgParser_new_def)
qed

text \<open>
  C5. For every operating system that gives out only unused descriptors, below a limit of at most
  \<open>FD_SETSIZE\<close>, and for every command line: no run of the select program leaves the arrays \<open>states\<close> and
  \<open>fds\<close> or an \<open>fd_set\<close>, however many connections are opened and closed.
\<close>

theorem select_arrays_in_bounds:
  assumes "select_kernel os in_use limit"
  shows "perf_main (select_main os) 0 (select_zero s) ck fuel argv
     \<notin> {Inl (Undef ''array index out of bounds''), Inl (Undef ''fd_set out of bounds'')}"
  using select_kernel.arrays_safe_main [OF assms, of s ck fuel argv]
  by (auto simp: post_def select_kernel.select_failures_def [OF assms] handler_failures_def usage_def)

theorem select_arrays_in_bounds_witness:
  "perf_main (select_main loopback_select) 0 (select_zero kernel_zero) still_clock 10 [''-s'']
     \<notin> {Inl (Undef ''array index out of bounds''), Inl (Undef ''fd_set out of bounds'')}"
  by (rule select_arrays_in_bounds [OF loopback_select.select_kernel_axioms])

text \<open>
  C40. The limit on descriptors is needed: the guard of the code is \<open>fd > FD_SETSIZE\<close>, so a connection that
  gets descriptor \<open>FD_SETSIZE\<close> itself passes it and writes past the end of \<open>states\<close>; larger descriptors
  are closed.
\<close>

theorem select_accept_guard:
  assumes "listener (main_obj w) \<noteq> -1" and "readset (listener (main_obj w))"
    and "os_accept os (listener (main_obj w)) (os_state (main_obj w)) = (sock, s')"
  shows "(sock = FD_SETSIZE \<longrightarrow> select_accept os readset w = Inl (Undef ''array index out of bounds'')) \<and>
    (sock > FD_SETSIZE \<longrightarrow> select_accept os readset w =
       Inr (w\<lparr>main_obj := (main_obj w)\<lparr>os_state := os_close os sock s'\<rparr>\<rparr>))"
  using assms by (auto simp: select_accept_def sys_def sys_do_def set_state_def in_fdset_def FD_SETSIZE_def)

definition full_table_os :: "unit select_os" where
  "full_table_os = \<lparr>os_socket = Pair (-1), os_nonblock = (\<lambda>_. id), os_reuseaddr = (\<lambda>_. id),
     os_bind = (\<lambda>_ _ _. Pair False), os_listen = (\<lambda>_ _. Pair False), os_connect = (\<lambda>_ _ _. Pair False),
     os_accept = (\<lambda>_. Pair 1024), os_recv = (\<lambda>_ _. Pair None), os_send = (\<lambda>_ _. Pair (Some (-1))),
     os_close = (\<lambda>_. id), os_socket_dgram = Pair (-1), os_recvfrom = (\<lambda>_ _. Pair None),
     os_sendto = (\<lambda>_ _ _. Pair (-1)), os_select = (\<lambda>_ S. Pair (SelReady S))\<rparr>"

theorem select_accept_guard_witness:
  "select_accept full_table_os (\<lambda>_. True)
     ((start_world 0 (select_zero ()) still_clock 1000)\<lparr>main_obj := (select_zero ())\<lparr>listener := 3\<rparr>\<rparr>) =
     Inl (Undef ''array index out of bounds'')"
  using select_accept_guard [of "(start_world 0 (select_zero ()) still_clock 1000)
      \<lparr>main_obj := (select_zero ())\<lparr>listener := 3\<rparr>\<rparr>" "\<lambda>_. True" full_table_os FD_SETSIZE "()"]
  by (simp add: full_table_os_def FD_SETSIZE_def)

text \<open>
  A \<open>recv\<close> that fails closes the connection, also when it failed only because there was nothing to
  read (\<open>EAGAIN\<close>, which \<open>select\<close> does not exclude): the descriptor's slot is cleared, it leaves \<open>fds\<close>
  and it is closed, because the code compares the result -1 and not \<open>errno\<close> with \<open>EAGAIN\<close>.
\<close>

theorem select_failed_recv_closes:
  assumes "in_fdset i" and "i \<noteq> listener (main_obj w)" and "readset i"
    and "os_recv os i 1024 (os_state (main_obj w)) = (None, s')"
  shows "\<exists>w'. select_scan_body os readset i w = Inr w' \<and> sel_states (main_obj w') i = None \<and>
    i \<notin> set (sel_fds (main_obj w')) \<and> os_state (main_obj w') = os_close os i s'"
  using assms by (simp add: select_scan_body_def sys_def select_close_def set_state_def rebuild_def sys_do_def
      set_buildfds)

theorem select_failed_recv_closes_witness:
  "\<exists>w'. select_scan_body full_table_os (\<lambda>_. True) 7 (start_world 0 (select_zero ()) still_clock 1000) = Inr w' \<and>
    sel_states (main_obj w') 7 = None \<and> 7 \<notin> set (sel_fds (main_obj w')) \<and>
    os_state (main_obj w') = os_close full_table_os 7 ()"
  by (rule select_failed_recv_closes)
    (simp_all add: in_fdset_def FD_SETSIZE_def start_world_def select_zero_def full_table_os_def)

text \<open>
  C10. On one machine the select program run with no arguments completes: the first round of the
  loop accepts the connection, and every later round delivers one message.
\<close>

theorem select_main_completes:
  assumes "clock_sane ck" and "usecs (ck 1) \<le> usecs (ck 2)" and "2001 \<le> fuel"
  shows "\<exists>w. perf_main (select_main loopback_select) 0 (select_zero kernel_zero) ck fuel [] = Inr w \<and>
    benchmark_done 1000 ck w"
  using select_roles [of 1000 ck fuel] assms by (intro main_benchmark_done) (auto simp: INT_MAX_def)

theorem select_main_completes_witness:
  "\<exists>w. perf_main (select_main loopback_select) 0 (select_zero kernel_zero) still_clock 2001 [] = Inr w \<and>
    benchmark_done 1000 still_clock w"
  by (rule select_main_completes) simp_all

end
