(* ===== verification/KqueueMain.thy ===== *)
theory KqueueMain
  imports Loopback
begin

section \<open>The kqueue transport (kqueueserver.cpp)\<close>

text \<open>
  \<open>KQueueMain\<close> registers each descriptor with a pointer to its handler as user data (null for the
  listener) and exits when the kernel reports an error.
\<close>

record kevent =
  ke_error :: bool
  ke_ident :: int
  ke_udata :: "hid option"

datatype kq_outcome = KqBlocks | KqError | KqEvents "kevent list"

record 'o kqueue_os = "'o sock_os" +
  os_kqueue :: "'o \<Rightarrow> int \<times> 'o"
  os_kevent_add :: "int \<Rightarrow> int \<Rightarrow> hid option \<Rightarrow> 'o \<Rightarrow> bool \<times> 'o"
  os_kevent_wait :: "int \<Rightarrow> nat \<Rightarrow> 'o \<Rightarrow> kq_outcome \<times> 'o"

type_synonym 'o kqueue_world = "(int, 'o TcpMain) world"

definition kqueue_zero :: "'o \<Rightarrow> 'o TcpMain" where
  "kqueue_zero s = \<lparr>listener = 0, dest = 0, server = None, client = None, loopEnd = False, os_state = s\<rparr>"

definition kq_add_or_die ::
  "'o kqueue_os \<Rightarrow> int \<Rightarrow> int \<Rightarrow> hid option \<Rightarrow> ('c, ('o, 'z) TcpMain_scheme) world \<Rightarrow>
   ('c, ('o, 'z) TcpMain_scheme) world result"
where
  "kq_add_or_die os kqfd ident udata w =
     (case sys (os_kevent_add os kqfd ident udata) w of (ok, w) \<Rightarrow>
        if ok then Inr w else Inl (Exit 1 ''kevent''))"

text \<open>The body of the loop over the events, for one of them; the boolean says that it left by \<open>break\<close>.\<close>

definition kqueue_event_body ::
  "'o kqueue_os \<Rightarrow> int \<Rightarrow> kevent \<Rightarrow> 'o kqueue_world \<Rightarrow> (bool \<times> 'o kqueue_world) result"
where
  "kqueue_event_body os kqfd ev w =
     (if ke_error ev then Inl (Exit 1 ''EVERROR'')
      else if listener (main_obj w) = ke_ident ev
      then let (acceptfd, w) = sys (os_accept os (listener (main_obj w))) w
           in if acceptfd = -1 then Inr (False, w)
              else let w = sys_do (os_nonblock os acceptfd) w
                   in rbind (kq_add_or_die os kqfd acceptfd (server (main_obj w)) w) (\<lambda>w. Inr (False, w))
      else let (r, w) = sys (os_recv os (ke_ident ev) 1024) w
           in case r of
                None \<Rightarrow> Inr (False, sys_do (os_close os (ke_ident ev)) w)
              | Some bs \<Rightarrow>
                  if bs = [] then Inr (True, sys_do (os_close os (ke_ident ev)) w)
                  else (case ke_udata ev of
                          None \<Rightarrow> Inr (False, w)
                        | Some h \<Rightarrow>
                            rbind (handler_process (tcp_parent os) h (recv_into (replicate 1024 None) bs)
                                     (int (length bs)) True (setContext h (ke_ident ev) w))
                              (\<lambda>w. Inr (False, w))))"

fun kqueue_events ::
  "'o kqueue_os \<Rightarrow> int \<Rightarrow> kevent list \<Rightarrow> 'o kqueue_world \<Rightarrow> 'o kqueue_world result"
where
  "kqueue_events os kqfd [] w = Inr w"
| "kqueue_events os kqfd (ev # evs) w =
     rbind (kqueue_event_body os kqfd ev w) (\<lambda>(left_loop, w). if left_loop then Inr w else kqueue_events os kqfd evs w)"

definition kq_max_events :: nat where "kq_max_events = 64"

definition kqueue_iter :: "'o kqueue_os \<Rightarrow> int \<Rightarrow> 'o kqueue_world \<Rightarrow> 'o kqueue_world result" where
  "kqueue_iter os kqfd w =
     (let (r, w) = sys (os_kevent_wait os kqfd kq_max_events) w
      in case r of
           KqBlocks \<Rightarrow> Inl (Blocked ''kevent'')
         | KqError \<Rightarrow> Inl (Exit 1 ''kevent main'')
         | KqEvents evs \<Rightarrow> kqueue_events os kqfd evs w)"

definition kqueue_ended :: "'o kqueue_world \<Rightarrow> bool" where
  "kqueue_ended w \<longleftrightarrow> loopEnd (main_obj w)"

definition kqueue_prepare :: "'o kqueue_os \<Rightarrow> 'o kqueue_world \<Rightarrow> (int \<times> 'o kqueue_world) result" where
  "kqueue_prepare os w =
     (let (kqfd, w) = sys (os_kqueue os) w
      in if kqfd = -1 then Inl (Exit 1 ''kqueue'')
         else rbind (if listener (main_obj w) \<noteq> -1
                     then kq_add_or_die os kqfd (listener (main_obj w)) None w else Inr w) (\<lambda>w.
              rbind (if dest (main_obj w) \<noteq> -1
                     then kq_add_or_die os kqfd (dest (main_obj w)) (client (main_obj w)) w else Inr w) (\<lambda>w.
              Inr (kqfd, w))))"

definition kqueue_process :: "'o kqueue_os \<Rightarrow> nat \<Rightarrow> 'o kqueue_world \<Rightarrow> 'o kqueue_world result" where
  "kqueue_process os fuel w =
     rbind (kqueue_prepare os w) (\<lambda>(kqfd, w).
     rbind (run_loop kqueue_ended (kqueue_iter os kqfd) fuel w) (\<lambda>w.
     Inr (sys_do (os_close os (listener (main_obj w))) w)))"

definition kqueue_initialize :: "'o kqueue_world \<Rightarrow> 'o kqueue_world" where
  "kqueue_initialize w = tcp_initialize w"

definition kqueue_cancelLoop :: "'o kqueue_world \<Rightarrow> 'o kqueue_world" where
  "kqueue_cancelLoop w = tcp_cancelLoop w"

definition kqueue_bindServer :: "'o kqueue_os \<Rightarrow> string \<Rightarrow> hid \<Rightarrow> 'o kqueue_world \<Rightarrow> 'o kqueue_world result" where
  "kqueue_bindServer os port h w = tcp_bindServer os port h w"

definition kqueue_send ::
  "'o kqueue_os \<Rightarrow> hid option \<Rightarrow> char list \<Rightarrow> int \<Rightarrow> bool \<Rightarrow> 'o kqueue_world \<Rightarrow> 'o kqueue_world result"
where
  "kqueue_send os p data len isDataEnd w = tcp_send os p data len isDataEnd w"

definition kqueue_connectToServer ::
  "'o kqueue_os \<Rightarrow> string \<Rightarrow> string \<Rightarrow> hid \<Rightarrow> 'o kqueue_world \<Rightarrow> 'o kqueue_world result"
where
  "kqueue_connectToServer os address port h w = tcp_connectToServer os address port h w"

definition kqueue_main :: "'o kqueue_os \<Rightarrow> 'o kqueue_world EventMain" where
  "kqueue_main os = \<lparr>em_send = kqueue_send os, em_cancelLoop = kqueue_cancelLoop,
     em_initialize = kqueue_initialize, em_bindServer = kqueue_bindServer os,
     em_connectToServer = kqueue_connectToServer os, em_process = kqueue_process os\<rparr>"

subsection \<open>The kernel's kqueue\<close>

definition k_kevent_add :: "int \<Rightarrow> int \<Rightarrow> hid option \<Rightarrow> kernel \<Rightarrow> bool \<times> kernel" where
  "k_kevent_add kqfd ident udata k =
     (case (files k kqfd, files k ident) of
        (Some (KqueueFile l), Some f) \<Rightarrow>
          (True, k\<lparr>files := (files k)(kqfd \<mapsto> KqueueFile (filter (\<lambda>x. fst x \<noteq> ident) l @ [(ident, udata)]))\<rparr>)
      | _ \<Rightarrow> (False, k))"

definition k_kevent_wait :: "int \<Rightarrow> nat \<Rightarrow> kernel \<Rightarrow> kq_outcome \<times> kernel" where
  "k_kevent_wait kqfd n k =
     (case files k kqfd of
        Some (KqueueFile l) \<Rightarrow>
          let ready = filter (\<lambda>x. k_readable k (fst x)) l
          in if ready = [] then (KqBlocks, k)
             else (KqEvents (map (\<lambda>(i, u). \<lparr>ke_error = False, ke_ident = i, ke_udata = u\<rparr>) (take n ready)), k)
      | _ \<Rightarrow> (KqError, k))"

definition loopback_kqueue :: "kernel kqueue_os" where
  "loopback_kqueue = \<lparr>os_socket = k_open TcpNew, os_nonblock = (\<lambda>fd k. k), os_reuseaddr = (\<lambda>fd k. k),
     os_bind = k_bind, os_listen = k_listen, os_connect = k_connect, os_accept = k_accept,
     os_recv = k_recv, os_send = k_send, os_close = k_close,
     os_socket_dgram = k_open (UdpSock 0 []), os_recvfrom = k_recvfrom, os_sendto = k_sendto,
     os_kqueue = k_open (KqueueFile []), os_kevent_add = k_kevent_add, os_kevent_wait = k_kevent_wait\<rparr>"

subsection \<open>The contract\<close>

fun kqueue_sock :: "hid \<Rightarrow> int" where
  "kqueue_sock ServerObj = 6"
| "kqueue_sock ClientObj = 4"

definition kqueue_wf :: "kernel kqueue_world \<Rightarrow> bool" where
  "kqueue_wf w \<longleftrightarrow> (let m = main_obj w; k = os_state m in
     listener m = 3 \<and> \<not> loopEnd m \<and> (\<forall>h. getParent h w = Some MainProcessor) \<and>
     (\<exists>p. files k 3 = Some (TcpListen p 16 [])) \<and>
     files k 5 = Some (KqueueFile [(3, None), (4, Some ClientObj), (6, Some ServerObj)]) \<and> linked k 4 6)"

definition kqueue_busy :: "hid \<Rightarrow> kernel kqueue_world \<Rightarrow> bool" where
  "kqueue_busy h w \<longleftrightarrow> kqueue_wf w \<and> getContext h w = kqueue_sock h \<and>
     (\<forall>h'. waiting (os_state (main_obj w)) (kqueue_sock h') = [])"

definition kqueue_inflight :: "hid \<Rightarrow> char list \<Rightarrow> kernel kqueue_world \<Rightarrow> bool" where
  "kqueue_inflight h m w \<longleftrightarrow> kqueue_wf w \<and> m \<in> {client_message, server_message} \<and>
     waiting (os_state (main_obj w)) (kqueue_sock h) = m \<and>
     waiting (os_state (main_obj w)) (kqueue_sock (peer h)) = []"

lemmas kqueue_state = kqueue_wf_def kqueue_busy_def kqueue_inflight_def

lemma linked_kqueue_sock: "linked k 4 6 \<Longrightarrow> linked k (kqueue_sock h) (kqueue_sock (peer h))"
  by (cases h) (simp_all add: linked_sym)

lemma kqueue_send_busy:
  assumes "kqueue_busy h w" and "m \<in> {client_message, server_message}"
  shows "\<exists>w1. tcp_send loopback_kqueue (Some h) m (int (length m)) True w = Inr w1 \<and>
    kqueue_inflight (peer h) m w1 \<and> app_of w1 = app_of w"
proof -
  let ?k = "os_state (main_obj w)"
  have "linked ?k (kqueue_sock h) (kqueue_sock (peer h))" and ctx: "getContext h w = kqueue_sock h"
    using assms(1) by (auto simp: kqueue_state Let_def intro: linked_kqueue_sock)
  then obtain k' where k': "tcp_send loopback_kqueue (Some h) m (int (length m)) True w =
      Inr (w\<lparr>main_obj := (main_obj w)\<lparr>os_state := k'\<rparr>\<rparr>)" "linked k' (kqueue_sock h) (kqueue_sock (peer h))"
    "waiting k' (kqueue_sock (peer h)) = waiting ?k (kqueue_sock (peer h)) @ m"
    "waiting k' (kqueue_sock h) = waiting ?k (kqueue_sock h)" "files k' = files ?k"
    using tcp_send_linked [of loopback_kqueue h w "kqueue_sock h" "kqueue_sock (peer h)" m]
    by (auto simp: loopback_kqueue_def)
  have "linked k' 4 6" using k'(2) by (cases h) (simp_all add: linked_sym)
  then have "kqueue_inflight (peer h) m (w\<lparr>main_obj := (main_obj w)\<lparr>os_state := k'\<rparr>\<rparr>)"
    using assms k'(3-5) by (cases h) (auto simp: kqueue_state Let_def hid_all)
  with k'(1) show ?thesis by (auto simp: frame_simps)
qed

lemma k_kevent_wait_inflight:
  assumes "kqueue_inflight h m w"
  shows "k_kevent_wait 5 kq_max_events (os_state (main_obj w)) =
    (KqEvents [\<lparr>ke_error = False, ke_ident = kqueue_sock h, ke_udata = Some h\<rparr>], os_state (main_obj w))"
proof -
  let ?k = "os_state (main_obj w)"
  have l: "linked ?k 4 6" "linked ?k 6 4" using assms by (auto simp: kqueue_state Let_def linked_sym)
  have "k_readable ?k 4 \<longleftrightarrow> h = ClientObj" "k_readable ?k 6 \<longleftrightarrow> h = ServerObj"
    using assms k_readable_linked [OF l(1)] k_readable_linked [OF l(2)]
    by (cases h; auto simp: kqueue_inflight_def client_message_def server_message_def)+
  moreover have "\<not> k_readable ?k 3" using assms by (auto simp: kqueue_state Let_def k_readable_def)
  ultimately show ?thesis
    using assms by (cases h) (auto simp: kqueue_state Let_def k_kevent_wait_def kq_max_events_def)
qed

lemma kqueue_iter_inflight:
  assumes "kqueue_inflight h m w"
  shows "\<exists>w1 rest n. kqueue_iter loopback_kqueue 5 w =
      handler_process (tcp_parent loopback_kqueue) h (map Some m @ rest) n True w1 \<and>
      kqueue_busy h w1 \<and> app_of w1 = app_of w"
proof -
  let ?k = "os_state (main_obj w)"
  have l: "linked ?k (kqueue_sock h) (kqueue_sock (peer h))"
    using assms by (auto simp: kqueue_state Let_def intro: linked_kqueue_sock)
  have m: "m \<noteq> []" "length m = 19" using assms by (auto simp: kqueue_inflight_def client_message_def server_message_def)
  from k_recv_linked [OF l _ m(1), of 1024] obtain k' where
    k': "k_recv (kqueue_sock h) 1024 ?k = (Some m, k')" "linked k' (kqueue_sock h) (kqueue_sock (peer h))"
    "waiting k' (kqueue_sock h) = []" "waiting k' (kqueue_sock (peer h)) = waiting ?k (kqueue_sock (peer h))"
    "files k' = files ?k" using assms m(2) by (auto simp: kqueue_inflight_def)
  let ?w = "setContext h (kqueue_sock h) (w\<lparr>main_obj := (main_obj w)\<lparr>os_state := k'\<rparr>\<rparr>)"
  have "linked k' 4 6" using k'(2) by (cases h) (simp_all add: linked_sym)
  then have busy: "kqueue_busy h ?w" using assms k'(3-5) by (cases h) (auto simp: kqueue_state Let_def hid_all)
  have "kqueue_iter loopback_kqueue 5 w = handler_process (tcp_parent loopback_kqueue) h
      (map Some m @ replicate 1005 None) 19 True ?w"
    using assms m k'(1) k_kevent_wait_inflight [OF assms]
    by (cases h) (auto simp: kqueue_iter_def sys_def loopback_kqueue_def kqueue_event_body_def
        kqueue_state Let_def recv_into_def rbind_assoc res_simps)
  then show ?thesis using busy by (metis app_of_setContext app_of_main_obj)
qed

interpretation kqueue: echo_transport "tcp_parent loopback_kqueue" "kqueue_iter loopback_kqueue 5" kqueue_ended
  kqueue_inflight kqueue_busy
proof (unfold_locales, goal_cases)
  case (1 w w' h m)
  then show ?case using net_of_eqD [OF 1(1)] by (simp add: kqueue_state)
next
  case (2 w w' h)
  then show ?case using net_of_eqD [OF 2(1)] by (simp add: kqueue_state)
next
  case (3 h m w)
  then show ?case by (simp add: kqueue_state kqueue_ended_def Let_def)
next
  case (4 h w)
  then show ?case by (simp add: kqueue_state Let_def)
next
  case (8 h m w)
  then show ?case by (rule kqueue_iter_inflight)
next
  case (5 h w m)
  then show ?case using kqueue_send_busy by (simp add: tcp_parent_def)
qed (simp_all add: tcp_parent_def tcp_cancelLoop_def kqueue_ended_def frame_simps)

subsection \<open>The program over this transport\<close>

lemmas kqueue_setup_simps = kqueue_main_def kqueue_bindServer_def tcp_bindServer_def kqueue_initialize_def
  tcp_initialize_def start_world_def kqueue_zero_def kqueue_connectToServer_def tcp_connectToServer_def
  EchoClient_new_def EchoServer_new_def EventHandler_new_def sys_def sys_do_def loopback_kqueue_def

lemmas kqueue_round_simps = kqueue_prepare_def kq_add_or_die_def k_kevent_add_def kqueue_ended_def
  kqueue_iter_def k_kevent_wait_def k_readable_def kq_max_events_def kqueue_event_body_def

lemma kqueue_setup:
  "\<exists>w1 w2 w3 w4. em_bindServer (kqueue_main loopback_kqueue) ''8000'' ServerObj
       (em_initialize (kqueue_main loopback_kqueue) (start_world 0 (kqueue_zero kernel_zero) ck (int N))) = Inr w1 \<and>
     em_connectToServer (kqueue_main loopback_kqueue) ''127.0.0.1'' ''8000'' ClientObj w1 = Inr w2 \<and>
     kqueue_prepare loopback_kqueue w2 = Inr (5, w3) \<and> \<not> kqueue_ended w3 \<and>
     kqueue_iter loopback_kqueue 5 w3 = Inr w4 \<and>
     kqueue_inflight ServerObj client_message w4 \<and> awaiting 0 N ck w4"
  by (simp add: kqueue_setup_simps kernel_ops res_simps Let_def EchoClient_enable_def EchoClient_sendData_def
      EventHandler_send_def tcp_parent_def tcp_send_def int_ok_def INT_MAX_def kqueue_round_simps
      kqueue_state linked_def waiting_def hid_all app_defs)

lemma kqueue_roles:
  assumes "0 < N" and "int N \<le> INT_MAX" and "clock_sane ck" and "2 * N < fuel"
  shows "\<exists>w'. run_roles (kqueue_main loopback_kqueue) fuel ArgParser_new
      (em_initialize (kqueue_main loopback_kqueue) (start_world 0 (kqueue_zero kernel_zero) ck (int N))) = Inr w' \<and>
    finished N ck w'"
proof -
  let ?V = "kqueue_main loopback_kqueue" and ?a = ArgParser_new
  have a: "pPort ?a = ''8000''" "pAddress ?a = ''127.0.0.1''" by (simp_all add: ArgParser_new_def)
  from kqueue_setup [of ck N] obtain w1 w2 w3 w4 where
    s: "em_bindServer ?V (pPort ?a) ServerObj (em_initialize ?V (start_world 0 (kqueue_zero kernel_zero) ck (int N))) = Inr w1"
      "em_connectToServer ?V (pAddress ?a) (pPort ?a) ClientObj w1 = Inr w2"
    and loop: "kqueue_prepare loopback_kqueue w2 = Inr (5, w3)" "\<not> kqueue_ended w3"
      "kqueue_iter loopback_kqueue 5 w3 = Inr w4"
    and start: "kqueue_inflight ServerObj client_message w4" "awaiting 0 N ck w4" unfolding a by blast
  obtain f where f: "fuel = Suc f" "2 * N \<le> f" using assms(4) by (cases fuel) auto
  have "em_process ?V fuel w2 = rbind (run_loop kqueue_ended (kqueue_iter loopback_kqueue 5) f w4)
      (\<lambda>w. Inr (sys_do (os_close loopback_kqueue (listener (main_obj w))) w))"
    using loop by (simp add: kqueue_main_def kqueue_process_def f(1))
  from kqueue.roles_complete [OF s this start _ assms(1-3) f(2)] show ?thesis
    by (simp add: ArgParser_new_def frame_simps)
qed

text \<open>
  C23. On one machine the kqueue program run with no arguments completes: the first round of the loop
  accepts the connection, and every later round delivers one message.
\<close>

theorem kqueue_main_completes:
  assumes "clock_sane ck" and "usecs (ck 1) \<le> usecs (ck 2)" and "2001 \<le> fuel"
  shows "\<exists>w. perf_main (kqueue_main loopback_kqueue) 0 (kqueue_zero kernel_zero) ck fuel [] = Inr w \<and>
    benchmark_done 1000 ck w"
  using kqueue_roles [of 1000 ck fuel] assms by (intro main_benchmark_done) (auto simp: INT_MAX_def)

theorem kqueue_main_completes_witness:
  "\<exists>w. perf_main (kqueue_main loopback_kqueue) 0 (kqueue_zero kernel_zero) still_clock 2001 [] = Inr w \<and>
    benchmark_done 1000 still_clock w"
  by (rule kqueue_main_completes) simp_all

end
