(* ===== verification/Datagram.thy ===== *)
theory Datagram
  imports Loopback
begin

section \<open>Two datagram sockets\<close>

text \<open>
  The sockets of the two UDP programs when both roles run on one machine: the server's is bound to
  port 8000, the client's to the ephemeral port that its first send was given. \<open>udp_queues k q\<close> says
  that both are bound and which datagrams wait in them.
\<close>

fun udp_sock :: "hid \<Rightarrow> int" where
  "udp_sock ServerObj = 3"
| "udp_sock ClientObj = 4"

fun udp_addr :: "hid \<Rightarrow> 16 word" where
  "udp_addr ServerObj = 8000"
| "udp_addr ClientObj = 49152"

definition udp_queues :: "kernel \<Rightarrow> (hid \<Rightarrow> (string \<times> addr) list) \<Rightarrow> bool" where
  "udp_queues k q \<longleftrightarrow> (\<forall>h. dgram k (udp_sock h) (udp_addr h) (q h))"

lemma udp_sock_simps [simp]: "udp_sock (peer h) \<noteq> udp_sock h" "udp_sock h \<noteq> udp_sock (peer h)"
  "udp_sock h \<noteq> 5"
  by (cases h; simp)+

lemma udp_queues_sendto:
  assumes "udp_queues k (\<lambda>_. [])"
  obtains k' where "k_sendto (udp_sock h) bs (0x7F000001, udp_addr (peer h)) k = (int (length bs), k')"
    "udp_queues k' ((\<lambda>_. [])(peer h := [(bs, 0x7F000001, udp_addr h)]))" "files k' 5 = files k 5"
proof -
  have "dgram k (udp_sock h) (udp_addr h) []" "dgram k (udp_sock (peer h)) (udp_addr (peer h)) []"
    using assms by (simp_all add: udp_queues_def)
  from k_sendto_dgram [OF this, of bs] obtain k' where
    "k_sendto (udp_sock h) bs (0x7F000001, udp_addr (peer h)) k = (int (length bs), k')"
    "dgram k' (udp_sock h) (udp_addr h) []"
    "dgram k' (udp_sock (peer h)) (udp_addr (peer h)) [(bs, 0x7F000001, udp_addr h)]"
    "\<And>i. i \<noteq> udp_sock (peer h) \<Longrightarrow> files k' i = files k i" by auto
  then show ?thesis using that [of k'] by (cases h) (auto simp: udp_queues_def hid_all)
qed

lemma udp_queues_recvfrom:
  assumes "udp_queues k ((\<lambda>_. [])(h := [(bs, a)]))" and "length bs \<le> n"
  obtains k' where "k_recvfrom (udp_sock h) n k = (Some (bs, a), k')" "udp_queues k' (\<lambda>_. [])" "files k' 5 = files k 5"
proof -
  have "dgram k (udp_sock h) (udp_addr h) [(bs, a)]" "dgram k (udp_sock (peer h)) (udp_addr (peer h)) []"
    using spec [OF assms(1) [unfolded udp_queues_def], of h] spec [OF assms(1) [unfolded udp_queues_def], of "peer h"]
    by auto
  from k_recvfrom_dgram [OF this(1) assms(2)] this(2) obtain k' where
    "k_recvfrom (udp_sock h) n k = (Some (bs, a), k')" "dgram k' (udp_sock h) (udp_addr h) []"
    "\<And>i. i \<noteq> udp_sock h \<Longrightarrow> files k' i = files k i" "uports k' = uports k"
    "dgram k' (udp_sock (peer h)) (udp_addr (peer h)) []" by (metis dgram_other udp_sock_simps(1))
  then show ?thesis using that [of k'] by (cases h) (auto simp: udp_queues_def hid_all)
qed

lemma udp_queues_readable:
  assumes "udp_queues k ((\<lambda>_. [])(h := [d]))"
  shows "k_readable k 3 \<longleftrightarrow> h = ServerObj" "k_readable k 4 \<longleftrightarrow> h = ClientObj"
proof -
  have "dgram k (udp_sock g) (udp_addr g) (if g = h then [d] else [])" for g
    using assms by (auto simp: udp_queues_def)
  from k_readable_dgram [OF this [of ServerObj]] k_readable_dgram [OF this [of ClientObj]]
  show "k_readable k 3 \<longleftrightarrow> h = ServerObj" "k_readable k 4 \<longleftrightarrow> h = ClientObj" by auto
qed

end
