(* ===== verification/UdpEpollMain.thy ===== *)
theory UdpEpollMain
  imports EpollMain Datagram
begin

section \<open>The UDP transport over epoll (udpepollserver.cpp)\<close>

text \<open>
  \<open>UdpEpollMain\<close> has no connections: both sockets are registered with a handler, and a handler's
  context is a pointer to a \<open>MyContext\<close> with the socket and the address to answer to. These objects
  are local variables, of the loop's body and of \<open>connectToServer\<close>. The stack is explicit: \<open>frames\<close> has
  the live objects, leaving a scope removes its object, and a send through a pointer to a dead one
  is undefined behaviour. Addresses of frames are not reused in the model.
\<close>

record MyContext =
  ctx_fd :: int
  ctx_dest :: addr

record 'o UdpEpollMain = "'o EpollMain" +
  frames :: "nat \<Rightarrow> MyContext option"
  frame_next :: nat

type_synonym 'o udp_world = "(nat option, 'o UdpEpollMain) world"

definition udp_zero :: "'o \<Rightarrow> 'o UdpEpollMain" where
  "udp_zero s = \<lparr>listener = 0, dest = 0, server = None, client = None, loopEnd = False, os_state = s,
     heap = (\<lambda>_. None), brk = 0, frames = (\<lambda>_. None), frame_next = 0\<rparr>"

definition enter_scope :: "MyContext \<Rightarrow> 'o udp_world \<Rightarrow> nat \<times> 'o udp_world" where
  "enter_scope c w = (frame_next (main_obj w),
     w\<lparr>main_obj := (main_obj w)\<lparr>frames := (frames (main_obj w))(frame_next (main_obj w) \<mapsto> c),
       frame_next := Suc (frame_next (main_obj w))\<rparr>\<rparr>)"

definition leave_scope :: "nat \<Rightarrow> 'o udp_world \<Rightarrow> 'o udp_world" where
  "leave_scope p w = w\<lparr>main_obj := (main_obj w)\<lparr>frames := (frames (main_obj w))(p := None)\<rparr>\<rparr>"

text \<open>
  \<open>send\<close>: the test is \<open>!p | !(pContext = p->getContext())\<close>, which evaluates both sides, so a null \<open>p\<close> is
  dereferenced.
\<close>

definition udp_send ::
  "'o epoll_os \<Rightarrow> hid option \<Rightarrow> char list \<Rightarrow> int \<Rightarrow> bool \<Rightarrow> 'o udp_world \<Rightarrow> 'o udp_world result"
where
  "udp_send os p data len isDataEnd w =
     (case p of
        None \<Rightarrow> Inl (Undef ''null handler'')
      | Some h \<Rightarrow>
          (case getContext h w of
             None \<Rightarrow> Inr w
           | Some f \<Rightarrow>
               (case frames (main_obj w) f of
                  None \<Rightarrow> Inl (Undef ''dangling context'')
                | Some c \<Rightarrow>
                    if 0 \<le> len \<and> nat len \<le> length data
                    then Inr (snd (sys (os_sendto os (ctx_fd c) (take (nat len) data) (ctx_dest c)) w))
                    else Inl (Undef ''send reads out of bounds''))))"

definition udp_cancelLoop :: "'o udp_world \<Rightarrow> 'o udp_world" where
  "udp_cancelLoop w = tcp_cancelLoop w"

definition udp_parent :: "'o epoll_os \<Rightarrow> 'o udp_world parent_ops" where
  "udp_parent os = \<lparr>em_send = udp_send os, em_cancelLoop = udp_cancelLoop\<rparr>"

definition udp_event_body ::
  "'o epoll_os \<Rightarrow> epoll_event \<Rightarrow> 'o udp_world \<Rightarrow> (bool \<times> 'o udp_world) result"
where
  "udp_event_body os ev w =
     (if ev_err ev \<or> ev_hup ev \<or> \<not> ev_in ev
      then rbind (epoll_close_delete os (ev_ptr ev) w) (\<lambda>w. Inr (False, w))
      else rbind (epoll_deref (ev_ptr ev) w) (\<lambda>data.
        let (r, w) = sys (os_recvfrom os (fd data) 1024) w
        in case r of
             None \<Rightarrow> rbind (epoll_close_delete os (ev_ptr ev) w) (\<lambda>w. Inr (False, w))
           | Some (bs, si_from) \<Rightarrow>
               if bs = [] then rbind (epoll_close_delete os (ev_ptr ev) w) (\<lambda>w. Inr (True, w))
               else (case pHandler data of
                       None \<Rightarrow> Inr (False, w)
                     | Some h \<Rightarrow>
                         (case enter_scope \<lparr>ctx_fd = fd data, ctx_dest = si_from\<rparr> w of (f, w) \<Rightarrow>
                            rbind (handler_process (udp_parent os) h (recv_into (replicate 1024 None) bs)
                                     (int (length bs)) True (setContext h (Some f) w))
                              (\<lambda>w. Inr (False, leave_scope f w))))))"

fun udp_events :: "'o epoll_os \<Rightarrow> epoll_event list \<Rightarrow> 'o udp_world \<Rightarrow> 'o udp_world result" where
  "udp_events os [] w = Inr w"
| "udp_events os (ev # evs) w =
     rbind (udp_event_body os ev w) (\<lambda>(left_loop, w). if left_loop then Inr w else udp_events os evs w)"

definition udp_iter :: "'o epoll_os \<Rightarrow> int \<Rightarrow> 'o udp_world \<Rightarrow> 'o udp_world result" where
  "udp_iter os efd w =
     (let (evs, w) = sys (os_epoll_wait os efd MAXEVENTS) w
      in case evs of None \<Rightarrow> Inl (Blocked ''epoll_wait'') | Some evs \<Rightarrow> udp_events os evs w)"

definition udp_ended :: "'o udp_world \<Rightarrow> bool" where
  "udp_ended w \<longleftrightarrow> loopEnd (main_obj w)"

definition udp_prepare :: "'o epoll_os \<Rightarrow> 'o udp_world \<Rightarrow> (int \<times> 'o udp_world) result" where
  "udp_prepare os w =
     (let (efd, w) = sys (os_epoll_create1 os) w
      in if efd = -1 then Inl (Exit 1 ''epoll_create'')
         else rbind (epoll_add_or_exit os efd (listener (main_obj w)) (server (main_obj w)) w) (\<lambda>w.
              rbind (epoll_add_or_exit os efd (dest (main_obj w)) (client (main_obj w)) w) (\<lambda>w.
              Inr (efd, w))))"

definition udp_process :: "'o epoll_os \<Rightarrow> nat \<Rightarrow> 'o udp_world \<Rightarrow> 'o udp_world result" where
  "udp_process os fuel w =
     rbind (udp_prepare os w) (\<lambda>(efd, w).
     rbind (run_loop udp_ended (udp_iter os efd) fuel w) (\<lambda>w.
     Inr (sys_do (os_close os (listener (main_obj w))) w)))"

definition udp_initialize :: "'o udp_world \<Rightarrow> 'o udp_world" where
  "udp_initialize w = tcp_initialize w"

definition udp_bindServer :: "'o epoll_os \<Rightarrow> string \<Rightarrow> hid \<Rightarrow> 'o udp_world \<Rightarrow> 'o udp_world result" where
  "udp_bindServer os port h w =
     rbind (sin_port port) (\<lambda>p.
     let (l, w) = sys (os_socket_dgram os) w;
         w = w\<lparr>main_obj := (main_obj w)\<lparr>listener := l, server := Some h\<rparr>\<rparr>;
         w = setParent h w;
         w = sys_do (os_nonblock os l) w;
         w = sys_do (os_reuseaddr os l) w;
         (bound, w) = sys (os_bind os l 0 p) w
     in Inr w)"

definition udp_connectToServer ::
  "'o epoll_os \<Rightarrow> string \<Rightarrow> string \<Rightarrow> hid \<Rightarrow> 'o udp_world \<Rightarrow> 'o udp_world result"
where
  "udp_connectToServer os address port h w =
     rbind (sin_port port) (\<lambda>p.
     let a = (case inet_pton address of None \<Rightarrow> 0 | Some a \<Rightarrow> a);
         (sockfd, w) = sys (os_socket_dgram os) w;
         (f, w) = enter_scope \<lparr>ctx_fd = sockfd, ctx_dest = (a, p)\<rparr> w;
         w = w\<lparr>main_obj := (main_obj w)\<lparr>client := Some h, dest := sockfd\<rparr>\<rparr>;
         w = setParent h w;
         w = setContext h (Some f) w;
         w = sys_do (os_nonblock os sockfd) w
     in rbind (handler_enable (udp_parent os) h w) (\<lambda>w. Inr (leave_scope f w)))"

definition udp_main :: "'o epoll_os \<Rightarrow> 'o udp_world EventMain" where
  "udp_main os = \<lparr>em_send = udp_send os, em_cancelLoop = udp_cancelLoop, em_initialize = udp_initialize,
     em_bindServer = udp_bindServer os, em_connectToServer = udp_connectToServer os,
     em_process = udp_process os\<rparr>"

subsection \<open>No dangling pointers\<close>

text \<open>The datagram calls leave the interest lists alone, as every call but those on them does.\<close>

locale udp_kernel = epoll_kernel os interest
  for os :: "'o epoll_os" and interest :: "int \<Rightarrow> 'o \<Rightarrow> (int \<times> nat) set" +
  assumes recvfrom_keeps: "os_recvfrom os sock n s = (r, s') \<Longrightarrow> interest efd s' = interest efd s"
    and sendto_keeps: "os_sendto os sock ds a s = (m, s') \<Longrightarrow> interest efd s' = interest efd s"
begin

definition ctx_live :: "hid \<Rightarrow> 'o udp_world \<Rightarrow> bool" where
  "ctx_live h w \<longleftrightarrow> (\<exists>f c. getContext h w = Some f \<and> frames (main_obj w) f = Some c)"

lemma ctx_live_send:
  assumes "ctx_live h w" and "udp_send os (Some h) d n e w = Inr w'"
  shows "\<exists>c :: MyContext. w' = snd (sys (os_sendto os (ctx_fd c) (take (nat n) d) (ctx_dest c)) w)" "ctx_live h w'"
proof -
  from assms(1) obtain f c where fc: "getContext h w = Some f" "frames (main_obj w) f = Some c"
    by (auto simp: ctx_live_def)
  have w': "w' = snd (sys (os_sendto os (ctx_fd c) (take (nat n) d) (ctx_dest c)) w)"
    using assms(2) fc by (auto simp: udp_send_def split: if_splits)
  then show "\<exists>c :: MyContext. w' = snd (sys (os_sendto os (ctx_fd c) (take (nat n) d) (ctx_dest c)) w)" by blast
  show "ctx_live h w'"
    using fc by (auto simp: w' ctx_live_def sys_def split: prod.splits)
qed

text \<open>A handler whose context is live keeps the invariant and reaches no dead object.\<close>

lemma udp_keeps:
  assumes net: "\<And>w w'. net_of w = net_of w' \<Longrightarrow> Q w \<Longrightarrow> Q w'"
    and sendto: "\<And>w (c :: MyContext) d. Q w \<Longrightarrow> Q (snd (sys (os_sendto os (ctx_fd c) d (ctx_dest c)) w))"
    and cancel: "\<And>w. Q w \<Longrightarrow> Q (tcp_cancelLoop w)"
  shows "transport_keeps h (udp_parent os) epoll_failures (\<lambda>w. Q w \<and> ctx_live h w)"
  unfolding transport_keeps_def
proof (intro conjI allI impI, goal_cases)
  case 1
  then show ?case by (auto simp: epoll_failures_def)
next
  case (2 w w')
  then show ?case using net by blast
next
  case (3 w w')
  then show ?case by (cases h) (auto simp: ctx_live_def net_of_def)
next
  case (4 d n e w)
  show ?case
  proof (cases "udp_send os (Some h) d n e w")
    case (Inl x)
    then have "x = Undef ''send reads out of bounds''"
      using 4 by (auto simp: udp_send_def ctx_live_def split: if_splits)
    then show ?thesis using Inl by (simp add: udp_parent_def epoll_failures_def)
  next
    case (Inr w')
    then show ?thesis using 4 ctx_live_send [OF _ Inr] sendto by (auto simp: udp_parent_def)
  qed
next
  case (5 w)
  then show ?case using cancel by (simp add: udp_parent_def udp_cancelLoop_def)
next
  case (6 w)
  then show ?case by (simp add: udp_parent_def udp_cancelLoop_def tcp_cancelLoop_def ctx_live_def)
qed

lemma heap_ok_sendto: "heap_ok efd pend w \<Longrightarrow> heap_ok efd pend (snd (sys (os_sendto os s d a) w))"
  using heap_ok_sys [OF _ surjective_pairing] sendto_keeps by blast

lemma heap_ok_cancel: "heap_ok efd pend (tcp_cancelLoop w) = heap_ok efd pend w"
  by (simp add: heap_ok_def tcp_cancelLoop_def)

lemma udp_heap_keeps: "transport_keeps h (udp_parent os) epoll_failures (\<lambda>w. heap_ok efd pend w \<and> ctx_live h w)"
  by (rule udp_keeps [where Q = "heap_ok efd pend"])
    (auto intro: heap_ok_net heap_ok_sendto simp: heap_ok_cancel)

lemma heap_ok_enter:
  "heap_ok efd pend w \<Longrightarrow> enter_scope c w = (f, v) \<Longrightarrow>
   heap_ok efd pend (setContext h (Some f) v) \<and> ctx_live h (setContext h (Some f) v)"
  by (auto simp: heap_ok_def enter_scope_def ctx_live_def)

lemma heap_ok_leave: "heap_ok efd pend (leave_scope f w) = heap_ok efd pend w"
  by (simp add: heap_ok_def leave_scope_def)

lemma udp_event_safe:
  assumes ok: "heap_ok efd (ev_ptr ev # pend) w"
  shows "post epoll_failures (\<lambda>(b, w). heap_ok efd pend w) (udp_event_body os ev w)"
proof -
  obtain d where d: "heap (main_obj w) (ev_ptr ev) = Some d" using ok by (auto simp: heap_ok_def)
  have del: "post epoll_failures (\<lambda>(b, w). heap_ok efd pend w)
      (rbind (epoll_close_delete os (ev_ptr ev) v) (\<lambda>w. Inr (b, w)))"
    if "heap_ok efd (ev_ptr ev # pend) v" for v b
    by (rule post_bind [OF heap_ok_close_delete [OF that]]) simp
  have recv: "heap_ok efd (ev_ptr ev # pend) v" if "sys (os_recvfrom os (fd d) 1024) w = (r, v)" for r v
    using heap_ok_sys [OF ok that] recvfrom_keeps by blast
  have handle: "post epoll_failures (\<lambda>(b, w). heap_ok efd pend w)
      (rbind (handler_process (udp_parent os) h buf n True (setContext h (Some f) u))
        (\<lambda>w. Inr (False, leave_scope f w)))"
    if "sys (os_recvfrom os (fd d) 1024) w = (r, v)" "enter_scope c v = (f, u)" for h buf n c v f u r
    by (rule post_bind [OF post_handler_process [OF udp_heap_keeps]])
      (use heap_ok_enter [OF heap_ok_less(1) [OF recv [OF that(1)]] that(2)] in \<open>auto simp: heap_ok_leave\<close>)
  show ?thesis
    using ok d by (auto simp: udp_event_body_def epoll_deref_def Let_def split: prod.splits option.splits
        intro!: del intro: handle recv heap_ok_less(1) [OF recv])
qed

lemma udp_events_safe:
  "heap_ok efd (map ev_ptr evs) w \<Longrightarrow> post epoll_failures (heap_ok efd []) (udp_events os evs w)"
proof (induction evs arbitrary: w)
  case (Cons ev evs)
  then have "post epoll_failures (\<lambda>(b, w). heap_ok efd (map ev_ptr evs) w) (udp_event_body os ev w)"
    by (intro udp_event_safe) simp
  then show ?case using Cons.IH by (auto intro!: post_bind intro: heap_ok_less(2))
qed simp

lemma udp_iter_safe:
  assumes ok: "heap_ok efd [] w"
  shows "post epoll_failures (heap_ok efd []) (udp_iter os efd w)"
proof -
  obtain evs s' where e: "os_epoll_wait os efd MAXEVENTS (os_state (main_obj w)) = (evs, s')" by fastforce
  show ?thesis
    using e udp_events_safe heap_ok_wait [OF ok, of MAXEVENTS _ s']
    by (cases evs) (auto simp: udp_iter_def sys_def)
qed

lemma udp_process_safe:
  assumes "heap_fresh w"
  shows "post epoll_failures (\<lambda>_. True) (udp_process os fuel w)"
proof -
  obtain efd s' where c: "os_epoll_create1 os (os_state (main_obj w)) = (efd, s')" by fastforce
  have prep: "post epoll_failures (\<lambda>(efd, w). heap_ok efd [] w) (udp_prepare os w)"
    using c heap_ok_created [OF assms c] unfolding udp_prepare_def sys_def
    by (auto intro!: post_bind [OF heap_ok_add_or_exit])
  have loop: "post epoll_failures (heap_ok efd []) (run_loop udp_ended (udp_iter os efd) fuel v)"
    if "heap_ok efd [] v" for efd v
    by (rule run_loop_post [OF udp_iter_safe that]) simp_all
  show ?thesis unfolding udp_process_def by (auto intro!: post_bind [OF prep] post_bind [OF loop])
qed

lemma udp_fresh_keeps: "transport_keeps h (udp_parent os) epoll_failures (\<lambda>w. heap_fresh w \<and> ctx_live h w)"
  by (rule udp_keeps [where Q = heap_fresh])
    (auto simp: heap_fresh_def net_of_def sys_def tcp_cancelLoop_def split: prod.splits)

lemma udp_bindServer_fresh:
  assumes "heap_fresh w"
  shows "post epoll_failures heap_fresh (udp_bindServer os port h w)"
  unfolding udp_bindServer_def using assms
  by (intro post_bind [OF post_sin_port])
    (auto simp: heap_fresh_def sys_def sys_do_def Let_def split: prod.splits)

lemma udp_connectToServer_fresh:
  assumes "heap_fresh w"
  shows "post epoll_failures heap_fresh (udp_connectToServer os address port h w)"
proof -
  have en: "post epoll_failures heap_fresh (rbind (handler_enable (udp_parent os) h v) (\<lambda>w. Inr (leave_scope f w)))"
    if "heap_fresh v \<and> ctx_live h v" for v f
  proof (rule post_bind [where Q = "\<lambda>w. heap_fresh w \<and> ctx_live h w"])
    show "post epoll_failures (\<lambda>w. heap_fresh w \<and> ctx_live h w) (handler_enable (udp_parent os) h v)"
    proof (cases h)
      case ClientObj
      then show ?thesis using post_EchoClient_sendData [OF udp_fresh_keeps] that by (simp add: EchoClient_enable_def)
    qed (use that in simp)
  qed (auto simp: heap_fresh_def leave_scope_def)
  show ?thesis unfolding udp_connectToServer_def using assms
    by (intro post_bind [OF post_sin_port])
      (auto simp: Let_def enter_scope_def sys_def sys_do_def split: prod.splits intro!: en,
       auto simp: heap_fresh_def ctx_live_def)
qed

lemma udp_main_safe:
  "post (insert (Exit 1 usage) epoll_failures) (\<lambda>_. True) (perf_main (udp_main os) None (udp_zero s) ck fuel argv)"
  by (rule post_perf_main [where ?Q0.0 = heap_fresh and Q = heap_fresh])
    (simp_all add: udp_main_def udp_bindServer_fresh udp_connectToServer_fresh udp_process_safe heap_fresh_def
      udp_initialize_def tcp_initialize_def start_world_def udp_zero_def)

end

lemma k_dgram_interest: "dgram_change (files k efd) (files k' efd) \<Longrightarrow> k_interest efd k' = k_interest efd k"
  by (auto simp: dgram_change_def k_interest_def)

interpretation loopback_udp: udp_kernel loopback_epoll k_interest
  by unfold_locales
    (simp_all add: loopback_epoll_def k_dgram_interest [OF k_recvfrom_files] k_dgram_interest [OF k_sendto_files])

text \<open>
  C12. For every operating system whose epoll behaves as documented and every command line: no run of
  the UDP program over epoll sends through a pointer to a local variable whose scope was left, calls
  through a null handler, or touches a \<open>MyEventData\<close> after it was deleted.
\<close>

theorem udp_no_dangling:
  assumes "udp_kernel os interest"
  shows "perf_main (udp_main os) None (udp_zero s) ck fuel argv
     \<notin> {Inl (Undef ''dangling context''), Inl (Undef ''null handler''),
        Inl (Undef ''use after free''), Inl (Undef ''double free'')}"
  using udp_kernel.udp_main_safe [OF assms, of s ck fuel argv]
  by (auto simp: post_def epoll_kernel.epoll_failures_def [OF udp_kernel.axioms(1) [OF assms]]
      handler_failures_def usage_def)

theorem udp_no_dangling_witness:
  "perf_main (udp_main loopback_epoll) None (udp_zero kernel_zero) still_clock 10 [''-s'']
     \<notin> {Inl (Undef ''dangling context''), Inl (Undef ''null handler''),
        Inl (Undef ''use after free''), Inl (Undef ''double free'')}"
  by (rule udp_no_dangling [OF loopback_udp.udp_kernel_axioms])

subsection \<open>The contract\<close>

text \<open>
  The state between two rounds of the loop: both sockets are registered with their handlers.
\<close>

fun udp_ptr :: "hid \<Rightarrow> nat" where
  "udp_ptr ServerObj = 0"
| "udp_ptr ClientObj = 1"

definition udp_wf :: "kernel udp_world \<Rightarrow> bool" where
  "udp_wf w \<longleftrightarrow> (let m = main_obj w; k = os_state m in
     \<not> loopEnd m \<and> (\<forall>h. getParent h w = Some MainProcessor) \<and> files k 5 = Some (EpollFile [(3, 0), (4, 1)]) \<and>
     (\<forall>h. heap m (udp_ptr h) = Some \<lparr>fd = udp_sock h, pHandler = Some h\<rparr>))"

definition udp_busy :: "hid \<Rightarrow> kernel udp_world \<Rightarrow> bool" where
  "udp_busy h w \<longleftrightarrow> udp_wf w \<and> udp_queues (os_state (main_obj w)) (\<lambda>_. []) \<and>
     (\<exists>f. getContext h w = Some f \<and>
       frames (main_obj w) f = Some \<lparr>ctx_fd = udp_sock h, ctx_dest = (0x7F000001, udp_addr (peer h))\<rparr>)"

definition udp_inflight :: "hid \<Rightarrow> char list \<Rightarrow> kernel udp_world \<Rightarrow> bool" where
  "udp_inflight h m w \<longleftrightarrow> udp_wf w \<and> m \<in> {client_message, server_message} \<and>
     udp_queues (os_state (main_obj w)) ((\<lambda>_. [])(h := [(m, 0x7F000001, udp_addr (peer h))]))"

lemmas udp_state = udp_wf_def udp_busy_def udp_inflight_def

lemma udp_send_busy:
  assumes "udp_busy h w" and "m \<in> {client_message, server_message}"
  shows "\<exists>w1. udp_send loopback_epoll (Some h) m (int (length m)) True w = Inr w1 \<and>
    udp_inflight (peer h) m w1 \<and> app_of w1 = app_of w"
proof -
  let ?k = "os_state (main_obj w)"
  from assms(1) obtain f where f: "getContext h w = Some f"
    "frames (main_obj w) f = Some \<lparr>ctx_fd = udp_sock h, ctx_dest = (0x7F000001, udp_addr (peer h))\<rparr>"
    and q: "udp_queues ?k (\<lambda>_. [])" by (auto simp: udp_busy_def)
  from udp_queues_sendto [OF q, of h m] obtain k' where
    k': "k_sendto (udp_sock h) m (0x7F000001, udp_addr (peer h)) ?k = (int (length m), k')"
    "udp_queues k' ((\<lambda>_. [])(peer h := [(m, 0x7F000001, udp_addr h)]))" "files k' 5 = files ?k 5" by blast
  let ?w = "w\<lparr>main_obj := (main_obj w)\<lparr>os_state := k'\<rparr>\<rparr>"
  have "udp_send loopback_epoll (Some h) m (int (length m)) True w = Inr ?w"
    using f k'(1) by (simp add: udp_send_def sys_def loopback_epoll_def)
  moreover have "udp_inflight (peer h) m ?w"
    using assms k'(2,3) by (auto simp: udp_state Let_def)
  ultimately show ?thesis by (auto simp: frame_simps)
qed

lemma udp_wait_inflight:
  assumes "udp_inflight h m w"
  shows "k_epoll_wait 5 MAXEVENTS (os_state (main_obj w)) =
    (Some [\<lparr>ev_err = False, ev_hup = False, ev_in = True, ev_ptr = udp_ptr h\<rparr>], os_state (main_obj w))"
proof -
  let ?k = "os_state (main_obj w)"
  have "k_readable ?k 3 \<longleftrightarrow> h = ServerObj" "k_readable ?k 4 \<longleftrightarrow> h = ClientObj"
    using assms udp_queues_readable by (auto simp: udp_inflight_def)
  moreover have "files ?k 5 = Some (EpollFile [(3, 0), (4, 1)])" using assms by (simp add: udp_state Let_def)
  ultimately show ?thesis
    by (cases h) (simp_all add: k_epoll_wait_def MAXEVENTS_def)
qed

lemma udp_iter_inflight:
  assumes "udp_inflight h m w"
  shows "\<exists>w1 rest n f. udp_iter loopback_epoll 5 w =
      rbind (handler_process (udp_parent loopback_epoll) h (map Some m @ rest) n True w1) (\<lambda>v. Inr (leave_scope f v)) \<and>
      udp_busy h w1 \<and> app_of w1 = app_of w"
proof -
  let ?k = "os_state (main_obj w)" and ?a = "(0x7F000001, udp_addr (peer h)) :: addr"
  have m: "m \<noteq> []" "length m = 19" using assms by (auto simp: udp_inflight_def client_message_def server_message_def)
  from assms m(2) udp_queues_recvfrom [of ?k h m ?a 1024] obtain k' where
    k': "k_recvfrom (udp_sock h) 1024 ?k = (Some (m, ?a), k')" "udp_queues k' (\<lambda>_. [])" "files k' 5 = files ?k 5"
    by (auto simp: udp_inflight_def)
  let ?v = "w\<lparr>main_obj := (main_obj w)\<lparr>os_state := k'\<rparr>\<rparr>" and ?c = "\<lparr>ctx_fd = udp_sock h, ctx_dest = ?a\<rparr>"
  let ?f = "fst (enter_scope ?c ?v)" and ?w = "setContext h (Some (fst (enter_scope ?c ?v))) (snd (enter_scope ?c ?v))"
  have "udp_busy h ?w" using assms k'(2,3) by (auto simp: udp_state Let_def enter_scope_def)
  moreover have "app_of ?w = app_of w" by (simp add: enter_scope_def frame_simps)
  moreover have "heap (main_obj w) (udp_ptr h) = Some \<lparr>fd = udp_sock h, pHandler = Some h\<rparr>"
    using assms by (simp add: udp_state Let_def)
  then have "udp_iter loopback_epoll 5 w = rbind (handler_process (udp_parent loopback_epoll) h
      (map Some m @ replicate 1005 None) 19 True ?w) (\<lambda>v. Inr (leave_scope ?f v))"
    using m k'(1) udp_wait_inflight [OF assms]
    by (simp add: udp_iter_def sys_def loopback_epoll_def udp_event_body_def epoll_deref_def recv_into_def
        enter_scope_def rbind_assoc res_simps)
  ultimately show ?thesis by blast
qed

interpretation udp: scoped_transport "udp_parent loopback_epoll" "udp_iter loopback_epoll 5" udp_ended
  udp_inflight udp_busy
proof (unfold_locales, goal_cases)
  case (1 w w' h m)
  then show ?case using net_of_eqD [OF 1(1)] by (simp add: udp_state)
next
  case (2 w w' h)
  then show ?case using net_of_eqD [OF 2(1)] by (simp add: udp_state)
next
  case (3 h m w)
  then show ?case by (simp add: udp_state udp_ended_def Let_def)
next
  case (4 h w)
  then show ?case by (simp add: udp_state Let_def)
next
  case (5 h w m)
  then show ?case using udp_send_busy by (simp add: udp_parent_def)
next
  case (8 h m w)
  have leave: "app_of (leave_scope f v) = app_of v \<and> (udp_ended v \<longrightarrow> udp_ended (leave_scope f v)) \<and>
      (\<forall>h' m'. udp_inflight h' m' v \<longrightarrow> udp_inflight h' m' (leave_scope f v))" for f and v :: "kernel udp_world"
    by (simp add: leave_scope_def frame_simps udp_ended_def udp_state Let_def)
  from udp_iter_inflight [OF 8] leave show ?case by blast
qed (simp_all add: udp_parent_def udp_cancelLoop_def tcp_cancelLoop_def udp_ended_def frame_simps)

subsection \<open>The program over this transport\<close>

lemmas udp_setup_simps = udp_main_def udp_bindServer_def udp_initialize_def tcp_initialize_def start_world_def
  udp_zero_def udp_connectToServer_def EchoClient_new_def EchoServer_new_def EventHandler_new_def sys_def sys_do_def
  loopback_epoll_def enter_scope_def leave_scope_def

lemma udp_setup:
  "\<exists>w1 w2 w3. em_bindServer (udp_main loopback_epoll) ''8000'' ServerObj
       (em_initialize (udp_main loopback_epoll) (start_world None (udp_zero kernel_zero) ck (int N))) = Inr w1 \<and>
     em_connectToServer (udp_main loopback_epoll) ''127.0.0.1'' ''8000'' ClientObj w1 = Inr w2 \<and>
     udp_prepare loopback_epoll w2 = Inr (5, w3) \<and>
     udp_inflight ServerObj client_message w3 \<and> awaiting 0 N ck w3"
  by (simp add: udp_setup_simps kernel_ops res_simps Let_def EchoClient_enable_def EchoClient_sendData_def
      EventHandler_send_def udp_parent_def udp_send_def int_ok_def INT_MAX_def udp_prepare_def
      epoll_add_or_exit_def epoll_register_def epoll_new_def k_epoll_ctl_add_def k_sendto_def k_receivers_def
      local_addr_def udp_state udp_queues_def dgram_def hid_all app_defs)

lemma udp_roles:
  assumes "0 < N" and "int N \<le> INT_MAX" and "clock_sane ck" and "2 * N \<le> fuel"
  shows "\<exists>w'. run_roles (udp_main loopback_epoll) fuel ArgParser_new
      (em_initialize (udp_main loopback_epoll) (start_world None (udp_zero kernel_zero) ck (int N))) = Inr w' \<and>
    finished N ck w'"
proof -
  let ?V = "udp_main loopback_epoll" and ?a = ArgParser_new
  have a: "pPort ?a = ''8000''" "pAddress ?a = ''127.0.0.1''" by (simp_all add: ArgParser_new_def)
  from udp_setup [of ck N] obtain w1 w2 w3 where
    s: "em_bindServer ?V (pPort ?a) ServerObj (em_initialize ?V (start_world None (udp_zero kernel_zero) ck (int N))) = Inr w1"
      "em_connectToServer ?V (pAddress ?a) (pPort ?a) ClientObj w1 = Inr w2"
    and loop: "udp_prepare loopback_epoll w2 = Inr (5, w3)"
    and start: "udp_inflight ServerObj client_message w3" "awaiting 0 N ck w3" unfolding a by blast
  have "em_process ?V fuel w2 = rbind (run_loop udp_ended (udp_iter loopback_epoll 5) fuel w3)
      (\<lambda>w. Inr (sys_do (os_close loopback_epoll (listener (main_obj w))) w))"
    using loop by (simp add: udp_main_def udp_process_def)
  from udp.roles_complete [OF s this start _ assms] show ?thesis
    by (simp add: ArgParser_new_def frame_simps)
qed

text \<open>
  C25. On one machine, whose datagrams are not lost, the UDP program over epoll run with no arguments
  completes: every round of the loop delivers one message, and the answers go to the addresses that
  the datagrams came from.
\<close>

theorem udp_main_completes:
  assumes "clock_sane ck" and "usecs (ck 1) \<le> usecs (ck 2)" and "2000 \<le> fuel"
  shows "\<exists>w. perf_main (udp_main loopback_epoll) None (udp_zero kernel_zero) ck fuel [] = Inr w \<and>
    benchmark_done 1000 ck w"
  using udp_roles [of 1000 ck fuel] assms by (intro main_benchmark_done) (auto simp: INT_MAX_def)

theorem udp_main_completes_witness:
  "\<exists>w. perf_main (udp_main loopback_epoll) None (udp_zero kernel_zero) still_clock 2000 [] = Inr w \<and>
    benchmark_done 1000 still_clock w"
  by (rule udp_main_completes) simp_all

end
