(* ===== verification/UdpKqueueMain.thy ===== *)
theory UdpKqueueMain
  imports KqueueMain Datagram
begin

section \<open>The UDP transport over kqueue (udpkqueueserver.cpp)\<close>

text \<open>
  \<open>UdpKQueueMain\<close> is the kqueue counterpart of the UDP server over epoll. Here a context has a pointer
  to the address to answer to, so two local variables have to be alive when a handler sends: the
  \<open>MyContext\<close> and the \<open>sockaddr_in\<close>. \<open>stack\<close> has the live objects; a pointer to an object whose scope
  was left, or to an object of the other type, is never followed without being noticed.
\<close>

datatype stack_obj =
    SockAddrObj addr
  | ContextObj int nat

record 'o UdpKQueueMain = "'o TcpMain" +
  stack :: "nat \<Rightarrow> stack_obj option"
  stack_next :: nat

type_synonym 'o udpkq_world = "(nat option, 'o UdpKQueueMain) world"

definition udpkq_zero :: "'o \<Rightarrow> 'o UdpKQueueMain" where
  "udpkq_zero s = \<lparr>listener = 0, dest = 0, server = None, client = None, loopEnd = False, os_state = s,
     stack = (\<lambda>_. None), stack_next = 0\<rparr>"

definition stack_enter :: "stack_obj \<Rightarrow> 'o udpkq_world \<Rightarrow> nat \<times> 'o udpkq_world" where
  "stack_enter x w = (stack_next (main_obj w),
     w\<lparr>main_obj := (main_obj w)\<lparr>stack := (stack (main_obj w))(stack_next (main_obj w) \<mapsto> x),
       stack_next := Suc (stack_next (main_obj w))\<rparr>\<rparr>)"

definition stack_leave :: "nat \<Rightarrow> 'o udpkq_world \<Rightarrow> 'o udpkq_world" where
  "stack_leave p w = w\<lparr>main_obj := (main_obj w)\<lparr>stack := (stack (main_obj w))(p := None)\<rparr>\<rparr>"

text \<open>The socket and the address that a context pointer stands for; \<open>None\<close> when a pointer dangles.\<close>

definition stack_target :: "(nat \<Rightarrow> stack_obj option) \<Rightarrow> nat \<Rightarrow> (int \<times> addr) option" where
  "stack_target st p = (case st p of
     Some (ContextObj sock pdest) \<Rightarrow> (case st pdest of Some (SockAddrObj a) \<Rightarrow> Some (sock, a) | _ \<Rightarrow> None)
   | _ \<Rightarrow> None)"

definition udpkq_send ::
  "'o kqueue_os \<Rightarrow> hid option \<Rightarrow> char list \<Rightarrow> int \<Rightarrow> bool \<Rightarrow> 'o udpkq_world \<Rightarrow> 'o udpkq_world result"
where
  "udpkq_send os p data len isDataEnd w =
     (case p of
        None \<Rightarrow> Inl (Undef ''null handler'')
      | Some h \<Rightarrow>
          (case getContext h w of
             None \<Rightarrow> Inr w
           | Some f \<Rightarrow>
               (case stack_target (stack (main_obj w)) f of
                  None \<Rightarrow> Inl (Undef ''dangling context'')
                | Some (sock, to) \<Rightarrow>
                    if 0 \<le> len \<and> nat len \<le> length data
                    then Inr (snd (sys (os_sendto os sock (take (nat len) data) to) w))
                    else Inl (Undef ''send reads out of bounds''))))"

definition udpkq_cancelLoop :: "'o udpkq_world \<Rightarrow> 'o udpkq_world" where
  "udpkq_cancelLoop w = tcp_cancelLoop w"

definition udpkq_parent :: "'o kqueue_os \<Rightarrow> 'o udpkq_world parent_ops" where
  "udpkq_parent os = \<lparr>em_send = udpkq_send os, em_cancelLoop = udpkq_cancelLoop\<rparr>"

text \<open>
  One event. The scope of \<open>si_from\<close> is the body of the loop, that of \<open>fromcontext\<close> the block around the
  call; no other path than that block refers to them.
\<close>

definition udpkq_event_body ::
  "'o kqueue_os \<Rightarrow> kevent \<Rightarrow> 'o udpkq_world \<Rightarrow> (bool \<times> 'o udpkq_world) result"
where
  "udpkq_event_body os ev w =
     (if ke_error ev then Inl (Exit 1 ''EVERROR'')
      else let (r, w) = sys (os_recvfrom os (ke_ident ev) 1024) w
           in case r of
                None \<Rightarrow> Inr (False, sys_do (os_close os (ke_ident ev)) w)
              | Some (bs, from) \<Rightarrow>
                  if bs = [] then Inr (True, sys_do (os_close os (ke_ident ev)) w)
                  else (case ke_udata ev of
                          None \<Rightarrow> Inr (False, w)
                        | Some h \<Rightarrow>
                            (case stack_enter (SockAddrObj from) w of (si_from, w) \<Rightarrow>
                             case stack_enter (ContextObj (ke_ident ev) si_from) w of (fromcontext, w) \<Rightarrow>
                               rbind (handler_process (udpkq_parent os) h (recv_into (replicate 1024 None) bs)
                                        (int (length bs)) True (setContext h (Some fromcontext) w))
                                 (\<lambda>w. Inr (False, stack_leave si_from (stack_leave fromcontext w))))))"

fun udpkq_events :: "'o kqueue_os \<Rightarrow> kevent list \<Rightarrow> 'o udpkq_world \<Rightarrow> 'o udpkq_world result" where
  "udpkq_events os [] w = Inr w"
| "udpkq_events os (ev # evs) w =
     rbind (udpkq_event_body os ev w) (\<lambda>(left_loop, w). if left_loop then Inr w else udpkq_events os evs w)"

definition udpkq_max_events :: nat where "udpkq_max_events = 64"

definition udpkq_iter :: "'o kqueue_os \<Rightarrow> int \<Rightarrow> 'o udpkq_world \<Rightarrow> 'o udpkq_world result" where
  "udpkq_iter os kqfd w =
     (let (r, w) = sys (os_kevent_wait os kqfd udpkq_max_events) w
      in case r of
           KqBlocks \<Rightarrow> Inl (Blocked ''kevent'')
         | KqError \<Rightarrow> Inl (Exit 1 ''kevent main'')
         | KqEvents evs \<Rightarrow> udpkq_events os evs w)"

definition udpkq_ended :: "'o udpkq_world \<Rightarrow> bool" where
  "udpkq_ended w \<longleftrightarrow> loopEnd (main_obj w)"

definition udpkq_prepare :: "'o kqueue_os \<Rightarrow> 'o udpkq_world \<Rightarrow> (int \<times> 'o udpkq_world) result" where
  "udpkq_prepare os w =
     (let (kqfd, w) = sys (os_kqueue os) w
      in if kqfd = -1 then Inl (Exit 1 ''kqueue'')
         else rbind (if listener (main_obj w) \<noteq> -1
                     then kq_add_or_die os kqfd (listener (main_obj w)) (server (main_obj w)) w else Inr w) (\<lambda>w.
              rbind (if dest (main_obj w) \<noteq> -1
                     then kq_add_or_die os kqfd (dest (main_obj w)) (client (main_obj w)) w else Inr w) (\<lambda>w.
              Inr (kqfd, w))))"

definition udpkq_process :: "'o kqueue_os \<Rightarrow> nat \<Rightarrow> 'o udpkq_world \<Rightarrow> 'o udpkq_world result" where
  "udpkq_process os fuel w =
     rbind (udpkq_prepare os w) (\<lambda>(kqfd, w).
     rbind (run_loop udpkq_ended (udpkq_iter os kqfd) fuel w) (\<lambda>w.
     Inr (sys_do (os_close os (listener (main_obj w))) w)))"

definition udpkq_initialize :: "'o udpkq_world \<Rightarrow> 'o udpkq_world" where
  "udpkq_initialize w = tcp_initialize w"

definition udpkq_bindServer :: "'o kqueue_os \<Rightarrow> string \<Rightarrow> hid \<Rightarrow> 'o udpkq_world \<Rightarrow> 'o udpkq_world result" where
  "udpkq_bindServer os port h w =
     rbind (sin_port port) (\<lambda>p.
     let (l, w) = sys (os_socket_dgram os) w;
         w = w\<lparr>main_obj := (main_obj w)\<lparr>listener := l, server := Some h\<rparr>\<rparr>;
         w = setParent h w;
         w = sys_do (os_nonblock os l) w;
         w = sys_do (os_reuseaddr os l) w;
         (bound, w) = sys (os_bind os l 0 p) w
     in Inr w)"

definition udpkq_connectToServer ::
  "'o kqueue_os \<Rightarrow> string \<Rightarrow> string \<Rightarrow> hid \<Rightarrow> 'o udpkq_world \<Rightarrow> 'o udpkq_world result"
where
  "udpkq_connectToServer os address port h w =
     rbind (sin_port port) (\<lambda>p.
     let a = (case inet_pton address of None \<Rightarrow> 0 | Some a \<Rightarrow> a);
         (sin, w) = stack_enter (SockAddrObj (a, p)) w;
         (sockfd, w) = sys (os_socket_dgram os) w;
         (ctx, w) = stack_enter (ContextObj sockfd sin) w;
         w = w\<lparr>main_obj := (main_obj w)\<lparr>client := Some h, dest := sockfd\<rparr>\<rparr>;
         w = setParent h w;
         w = setContext h (Some ctx) w;
         w = sys_do (os_nonblock os sockfd) w
     in rbind (handler_enable (udpkq_parent os) h w) (\<lambda>w. Inr (stack_leave sin (stack_leave ctx w))))"

definition udpkq_main :: "'o kqueue_os \<Rightarrow> 'o udpkq_world EventMain" where
  "udpkq_main os = \<lparr>em_send = udpkq_send os, em_cancelLoop = udpkq_cancelLoop, em_initialize = udpkq_initialize,
     em_bindServer = udpkq_bindServer os, em_connectToServer = udpkq_connectToServer os,
     em_process = udpkq_process os\<rparr>"

subsection \<open>No dangling pointers\<close>

text \<open>
  Inside a call of a handler both objects behind its context are alive. Nothing is needed of the
  operating system for it.
\<close>

definition udpkq_live :: "hid \<Rightarrow> 'o udpkq_world \<Rightarrow> bool" where
  "udpkq_live h w \<longleftrightarrow> (\<exists>f. getContext h w = Some f \<and> stack_target (stack (main_obj w)) f \<noteq> None)"

definition udpkq_failures :: "failure set" where
  "udpkq_failures = handler_failures \<union> {Undef ''send reads out of bounds'', Exit 1 ''EVERROR'', Exit 1 ''kevent main'',
     Exit 1 ''kqueue'', Exit 1 ''kevent'', Undef ''atoi out of range'', Blocked ''kevent'', OutOfFuel}"

lemma udpkq_failures_mem [simp]:
  "Exit 1 ''EVERROR'' \<in> udpkq_failures" "Exit 1 ''kevent main'' \<in> udpkq_failures" "Exit 1 ''kqueue'' \<in> udpkq_failures"
  "Exit 1 ''kevent'' \<in> udpkq_failures" "Blocked ''kevent'' \<in> udpkq_failures" "OutOfFuel \<in> udpkq_failures"
  "Undef ''send reads out of bounds'' \<in> udpkq_failures"
  by (simp_all add: udpkq_failures_def)

lemma udpkq_keeps: "transport_keeps h (udpkq_parent os) udpkq_failures (udpkq_live h)"
  unfolding transport_keeps_def
proof (intro conjI allI impI, goal_cases)
  case 1
  then show ?case by (auto simp: udpkq_failures_def)
next
  case (2 w w')
  then show ?case using net_of_eqD [OF 2(1)] by (simp add: udpkq_live_def)
next
  case (3 d n e w)
  then show ?case
    by (auto simp: udpkq_live_def udpkq_parent_def udpkq_send_def sys_def split: prod.splits)
next
  case (4 w)
  then show ?case by (simp add: udpkq_live_def udpkq_parent_def udpkq_cancelLoop_def tcp_cancelLoop_def)
qed

lemma stack_target_entered:
  assumes "stack_enter (SockAddrObj a) w = (p, w1)" and "stack_enter (ContextObj sock p) w1 = (f, w2)"
  shows "stack_target (stack (main_obj w2)) f = Some (sock, a)"
  using assms by (auto simp: stack_enter_def stack_target_def)

lemma udpkq_event_safe: "post udpkq_failures (\<lambda>_. True) (udpkq_event_body os ev w)"
proof -
  have handle: "post udpkq_failures (\<lambda>_. True)
      (rbind (handler_process (udpkq_parent os) h buf n True (setContext h (Some f) v)) (\<lambda>w. Inr (False, g w)))"
    if "stack_target (stack (main_obj v)) f \<noteq> None" for h buf n f g and v :: "'a udpkq_world"
    using that by (intro post_bind [OF post_handler_process [OF udpkq_keeps]]) (auto simp: udpkq_live_def)
  show ?thesis
    by (auto simp: udpkq_event_body_def Let_def stack_target_entered split: prod.splits option.splits intro!: handle)
qed

lemma udpkq_events_safe: "post udpkq_failures (\<lambda>_. True) (udpkq_events os evs w)"
  by (induction evs arbitrary: w) (auto intro!: post_bind [OF udpkq_event_safe])

lemma udpkq_process_safe: "post udpkq_failures (\<lambda>_. True) (udpkq_process os fuel w)"
proof -
  have iter: "post udpkq_failures (\<lambda>_. True) (udpkq_iter os kqfd v)" for kqfd v
    by (auto simp: udpkq_iter_def Let_def udpkq_events_safe split: prod.splits kq_outcome.splits)
  have add: "post udpkq_failures (\<lambda>_. True) (kq_add_or_die os kqfd i u v)" for kqfd i u and v :: "'a udpkq_world"
    by (auto simp: kq_add_or_die_def split: prod.splits)
  have loop: "post udpkq_failures (\<lambda>_. True) (run_loop udpkq_ended (udpkq_iter os kqfd) fuel v)" for kqfd v
    by (rule run_loop_post [OF iter]) simp_all
  have prep: "post udpkq_failures (\<lambda>_. True) (udpkq_prepare os w)"
    unfolding udpkq_prepare_def
    by (auto simp: Let_def split: prod.splits intro!: post_bind [where Q = "\<lambda>_. True"] add)
  show ?thesis unfolding udpkq_process_def by (auto intro!: post_bind [OF prep] post_bind [OF loop])
qed

lemma udpkq_sin_port: "post udpkq_failures (\<lambda>_. True) (sin_port port)"
  by (auto simp: sin_port_def atoi_def udpkq_failures_def split: option.splits)

lemma udpkq_connectToServer_safe: "post udpkq_failures (\<lambda>_. True) (udpkq_connectToServer os address port h w)"
proof -
  have en: "post udpkq_failures (\<lambda>_. True) (rbind (handler_enable (udpkq_parent os) h v) (\<lambda>w. Inr (g w)))"
    if "udpkq_live h v" for g and v :: "'a udpkq_world"
  proof (rule post_bind [where Q = "udpkq_live h"])
    show "post udpkq_failures (udpkq_live h) (handler_enable (udpkq_parent os) h v)"
      using that post_EchoClient_sendData [OF udpkq_keeps] by (cases h) (auto simp: EchoClient_enable_def)
  qed simp
  show ?thesis unfolding udpkq_connectToServer_def
    by (intro post_bind [OF udpkq_sin_port])
      (auto simp: Let_def stack_enter_def sys_def sys_do_def udpkq_live_def stack_target_def
        split: prod.splits intro!: en)
qed

text \<open>
  C13. For every operating system and every command line: no run of the UDP program over kqueue sends
  through a pointer to a local variable whose scope was left, or calls through a null handler.
\<close>

theorem udpkq_no_dangling:
  "perf_main (udpkq_main os) None (udpkq_zero s) ck fuel argv
     \<notin> {Inl (Undef ''dangling context''), Inl (Undef ''null handler'')}"
proof -
  have "post (insert (Exit 1 usage) udpkq_failures) (\<lambda>_. True)
      (perf_main (udpkq_main os) None (udpkq_zero s) ck fuel argv)"
    by (rule post_perf_main [where ?Q0.0 = "\<lambda>_. True" and Q = "\<lambda>_. True"])
      (auto simp: udpkq_main_def udpkq_process_safe udpkq_connectToServer_safe udpkq_bindServer_def Let_def
        split: prod.splits intro!: post_bind [OF udpkq_sin_port])
  then show ?thesis by (auto simp: post_def udpkq_failures_def handler_failures_def usage_def)
qed

subsection \<open>The contract\<close>

definition udpkq_wf :: "kernel udpkq_world \<Rightarrow> bool" where
  "udpkq_wf w \<longleftrightarrow> (let m = main_obj w in
     \<not> loopEnd m \<and> (\<forall>h. getParent h w = Some MainProcessor) \<and>
     files (os_state m) 5 = Some (KqueueFile [(3, Some ServerObj), (4, Some ClientObj)]))"

definition udpkq_busy :: "hid \<Rightarrow> kernel udpkq_world \<Rightarrow> bool" where
  "udpkq_busy h w \<longleftrightarrow> udpkq_wf w \<and> udp_queues (os_state (main_obj w)) (\<lambda>_. []) \<and>
     (\<exists>f. getContext h w = Some f \<and>
       stack_target (stack (main_obj w)) f = Some (udp_sock h, 0x7F000001, udp_addr (peer h)))"

definition udpkq_inflight :: "hid \<Rightarrow> char list \<Rightarrow> kernel udpkq_world \<Rightarrow> bool" where
  "udpkq_inflight h m w \<longleftrightarrow> udpkq_wf w \<and> m \<in> {client_message, server_message} \<and>
     udp_queues (os_state (main_obj w)) ((\<lambda>_. [])(h := [(m, 0x7F000001, udp_addr (peer h))]))"

lemmas udpkq_state = udpkq_wf_def udpkq_busy_def udpkq_inflight_def

lemma udpkq_send_busy:
  assumes "udpkq_busy h w" and "m \<in> {client_message, server_message}"
  shows "\<exists>w1. udpkq_send loopback_kqueue (Some h) m (int (length m)) True w = Inr w1 \<and>
    udpkq_inflight (peer h) m w1 \<and> app_of w1 = app_of w"
proof -
  let ?k = "os_state (main_obj w)"
  from assms(1) obtain f where f: "getContext h w = Some f"
    "stack_target (stack (main_obj w)) f = Some (udp_sock h, 0x7F000001, udp_addr (peer h))"
    and q: "udp_queues ?k (\<lambda>_. [])" by (auto simp: udpkq_busy_def)
  from udp_queues_sendto [OF q, of h m] obtain k' where
    k': "k_sendto (udp_sock h) m (0x7F000001, udp_addr (peer h)) ?k = (int (length m), k')"
    "udp_queues k' ((\<lambda>_. [])(peer h := [(m, 0x7F000001, udp_addr h)]))" "files k' 5 = files ?k 5" by blast
  let ?w = "w\<lparr>main_obj := (main_obj w)\<lparr>os_state := k'\<rparr>\<rparr>"
  have "udpkq_send loopback_kqueue (Some h) m (int (length m)) True w = Inr ?w"
    using f k'(1) by (simp add: udpkq_send_def sys_def loopback_kqueue_def)
  moreover have "udpkq_inflight (peer h) m ?w"
    using assms k'(2,3) by (auto simp: udpkq_state Let_def)
  ultimately show ?thesis by (auto simp: frame_simps)
qed

lemma udpkq_wait_inflight:
  assumes "udpkq_inflight h m w"
  shows "k_kevent_wait 5 udpkq_max_events (os_state (main_obj w)) =
    (KqEvents [\<lparr>ke_error = False, ke_ident = udp_sock h, ke_udata = Some h\<rparr>], os_state (main_obj w))"
proof -
  let ?k = "os_state (main_obj w)"
  have "k_readable ?k 3 \<longleftrightarrow> h = ServerObj" "k_readable ?k 4 \<longleftrightarrow> h = ClientObj"
    using assms udp_queues_readable by (auto simp: udpkq_inflight_def)
  moreover have "files ?k 5 = Some (KqueueFile [(3, Some ServerObj), (4, Some ClientObj)])"
    using assms by (simp add: udpkq_state Let_def)
  ultimately show ?thesis
    by (cases h) (simp_all add: k_kevent_wait_def udpkq_max_events_def)
qed

lemma udpkq_iter_inflight:
  assumes "udpkq_inflight h m w"
  shows "\<exists>w1 rest n p f. udpkq_iter loopback_kqueue 5 w =
      rbind (handler_process (udpkq_parent loopback_kqueue) h (map Some m @ rest) n True w1)
        (\<lambda>v. Inr (stack_leave p (stack_leave f v))) \<and>
      udpkq_busy h w1 \<and> app_of w1 = app_of w"
proof -
  let ?k = "os_state (main_obj w)" and ?a = "(0x7F000001, udp_addr (peer h)) :: addr"
  have m: "m \<noteq> []" "length m = 19" using assms by (auto simp: udpkq_inflight_def client_message_def server_message_def)
  from assms m(2) udp_queues_recvfrom [of ?k h m ?a 1024] obtain k' where
    k': "k_recvfrom (udp_sock h) 1024 ?k = (Some (m, ?a), k')" "udp_queues k' (\<lambda>_. [])" "files k' 5 = files ?k 5"
    by (auto simp: udpkq_inflight_def)
  let ?v = "w\<lparr>main_obj := (main_obj w)\<lparr>os_state := k'\<rparr>\<rparr>"
  obtain p w1 where p: "stack_enter (SockAddrObj ?a) ?v = (p, w1)" by fastforce
  obtain f w2 where f: "stack_enter (ContextObj (udp_sock h) p) w1 = (f, w2)" by fastforce
  let ?w = "setContext h (Some f) w2"
  have "app_of ?w = app_of w" using p f by (auto simp: stack_enter_def frame_simps)
  moreover have "udpkq_wf ?w" "udp_queues (os_state (main_obj ?w)) (\<lambda>_. [])"
    using assms k'(2,3) p f by (auto simp: udpkq_state stack_enter_def Let_def)
  then have "udpkq_busy h ?w" using stack_target_entered [OF p f] by (simp add: udpkq_busy_def)
  moreover have "udpkq_iter loopback_kqueue 5 w = rbind (handler_process (udpkq_parent loopback_kqueue) h
      (map Some m @ replicate 1005 None) 19 True ?w) (\<lambda>v. Inr (stack_leave p (stack_leave f v)))"
    using m k'(1) udpkq_wait_inflight [OF assms] p f
    by (simp add: udpkq_iter_def sys_def loopback_kqueue_def udpkq_event_body_def recv_into_def rbind_assoc res_simps)
  ultimately show ?thesis by blast
qed

interpretation udpkq: scoped_transport "udpkq_parent loopback_kqueue" "udpkq_iter loopback_kqueue 5" udpkq_ended
  udpkq_inflight udpkq_busy
proof (unfold_locales, goal_cases)
  case (1 w w' h m)
  then show ?case using net_of_eqD [OF 1(1)] by (simp add: udpkq_state)
next
  case (2 w w' h)
  then show ?case using net_of_eqD [OF 2(1)] by (simp add: udpkq_state)
next
  case (3 h m w)
  then show ?case by (simp add: udpkq_state udpkq_ended_def Let_def)
next
  case (4 h w)
  then show ?case by (simp add: udpkq_state Let_def)
next
  case (5 h w m)
  then show ?case using udpkq_send_busy by (simp add: udpkq_parent_def)
next
  case (8 h m w)
  have leave: "app_of (stack_leave f v) = app_of v \<and> (udpkq_ended v \<longrightarrow> udpkq_ended (stack_leave f v)) \<and>
      (\<forall>h' m'. udpkq_inflight h' m' v \<longrightarrow> udpkq_inflight h' m' (stack_leave f v))" for f and v :: "kernel udpkq_world"
    by (simp add: stack_leave_def frame_simps udpkq_ended_def udpkq_state Let_def)
  obtain w1 rest n p f where "udpkq_iter loopback_kqueue 5 w =
      rbind (handler_process (udpkq_parent loopback_kqueue) h (map Some m @ rest) n True w1)
        (\<lambda>v. Inr (stack_leave p (stack_leave f v)))" "udpkq_busy h w1" "app_of w1 = app_of w"
    using udpkq_iter_inflight [OF 8] by blast
  then show ?case using leave
    by (intro exI [of _ w1] exI [of _ rest] exI [of _ n] exI [of _ "\<lambda>v. stack_leave p (stack_leave f v)"]) simp
qed (simp_all add: udpkq_parent_def udpkq_cancelLoop_def tcp_cancelLoop_def udpkq_ended_def frame_simps)

subsection \<open>The program over this transport\<close>

lemmas udpkq_setup_simps = udpkq_main_def udpkq_bindServer_def udpkq_initialize_def tcp_initialize_def start_world_def
  udpkq_zero_def udpkq_connectToServer_def EchoClient_new_def EchoServer_new_def EventHandler_new_def sys_def sys_do_def
  loopback_kqueue_def stack_enter_def stack_leave_def stack_target_def

lemma udpkq_setup:
  "\<exists>w1 w2 w3. em_bindServer (udpkq_main loopback_kqueue) ''8000'' ServerObj
       (em_initialize (udpkq_main loopback_kqueue) (start_world None (udpkq_zero kernel_zero) ck (int N))) = Inr w1 \<and>
     em_connectToServer (udpkq_main loopback_kqueue) ''127.0.0.1'' ''8000'' ClientObj w1 = Inr w2 \<and>
     udpkq_prepare loopback_kqueue w2 = Inr (5, w3) \<and>
     udpkq_inflight ServerObj client_message w3 \<and> awaiting 0 N ck w3"
  by (simp add: udpkq_setup_simps kernel_ops res_simps Let_def EchoClient_enable_def EchoClient_sendData_def
      EventHandler_send_def udpkq_parent_def udpkq_send_def int_ok_def INT_MAX_def udpkq_prepare_def
      kq_add_or_die_def k_kevent_add_def k_sendto_def k_receivers_def
      local_addr_def udpkq_state udp_queues_def dgram_def hid_all app_defs)

lemma udpkq_roles:
  assumes "0 < N" and "int N \<le> INT_MAX" and "clock_sane ck" and "2 * N \<le> fuel"
  shows "\<exists>w'. run_roles (udpkq_main loopback_kqueue) fuel ArgParser_new
      (em_initialize (udpkq_main loopback_kqueue) (start_world None (udpkq_zero kernel_zero) ck (int N))) = Inr w' \<and>
    finished N ck w'"
proof -
  let ?V = "udpkq_main loopback_kqueue" and ?a = ArgParser_new
  have a: "pPort ?a = ''8000''" "pAddress ?a = ''127.0.0.1''" by (simp_all add: ArgParser_new_def)
  from udpkq_setup [of ck N] obtain w1 w2 w3 where
    s: "em_bindServer ?V (pPort ?a) ServerObj (em_initialize ?V (start_world None (udpkq_zero kernel_zero) ck (int N))) = Inr w1"
      "em_connectToServer ?V (pAddress ?a) (pPort ?a) ClientObj w1 = Inr w2"
    and loop: "udpkq_prepare loopback_kqueue w2 = Inr (5, w3)"
    and start: "udpkq_inflight ServerObj client_message w3" "awaiting 0 N ck w3" unfolding a by blast
  have "em_process ?V fuel w2 = rbind (run_loop udpkq_ended (udpkq_iter loopback_kqueue 5) fuel w3)
      (\<lambda>w. Inr (sys_do (os_close loopback_kqueue (listener (main_obj w))) w))"
    using loop by (simp add: udpkq_main_def udpkq_process_def)
  from udpkq.roles_complete [OF s this start _ assms] show ?thesis
    by (simp add: ArgParser_new_def frame_simps)
qed

text \<open>
  C26. On one machine, whose datagrams are not lost, the UDP program over kqueue run with no arguments
  completes: every round of the loop delivers one message, and the answers go to the addresses that
  the datagrams came from.
\<close>

theorem udpkq_main_completes:
  assumes "clock_sane ck" and "usecs (ck 1) \<le> usecs (ck 2)" and "2000 \<le> fuel"
  shows "\<exists>w. perf_main (udpkq_main loopback_kqueue) None (udpkq_zero kernel_zero) ck fuel [] = Inr w \<and>
    benchmark_done 1000 ck w"
  using udpkq_roles [of 1000 ck fuel] assms by (intro main_benchmark_done) (auto simp: INT_MAX_def)

theorem udpkq_main_completes_witness:
  "\<exists>w. perf_main (udpkq_main loopback_kqueue) None (udpkq_zero kernel_zero) still_clock 2000 [] = Inr w \<and>
    benchmark_done 1000 still_clock w"
  by (rule udpkq_main_completes) simp_all

end
