(* ===== verification/MulticastMain.thy ===== *)
theory MulticastMain
  imports SelectMain
begin

section \<open>The multicast program (multicast.cpp)\<close>

text \<open>
  A program of its own: one unicast request makes \<open>MulticastServer\<close> send 1000 messages to a multicast
  group, and \<open>MulticastClient\<close> counts what arrives at its socket, a member of the group. The handlers
  have the fields of those of the echo test (\<open>MulticastServer\<close> adds \<open>numMessages\<close>, which extends the
  record of the program's world). The main processor has the arrays of the select server, here for
  datagram sockets. A handler's context points to a \<open>UdpParams\<close>, a local variable of \<open>process\<close> or of
  \<open>connectToServer\<close>: \<open>params_at\<close> has the live ones, and a send through a pointer to another one is
  undefined behaviour.
\<close>

record UdpParams =
  socketfd :: int
  params_dest :: addr

record 'o UdpSelectMain = "'o SelectMain" +
  multicastSendSocket :: int
  multicastPort :: "string option"
  params_at :: "nat \<Rightarrow> UdpParams option"
  params_next :: nat

text \<open>\<open>listener\<close> is \<open>listenerSocket\<close> and \<open>dest\<close> is \<open>clientSocket\<close>.\<close>

record 'o multicast_world = "(nat option, 'o UdpSelectMain) world" +
  numMessages :: int

text \<open>The calls on sockets that only this program uses.\<close>

record 'o multicast_os = "'o select_os" +
  os_add_membership :: "int \<Rightarrow> 32 word \<Rightarrow> 'o \<Rightarrow> bool \<times> 'o"
  os_rcvbuf :: "int \<Rightarrow> int \<Rightarrow> 'o \<Rightarrow> bool \<times> 'o"

text \<open>
  \<open>inet_addr\<close>: one to four numbers separated by dots, decimal, octal or hexadecimal, the last of which
  fills the bytes that are left; what follows a white-space character is ignored. The value of
  anything else is \<open>INADDR_NONE\<close>.
\<close>

definition digit_in :: "nat \<Rightarrow> char \<Rightarrow> nat option" where
  "digit_in b c =
     (let n = (of_char c :: nat);
          d = (if 48 \<le> n \<and> n \<le> 57 then n - 48 else if 97 \<le> n \<and> n \<le> 102 then n - 87
               else if 65 \<le> n \<and> n \<le> 70 then n - 55 else 16)
      in if d < b then Some d else None)"

fun number_in :: "nat \<Rightarrow> nat \<Rightarrow> string \<Rightarrow> nat option" where
  "number_in b acc [] = Some acc"
| "number_in b acc (c # cs) = (case digit_in b c of None \<Rightarrow> None | Some d \<Rightarrow> number_in b (acc * b + d) cs)"

definition inet_number :: "string \<Rightarrow> nat option" where
  "inet_number s =
     (case s of
        [] \<Rightarrow> None
      | [c] \<Rightarrow> number_in 10 0 s
      | c # x # cs \<Rightarrow>
          if c = CHR ''0'' \<and> (x = CHR ''x'' \<or> x = CHR ''X'') then (if cs = [] then None else number_in 16 0 cs)
          else if c = CHR ''0'' then number_in 8 0 (x # cs)
          else number_in 10 0 s)"

definition inet_addr :: "string \<Rightarrow> 32 word" where
  "inet_addr s =
     (case map inet_number (split_dots (takeWhile (\<lambda>c. \<not> is_space c) s)) of
        [Some a] \<Rightarrow> if a < 2 ^ 32 then word_of_nat a else -1
      | [Some a, Some b] \<Rightarrow> if a < 256 \<and> b < 2 ^ 24 then word_of_nat (a * 2 ^ 24 + b) else -1
      | [Some a, Some b, Some c] \<Rightarrow>
          if a < 256 \<and> b < 256 \<and> c < 2 ^ 16 then word_of_nat ((a * 256 + b) * 2 ^ 16 + c) else -1
      | [Some a, Some b, Some c, Some d] \<Rightarrow>
          if a < 256 \<and> b < 256 \<and> c < 256 \<and> d < 256
          then word_of_nat (((a * 256 + b) * 256 + c) * 256 + d) else -1
      | _ \<Rightarrow> -1)"

subsection \<open>The handlers\<close>

definition multicast_client_message :: "char list" where
  "multicast_client_message = ''Hello from client!'' @ [NUL]"

definition multicast_server_message :: "char list" where
  "multicast_server_message = ''Hello from server!'' @ [NUL]"

definition multicast_address :: string where
  "multicast_address = ''226.0.0.1''"

definition MulticastServer_new :: "'c \<Rightarrow> 'c EventHandler" where
  "MulticastServer_new null = (EventHandler_new null)\<lparr>description := ''echo server''\<rparr>"

definition MulticastClient_new :: "'c \<Rightarrow> int \<Rightarrow> 'c EchoClient" where
  "MulticastClient_new null nReq =
     \<lparr>parent = None, m_output = None, m_outputLength = 0, isMore = False, pContext = null,
      description = ''echo client'', numGot = 0, numSent = 0, maxSend = nReq, beginTime = None\<rparr>"

fun MulticastServer_send_all ::
  "'o multicast_world parent_ops \<Rightarrow> nat \<Rightarrow> 'o multicast_world \<Rightarrow> 'o multicast_world result"
where
  "MulticastServer_send_all P 0 w = Inr w"
| "MulticastServer_send_all P (Suc n) w =
     rbind (EventHandler_send P ServerObj multicast_server_message (int (length multicast_server_message)) True w)
       (MulticastServer_send_all P n)"

definition MulticastServer_process ::
  "'o multicast_world parent_ops \<Rightarrow> cells \<Rightarrow> int \<Rightarrow> bool \<Rightarrow> 'o multicast_world \<Rightarrow> 'o multicast_world result"
where
  "MulticastServer_process P data len iseof w =
     (case strcmp data multicast_client_message of
        None \<Rightarrow> Inl (Undef ''strcmp reads indeterminate memory'')
      | Some c \<Rightarrow>
          if c \<noteq> 0 then Inl (Exit 1 ''Invalid message from client'')
          else MulticastServer_send_all P (nat (numMessages w)) w)"

definition MulticastClient_sendData ::
  "'o multicast_world parent_ops \<Rightarrow> 'o multicast_world \<Rightarrow> 'o multicast_world result"
where
  "MulticastClient_sendData P w =
     rbind (EventHandler_send P ClientObj multicast_client_message (int (length multicast_client_message)) True w) (\<lambda>w.
     rbind (int_op (numSent (client_obj w) + 1)) (\<lambda>n.
     Inr (w\<lparr>client_obj := (client_obj w)\<lparr>numSent := n\<rparr>\<rparr>)))"

text \<open>The report has the text of the one of \<open>EchoClient\<close>.\<close>

definition MulticastClient_process ::
  "'o multicast_world parent_ops \<Rightarrow> cells \<Rightarrow> int \<Rightarrow> bool \<Rightarrow> 'o multicast_world \<Rightarrow> 'o multicast_world result"
where
  "MulticastClient_process P data len iseof w =
     (case strcmp data multicast_server_message of
        None \<Rightarrow> Inl (Undef ''strcmp reads indeterminate memory'')
      | Some c \<Rightarrow>
          if c \<noteq> 0 then Inl (Exit 1 ''Invalid message from server'')
          else rbind (int_op (numGot (client_obj w) + 1)) (\<lambda>n.
            let w = w\<lparr>client_obj := (client_obj w)\<lparr>numGot := n\<rparr>\<rparr>;
                w = (if n = 1
                     then let (t, w) = gettimeofday (printCurrentTime w)
                          in w\<lparr>client_obj := (client_obj w)\<lparr>beginTime := Some t\<rparr>\<rparr>
                     else w)
            in if n = maxSend (client_obj w)
               then let (endTime, w) = gettimeofday w; w = printCurrentTime w
                    in case beginTime (client_obj w) of
                         None \<Rightarrow> Inl (Undef ''beginTime is indeterminate'')
                       | Some t \<Rightarrow>
                           rbind (getTimeDiff endTime t) (\<lambda>d.
                           let w = print_line (EchoClient_report n (word_of_int d)) w
                           in case getParent ClientObj w of
                                None \<Rightarrow> Inl (Undef ''null parent'')
                              | Some _ \<Rightarrow> Inr (em_cancelLoop P w))
               else Inr w))"

definition MulticastClient_enable ::
  "'o multicast_world parent_ops \<Rightarrow> 'o multicast_world \<Rightarrow> 'o multicast_world result"
where
  "MulticastClient_enable P w = MulticastClient_sendData P w"

fun multicast_handler_process ::
  "'o multicast_world parent_ops \<Rightarrow> hid \<Rightarrow> cells \<Rightarrow> int \<Rightarrow> bool \<Rightarrow> 'o multicast_world \<Rightarrow> 'o multicast_world result"
where
  "multicast_handler_process P ServerObj data len iseof w = MulticastServer_process P data len iseof w"
| "multicast_handler_process P ClientObj data len iseof w = MulticastClient_process P data len iseof w"

fun multicast_handler_enable ::
  "'o multicast_world parent_ops \<Rightarrow> hid \<Rightarrow> 'o multicast_world \<Rightarrow> 'o multicast_world result"
where
  "multicast_handler_enable P ServerObj w = Inr w"
| "multicast_handler_enable P ClientObj w = MulticastClient_enable P w"

subsection \<open>The main processor\<close>

definition multicast_zero :: "'o \<Rightarrow> 'o UdpSelectMain" where
  "multicast_zero s = \<lparr>listener = 0, dest = 0, server = None, client = None, loopEnd = False, os_state = s,
     sel_states = (\<lambda>_. None), sel_fds = [], sel_returned = False,
     multicastSendSocket = 0, multicastPort = None, params_at = (\<lambda>_. None), params_next = 0\<rparr>"

definition params_enter :: "UdpParams \<Rightarrow> 'o multicast_world \<Rightarrow> nat \<times> 'o multicast_world" where
  "params_enter u w = (params_next (main_obj w),
     w\<lparr>main_obj := (main_obj w)\<lparr>params_at := (params_at (main_obj w))(params_next (main_obj w) \<mapsto> u),
       params_next := Suc (params_next (main_obj w))\<rparr>\<rparr>)"

definition params_leave :: "nat \<Rightarrow> 'o multicast_world \<Rightarrow> 'o multicast_world" where
  "params_leave p w = w\<lparr>main_obj := (main_obj w)\<lparr>params_at := (params_at (main_obj w))(p := None)\<rparr>\<rparr>"

definition setMulticastPort :: "string \<Rightarrow> 'o multicast_world \<Rightarrow> 'o multicast_world" where
  "setMulticastPort port w = w\<lparr>main_obj := (main_obj w)\<lparr>multicastPort := Some port\<rparr>\<rparr>"

definition multicast_initialize :: "'o multicast_world \<Rightarrow> 'o multicast_world" where
  "multicast_initialize w = w\<lparr>main_obj := (main_obj w)\<lparr>loopEnd := False, dest := -1, listener := -1,
     multicastSendSocket := -1\<rparr>\<rparr>"

definition multicast_cancelLoop :: "'o multicast_world \<Rightarrow> 'o multicast_world" where
  "multicast_cancelLoop w = w\<lparr>main_obj := (main_obj w)\<lparr>loopEnd := True\<rparr>\<rparr>"

definition multicast_send ::
  "'o multicast_os \<Rightarrow> hid option \<Rightarrow> char list \<Rightarrow> int \<Rightarrow> bool \<Rightarrow> 'o multicast_world \<Rightarrow> 'o multicast_world result"
where
  "multicast_send os p data len isDataEnd w =
     (case p of
        None \<Rightarrow> Inr w
      | Some h \<Rightarrow>
          (case getContext h w of
             None \<Rightarrow> Inr w
           | Some f \<Rightarrow>
               (case params_at (main_obj w) f of
                  None \<Rightarrow> Inl (Undef ''dangling context'')
                | Some u \<Rightarrow>
                    if 0 \<le> len \<and> nat len \<le> length data
                    then let (n, w) = sys (os_sendto os (socketfd u) (take (nat len) data) (params_dest u)) w
                         in if n = -1 then Inl (Exit 1 ''send'') else Inr w
                    else Inl (Undef ''send reads out of bounds''))))"

definition multicast_parent :: "'o multicast_os \<Rightarrow> 'o multicast_world parent_ops" where
  "multicast_parent os = \<lparr>em_send = multicast_send os, em_cancelLoop = multicast_cancelLoop\<rparr>"

definition multicast_sin_port :: "'o multicast_world \<Rightarrow> 16 word result" where
  "multicast_sin_port w = (case multicastPort (main_obj w) of
     None \<Rightarrow> Inl (Undef ''atoi of null'') | Some port \<Rightarrow> sin_port port)"

text \<open>\<open>int fd = socket(...); if (fd < 0) diep("socket");\<close>\<close>

definition multicast_socket :: "'o multicast_os \<Rightarrow> 'o multicast_world \<Rightarrow> (int \<times> 'o multicast_world) result" where
  "multicast_socket os w =
     (case sys (os_socket_dgram os) w of (sock, w) \<Rightarrow>
        if sock < 0 then Inl (Exit 1 ''socket'') else Inr (sock, w))"

definition multicast_bindServer ::
  "'o multicast_os \<Rightarrow> string \<Rightarrow> hid \<Rightarrow> 'o multicast_world \<Rightarrow> 'o multicast_world result"
where
  "multicast_bindServer os port h w =
     rbind (sin_port port) (\<lambda>p.
     let (l, w) = sys (os_socket_dgram os) w;
         w = w\<lparr>main_obj := (main_obj w)\<lparr>listener := l, server := Some h\<rparr>\<rparr>;
         w = setParent h w;
         w = sys_do (os_nonblock os l) w;
         w = sys_do (os_reuseaddr os l) w;
         (bound, w) = sys (os_bind os l 0 p) w
     in if \<not> bound then Inl (Exit 1 ''bind'')
        else rbind (multicast_socket os w) (\<lambda>(sock, w).
             Inr (w\<lparr>main_obj := (main_obj w)\<lparr>multicastSendSocket := sock\<rparr>\<rparr>)))"

definition multicast_connectToServer ::
  "'o multicast_os \<Rightarrow> string \<Rightarrow> string \<Rightarrow> hid \<Rightarrow> 'o multicast_world \<Rightarrow> 'o multicast_world result"
where
  "multicast_connectToServer os address port h w =
     rbind (multicast_sin_port w) (\<lambda>mp.
     rbind (multicast_socket os w) (\<lambda>(msock, w).
     let w = sys_do (os_reuseaddr os msock) w;
         w = sys_do (os_nonblock os msock) w;
         (bound, w) = sys (os_bind os msock 0 mp) w
     in if \<not> bound then Inl (Exit 1 ''bind'')
        else let (joined, w) = sys (os_add_membership os msock (inet_addr multicast_address)) w
     in if \<not> joined then Inl (Exit 1 ''add membership'')
        else let (sized, w) = sys (os_rcvbuf os msock (1024 * 1024)) w
     in if \<not> sized then Inl (Exit 1 ''setsockopt SO_RCVBUF'')
        else let w = w\<lparr>main_obj := (main_obj w)\<lparr>dest := msock, client := Some h\<rparr>\<rparr>;
                 w = setParent h w
             in rbind (multicast_socket os w) (\<lambda>(usock, w).
                rbind (sin_port port) (\<lambda>p.
                case params_enter \<lparr>socketfd = usock, params_dest = (inet_addr address, p)\<rparr> w of (u, w) \<Rightarrow>
                  rbind (multicast_handler_enable (multicast_parent os) h (setContext h (Some u) w)) (\<lambda>w.
                  Inr (params_leave u (sys_do (os_close os usock) w)))))))"

text \<open>
  The arrays as they are set up in front of the loop. \<open>malloc\<close> does not fail. The descriptor sets built
  here are cleared at the start of the loop, and \<open>fds\<close> is rebuilt.
\<close>

definition multicast_prepare :: "'o multicast_world \<Rightarrow> (nat \<times> 'o multicast_world) result" where
  "multicast_prepare w =
     rbind (multicast_sin_port w) (\<lambda>p.
     case params_enter \<lparr>socketfd = multicastSendSocket (main_obj w),
                       params_dest = (inet_addr multicast_address, p)\<rparr> w of (params, w) \<Rightarrow>
       let w = w\<lparr>main_obj := (main_obj w)\<lparr>sel_states := (\<lambda>_. None), sel_fds := [], sel_returned := False\<rparr>\<rparr>;
           c = dest (main_obj w); l = listener (main_obj w)
       in rbind (if c \<noteq> -1 then set_state c (Some (client (main_obj w))) w else Inr w) (\<lambda>w.
          rbind (if l \<noteq> -1 then rbind (set_state l (Some (server (main_obj w))) w) (push_fd l) else Inr w) (\<lambda>w.
          Inr (params, rebuild w))))"

text \<open>One descriptor of the scan; \<open>params\<close> is the address of the local variable of \<open>process\<close>.\<close>

definition multicast_scan_body ::
  "'o multicast_os \<Rightarrow> nat \<Rightarrow> fd_set \<Rightarrow> int \<Rightarrow> 'o multicast_world \<Rightarrow> 'o multicast_world result"
where
  "multicast_scan_body os params readset i w =
     (if \<not> readset i then Inr w
      else let (r, w) = sys (os_recvfrom os i 1024) w
           in case r of
                None \<Rightarrow> select_close os i w
              | Some (bs, si_from) \<Rightarrow>
                  if bs = [] then select_close os i w
                  else (case sel_states (main_obj w) i of
                          Some (Some h) \<Rightarrow>
                            multicast_handler_process (multicast_parent os) h (recv_into (replicate 1024 None) bs)
                              (int (length bs)) True (setContext h (Some params) w)
                        | _ \<Rightarrow> Inr w))"

fun multicast_scan ::
  "'o multicast_os \<Rightarrow> nat \<Rightarrow> fd_set \<Rightarrow> int list \<Rightarrow> 'o multicast_world \<Rightarrow> 'o multicast_world result"
where
  "multicast_scan os params readset [] w = Inr w"
| "multicast_scan os params readset (i # is) w =
     rbind (multicast_scan_body os params readset i w) (multicast_scan os params readset is)"

definition multicast_iter :: "'o multicast_os \<Rightarrow> nat \<Rightarrow> 'o multicast_world \<Rightarrow> 'o multicast_world result" where
  "multicast_iter os params w =
     rbind (fill_fdset (sel_fds (main_obj w)) (listener (main_obj w)) (\<lambda>_. False)) (\<lambda>(maxfd, S).
     let (r, w) = sys (os_select os (maxfd + 1) S) w
     in case r of
          SelBlocks \<Rightarrow> Inl (Blocked ''select'')
        | SelError \<Rightarrow> Inr (w\<lparr>main_obj := (main_obj w)\<lparr>sel_returned := True\<rparr>\<rparr>)
        | SelReady readset \<Rightarrow> multicast_scan os params readset (map int [0..<nat (maxfd + 1)]) w)"

definition multicast_ended :: "'o multicast_world \<Rightarrow> bool" where
  "multicast_ended w \<longleftrightarrow> sel_returned (main_obj w) \<or> loopEnd (main_obj w)"

definition multicast_process :: "'o multicast_os \<Rightarrow> nat \<Rightarrow> 'o multicast_world \<Rightarrow> 'o multicast_world result" where
  "multicast_process os fuel w =
     rbind (multicast_prepare w) (\<lambda>(params, w).
     rbind (run_loop multicast_ended (multicast_iter os params) fuel w) (\<lambda>w.
     Inr (params_leave params w)))"

subsection \<open>The program\<close>

definition multicast_opt :: string where "multicast_opt = ''csp:a:''"

record MulticastArgParser = ArgParser +
  arg_multicastPort :: string

definition MulticastArgParser_new :: MulticastArgParser where
  "MulticastArgParser_new = \<lparr>isClientOnly = False, isServerOnly = False, pAddress = ''127.0.0.1'', pPort = ''8000'',
     arg_multicastPort = ''8100''\<rparr>"

definition multicast_parse_option :: "char \<times> string option \<Rightarrow> MulticastArgParser \<Rightarrow> MulticastArgParser result" where
  "multicast_parse_option r a =
     (case r of (c, optarg) \<Rightarrow>
        if c = CHR ''c'' then Inr (a\<lparr>isClientOnly := True\<rparr>)
        else if c = CHR ''s'' then Inr (a\<lparr>isServerOnly := True\<rparr>)
        else if c = CHR ''p'' then
          (case optarg of Some arg \<Rightarrow> Inr (a\<lparr>pPort := arg\<rparr>) | None \<Rightarrow> Inl (Undef ''null optarg''))
        else if c = CHR ''m'' then
          (case optarg of Some arg \<Rightarrow> Inr (a\<lparr>arg_multicastPort := arg\<rparr>) | None \<Rightarrow> Inl (Undef ''null optarg''))
        else if c = CHR ''a'' then
          (case optarg of Some arg \<Rightarrow> Inr (a\<lparr>pAddress := arg\<rparr>) | None \<Rightarrow> Inl (Undef ''null optarg''))
        else Inl (Exit 1 usage))"

fun multicast_parse_options ::
  "(char \<times> string option) list \<Rightarrow> MulticastArgParser \<Rightarrow> MulticastArgParser result"
where
  "multicast_parse_options [] a = Inr a"
| "multicast_parse_options (r # rs) a = rbind (multicast_parse_option r a) (multicast_parse_options rs)"

definition multicast_parseArgs :: "string list \<Rightarrow> MulticastArgParser \<Rightarrow> MulticastArgParser result" where
  "multicast_parseArgs argv a = multicast_parse_options (getopt_from multicast_opt [] argv) a"

definition multicast_start :: "'o \<Rightarrow> (nat \<Rightarrow> timeval) \<Rightarrow> int \<Rightarrow> 'o multicast_world" where
  "multicast_start s ck num =
     \<lparr>server_obj = MulticastServer_new None, client_obj = MulticastClient_new None num, main_obj = multicast_zero s,
      clock = ck, clock_reads = 0, stdout = [], numMessages = num\<rparr>"

definition multicast_roles ::
  "'o multicast_os \<Rightarrow> nat \<Rightarrow> MulticastArgParser \<Rightarrow> 'o multicast_world \<Rightarrow> 'o multicast_world result"
where
  "multicast_roles os fuel a w =
     (let w = setMulticastPort (arg_multicastPort a) w
      in rbind (if \<not> isClientOnly a then multicast_bindServer os (pPort a) ServerObj w else Inr w) (\<lambda>w.
         rbind (if \<not> isServerOnly a then multicast_connectToServer os (pAddress a) (pPort a) ClientObj w else Inr w)
           (multicast_process os fuel)))"

definition multicast_main ::
  "'o multicast_os \<Rightarrow> 'o \<Rightarrow> (nat \<Rightarrow> timeval) \<Rightarrow> nat \<Rightarrow> string list \<Rightarrow> 'o multicast_world result"
where
  "multicast_main os s ck fuel argv =
     (let w = multicast_initialize (multicast_start s ck 1000)
      in rbind (multicast_parseArgs argv MulticastArgParser_new) (\<lambda>a. multicast_roles os fuel a w))"

end
