(* ===== verification/MulticastProps.thy ===== *)
theory MulticastProps
  imports MulticastMain
begin

section \<open>Correctness of the multicast program\<close>

text \<open>
  Safety for every operating system, the run of the whole program on one machine, and what its
  option parser can be asked for.
\<close>

lemma multicast_messages [simp]:
  "multicast_client_message = client_message" "multicast_server_message = server_message"
  by (simp_all add: multicast_client_message_def multicast_server_message_def client_message_def server_message_def)

subsection \<open>One call of a handler\<close>

lemma MulticastClient_process_ok:
  assumes data: "data = map Some server_message @ rest" and n: "int_ok (numGot (client_obj w) + 1)"
  shows "MulticastClient_process P data len eof w =
     (let w1 = client_counted w
      in if numGot (client_obj w1) = maxSend (client_obj w1)
         then case beginTime (client_obj w1) of
                None \<Rightarrow> Inl (Undef ''beginTime is indeterminate'')
              | Some t \<Rightarrow> rbind (getTimeDiff (clock w1 (clock_reads w1)) t) (\<lambda>d.
                  let w2 = printCurrentTime (snd (gettimeofday w1));
                      w3 = print_line (EchoClient_report (numGot (client_obj w1)) (word_of_int d)) w2
                  in case getParent ClientObj w3 of
                       None \<Rightarrow> Inl (Undef ''null parent'')
                     | Some _ \<Rightarrow> Inr (em_cancelLoop P w3))
         else Inr w1)"
  using n by (auto simp: MulticastClient_process_def data res_simps client_counted_def Let_def clock_defs
      cong: option.case_cong)

text \<open>The handlers keep a property of the transport's state that \<open>send\<close> and \<open>cancelLoop\<close> keep.\<close>

definition multicast_keeps ::
  "hid \<Rightarrow> 'o multicast_world parent_ops \<Rightarrow> failure set \<Rightarrow> ('o multicast_world \<Rightarrow> bool) \<Rightarrow> bool"
where
  "multicast_keeps h P F Q \<longleftrightarrow> handler_failures \<subseteq> F \<and>
     (\<forall>w w'. net_of w = net_of w' \<longrightarrow> Q w \<longrightarrow> Q w') \<and>
     (\<forall>d n e w. Q w \<longrightarrow> post F Q (em_send P (Some h) d n e w)) \<and> (\<forall>w. Q w \<longrightarrow> Q (em_cancelLoop P w))"

lemma post_multicast_send:
  "multicast_keeps h P F Q \<Longrightarrow> Q w \<Longrightarrow> post F Q (EventHandler_send P h d n e w)"
  by (auto simp: EventHandler_send_def multicast_keeps_def handler_failures_def split: option.splits)

lemma post_send_all:
  "multicast_keeps ServerObj P F Q \<Longrightarrow> Q w \<Longrightarrow> post F Q (MulticastServer_send_all P n w)"
  by (induction n arbitrary: w) (auto intro: post_bind [OF post_multicast_send])

lemma post_MulticastClient_sendData:
  assumes "multicast_keeps ClientObj P F Q" and "Q w"
  shows "post F Q (MulticastClient_sendData P w)"
  unfolding MulticastClient_sendData_def
proof (rule post_bind [OF post_multicast_send [OF assms]])
  fix w1 assume "Q w1"
  then show "post F Q (rbind (int_op (numSent (client_obj w1) + 1)) (\<lambda>n.
      Inr (w1\<lparr>client_obj := (client_obj w1)\<lparr>numSent := n\<rparr>\<rparr>)))"
    using assms(1)
    by (intro post_bind [OF post_int_op]) (auto simp: multicast_keeps_def net_of_def)
qed

lemma post_MulticastClient_process:
  assumes keeps: "multicast_keeps ClientObj P F Q" and "Q w"
  shows "post F Q (MulticastClient_process P data len eof w)"
proof -
  have F: "handler_failures \<subseteq> F" using keeps by (simp add: multicast_keeps_def)
  consider (bad) f where "MulticastClient_process P data len eof w = Inl f" "f \<in> handler_failures"
    | (ok) rest where "data = map Some server_message @ rest" "int_ok (numGot (client_obj w) + 1)"
    by (cases "strcmp data server_message"; cases "int_ok (numGot (client_obj w) + 1)";
        cases "strcmp data server_message = Some 0")
      (auto simp: MulticastClient_process_def handler_failures_def int_op_def strcmp_zero_iff)
  then show ?thesis
  proof cases
    case bad
    then show ?thesis using F by auto
  next
    case ok
    have "Q (client_counted w)"
      using keeps assms(2) net_of_client_counted [of w] unfolding multicast_keeps_def by metis
    then show ?thesis
      using F keeps unfolding MulticastClient_process_ok [OF ok] Let_def
      by (auto simp: handler_failures_def multicast_keeps_def net_of_def clock_defs
          intro!: post_bind [OF post_getTimeDiff] split: option.splits)
  qed
qed

lemma post_multicast_handler_process:
  assumes "multicast_keeps h P F Q" and "Q w"
  shows "post F Q (multicast_handler_process P h data len eof w)"
proof (cases h)
  case ServerObj
  then have "post F Q (MulticastServer_send_all P n w)" for n using post_send_all assms by blast
  then show ?thesis
    using ServerObj assms
    by (auto simp: MulticastServer_process_def multicast_keeps_def handler_failures_def split: option.splits)
next
  case ClientObj
  then show ?thesis using assms post_MulticastClient_process by simp
qed

subsection \<open>Arrays and contexts\<close>

text \<open>
  What the program relies on: \<open>socket\<close> gives descriptors below the limit of the process, and \<open>select\<close>
  reports only descriptors it was asked about.
\<close>

locale multicast_kernel =
  fixes os :: "'o multicast_os"
    and limit :: int
  assumes socket_range: "os_socket_dgram os s = (r, s') \<Longrightarrow> r = -1 \<or> 0 \<le> r \<and> r < limit"
    and select_subset: "os_select os nfds S s = (SelReady R, s') \<Longrightarrow> R i \<Longrightarrow> S i"
    and limit_small: "limit \<le> FD_SETSIZE"
begin

definition multicast_failures :: "failure set" where
  "multicast_failures = handler_failures \<union> {Undef ''send reads out of bounds'', Undef ''atoi out of range'',
     Exit 1 ''send'', Exit 1 ''socket'', Exit 1 ''bind'', Exit 1 ''add membership'',
     Exit 1 ''setsockopt SO_RCVBUF'', Blocked ''select'', OutOfFuel}"

lemma multicast_failures_mem [simp]:
  "Undef ''send reads out of bounds'' \<in> multicast_failures" "Exit 1 ''send'' \<in> multicast_failures"
  "Exit 1 ''socket'' \<in> multicast_failures" "Exit 1 ''bind'' \<in> multicast_failures"
  "Exit 1 ''add membership'' \<in> multicast_failures" "Exit 1 ''setsockopt SO_RCVBUF'' \<in> multicast_failures"
  "Blocked ''select'' \<in> multicast_failures" "OutOfFuel \<in> multicast_failures" "handler_failures \<subseteq> multicast_failures"
  by (auto simp: multicast_failures_def)

text \<open>
  In front of \<open>process\<close> the sockets are descriptors the system gave out and the port is set; in its
  loop \<open>fds\<close> lists the slots in use and \<open>params\<close> is alive.
\<close>

definition setup_ok :: "'o multicast_world \<Rightarrow> bool" where
  "setup_ok w \<longleftrightarrow> (let m = main_obj w in (listener m = -1 \<or> in_fdset (listener m)) \<and>
     (dest m = -1 \<or> in_fdset (dest m)) \<and> multicastPort m \<noteq> None)"

definition loop_ok :: "nat \<Rightarrow> 'o multicast_world \<Rightarrow> bool" where
  "loop_ok params w \<longleftrightarrow> (let m = main_obj w in sel_fds m = buildfds (sel_states m) \<and>
     params_at m params \<noteq> None)"

definition context_live :: "hid \<Rightarrow> 'o multicast_world \<Rightarrow> bool" where
  "context_live h w \<longleftrightarrow> (\<exists>f. getContext h w = Some f \<and> params_at (main_obj w) f \<noteq> None)"

lemma multicast_send_keeps:
  assumes net: "\<And>w w'. net_of w = net_of w' \<Longrightarrow> Q w \<Longrightarrow> Q w'"
    and sys: "\<And>w s. Q w \<Longrightarrow> Q (w\<lparr>main_obj := (main_obj w)\<lparr>os_state := s\<rparr>\<rparr>)"
    and cancel: "\<And>w. Q w \<Longrightarrow> Q (multicast_cancelLoop w)"
  shows "multicast_keeps h (multicast_parent os) multicast_failures (\<lambda>w. Q w \<and> context_live h w)"
  unfolding multicast_keeps_def
proof (intro conjI allI impI, goal_cases)
  case 1
  then show ?case by simp
next
  case (2 w w')
  then show ?case using net by blast
next
  case (3 w w')
  then show ?case using net_of_eqD [OF 3(1)] by (simp add: context_live_def)
next
  case (4 d n e w)
  then show ?case
    by (auto simp: multicast_parent_def multicast_send_def context_live_def sys_def intro!: sys split: prod.splits)
next
  case (5 w)
  then show ?case using cancel by (simp add: multicast_parent_def)
next
  case (6 w)
  then show ?case by (simp add: multicast_parent_def multicast_cancelLoop_def context_live_def)
qed

lemma loop_keeps:
  "multicast_keeps h (multicast_parent os) multicast_failures (\<lambda>w. loop_ok params w \<and> context_live h w)"
  by (rule multicast_send_keeps)
    (auto simp: loop_ok_def net_of_def multicast_cancelLoop_def Let_def)

lemma setup_keeps:
  "multicast_keeps h (multicast_parent os) multicast_failures (\<lambda>w. setup_ok w \<and> context_live h w)"
  by (rule multicast_send_keeps)
    (auto simp: setup_ok_def net_of_def multicast_cancelLoop_def Let_def)

lemma multicast_scan_body_safe:
  assumes ok: "loop_ok params w" and i: "readset i \<Longrightarrow> in_fdset i"
  shows "post multicast_failures (loop_ok params) (multicast_scan_body os params readset i w)"
proof -
  have recv: "loop_ok params v" if "sys f w = (r, v)" for f r v
    using ok that by (auto simp: sys_def loop_ok_def Let_def split: prod.splits)
  have close: "post multicast_failures (loop_ok params) (select_close os i v)" if "loop_ok params v" "in_fdset i" for v
    using that by (auto simp: select_close_def set_state_def rebuild_def sys_do_def loop_ok_def Let_def)
  have handle: "post multicast_failures (loop_ok params)
      (multicast_handler_process (multicast_parent os) h buf n True (setContext h (Some params) v))"
    if "loop_ok params v" for h buf n v
    using that by (intro post_mono [OF post_multicast_handler_process [OF loop_keeps]])
      (auto simp: loop_ok_def context_live_def Let_def)
  show ?thesis
    using ok i by (auto simp: multicast_scan_body_def Let_def split: prod.splits option.splits
        intro!: close handle intro: recv)
qed

lemma multicast_scan_safe:
  "loop_ok params w \<Longrightarrow> (\<And>i. readset i \<Longrightarrow> in_fdset i) \<Longrightarrow>
   post multicast_failures (loop_ok params) (multicast_scan os params readset is w)"
  by (induction "is" arbitrary: w) (auto intro!: post_bind [OF multicast_scan_body_safe])

lemma multicast_iter_safe:
  assumes ok: "loop_ok params w"
  shows "post multicast_failures (loop_ok params) (multicast_iter os params w)"
proof -
  have "\<forall>i\<in>set (sel_fds (main_obj w)). in_fdset i"
    using ok by (auto simp: loop_ok_def Let_def set_buildfds)
  from fill_fdset_in_range [OF this, of "\<lambda>_. False" "listener (main_obj w)"] obtain m S where
    S: "fill_fdset (sel_fds (main_obj w)) (listener (main_obj w)) (\<lambda>_. False) = Inr (m, S)" "\<And>i. S i \<Longrightarrow> in_fdset i"
    by auto
  obtain r s' where r: "os_select os (m + 1) S (os_state (main_obj w)) = (r, s')" by fastforce
  let ?w = "w\<lparr>main_obj := (main_obj w)\<lparr>os_state := s'\<rparr>\<rparr>"
  have keep: "loop_ok params ?w" using ok by (simp add: loop_ok_def Let_def)
  show ?thesis
  proof (cases r)
    case (SelReady R)
    then have "in_fdset i" if "R i" for i using select_subset S(2) r that by blast
    then show ?thesis
      using SelReady r S(1) keep by (auto simp: multicast_iter_def sys_def intro!: multicast_scan_safe)
  qed (use S(1) r keep in \<open>auto simp: multicast_iter_def sys_def loop_ok_def Let_def\<close>)
qed

lemma multicast_sin_port_safe:
  "setup_ok w \<Longrightarrow> post multicast_failures (\<lambda>_. True) (multicast_sin_port w)"
  by (auto simp: multicast_sin_port_def sin_port_def atoi_def setup_ok_def multicast_failures_def Let_def
      split: option.splits)

lemma multicast_prepare_safe:
  assumes "setup_ok w"
  shows "post multicast_failures (\<lambda>(params, w). loop_ok params w) (multicast_prepare w)"
  unfolding multicast_prepare_def using assms
  by (intro post_bind [OF multicast_sin_port_safe])
    (auto simp: params_enter_def set_state_def push_fd_def rebuild_def setup_ok_def loop_ok_def Let_def FD_SETSIZE_def)

lemma multicast_process_safe:
  assumes "setup_ok w"
  shows "post multicast_failures (\<lambda>_. True) (multicast_process os fuel w)"
proof -
  have loop: "post multicast_failures (loop_ok params) (run_loop multicast_ended (multicast_iter os params) fuel v)"
    if "loop_ok params v" for params v
    by (rule run_loop_post [OF multicast_iter_safe that]) simp_all
  show ?thesis unfolding multicast_process_def
    by (auto intro!: post_bind [OF multicast_prepare_safe [OF assms]] post_bind [OF loop])
qed

lemma setup_ok_sys [simp]: "setup_ok (snd (sys f w)) = setup_ok w" "setup_ok (sys_do g w) = setup_ok w"
  "setup_ok (setParent h w) = setup_ok w" "setup_ok (setContext h c w) = setup_ok w"
  by (simp_all add: setup_ok_def sys_def sys_do_def Let_def split: prod.splits)

lemma setup_ok_sysD: "sys f w = (r, v) \<Longrightarrow> setup_ok v = setup_ok w"
  by (metis setup_ok_sys(1) snd_conv)

lemma multicast_socket_safe:
  assumes "setup_ok w"
  shows "post multicast_failures (\<lambda>(sock, v). in_fdset sock \<and> setup_ok v) (multicast_socket os w)"
proof -
  obtain r s' where r: "os_socket_dgram os (os_state (main_obj w)) = (r, s')" by fastforce
  then show ?thesis using socket_range [OF r] limit_small assms
    by (auto simp: multicast_socket_def sys_def in_fdset_def setup_ok_def Let_def)
qed

lemma sin_port_safe: "post multicast_failures (\<lambda>_. True) (sin_port port)"
  by (auto simp: sin_port_def atoi_def multicast_failures_def split: option.splits)

lemma multicast_bindServer_safe:
  assumes "setup_ok w"
  shows "post multicast_failures setup_ok (multicast_bindServer os port h w)"
proof -
  obtain l s' where l: "os_socket_dgram os (os_state (main_obj w)) = (l, s')" by fastforce
  have store: "post multicast_failures setup_ok (rbind (multicast_socket os v)
      (\<lambda>(sock, w). Inr (w\<lparr>main_obj := (main_obj w)\<lparr>multicastSendSocket := sock\<rparr>\<rparr>)))" if "setup_ok v" for v
    by (rule post_bind [OF multicast_socket_safe [OF that]]) (auto simp: setup_ok_def Let_def)
  have "l = -1 \<or> in_fdset l" using socket_range [OF l] limit_small by (auto simp: in_fdset_def)
  with l assms show ?thesis unfolding multicast_bindServer_def
    by (intro post_bind [OF sin_port_safe])
      (auto simp: sys_def sys_do_def Let_def split: prod.splits intro!: store, auto simp: setup_ok_def Let_def)
qed

lemma multicast_request_safe:
  assumes "setup_ok w"
  shows "post multicast_failures setup_ok
    (case params_enter u w of (f, w) \<Rightarrow>
       rbind (multicast_handler_enable (multicast_parent os) h (setContext h (Some f) w)) (\<lambda>w.
       Inr (params_leave f (sys_do (os_close os usock) w))))"
proof -
  obtain f v where f: "params_enter u w = (f, v)" by fastforce
  have ok: "setup_ok (setContext h (Some f) v) \<and> context_live h (setContext h (Some f) v)"
    using f assms by (auto simp: params_enter_def setup_ok_def context_live_def Let_def)
  have "post multicast_failures (\<lambda>w. setup_ok w \<and> context_live h w)
      (multicast_handler_enable (multicast_parent os) h (setContext h (Some f) v))"
    using post_MulticastClient_sendData [OF setup_keeps] ok
    by (cases h) (simp_all add: MulticastClient_enable_def)
  then show ?thesis unfolding f prod.case
    by (rule post_bind) (auto simp: setup_ok_def params_leave_def sys_do_def Let_def)
qed

lemma multicast_connectToServer_safe:
  assumes "setup_ok w"
  shows "post multicast_failures setup_ok (multicast_connectToServer os address port h w)"
proof -
  have store: "setup_ok (v\<lparr>main_obj := (main_obj v)\<lparr>dest := sock, client := Some h\<rparr>\<rparr>)" if "setup_ok v" "in_fdset sock"
    for v sock using that by (simp add: setup_ok_def Let_def)
  have request: "post multicast_failures setup_ok (rbind (multicast_socket os v) (\<lambda>(usock, w).
      rbind (sin_port port) (\<lambda>p.
      case params_enter \<lparr>socketfd = usock, params_dest = (a, p)\<rparr> w of (u, w) \<Rightarrow>
        rbind (multicast_handler_enable (multicast_parent os) h (setContext h (Some u) w)) (\<lambda>w.
        Inr (params_leave u (sys_do (os_close os usock) w))))))" if "setup_ok v" for v a
    by (rule post_bind [OF multicast_socket_safe [OF that]])
      (auto intro!: post_bind [OF sin_port_safe] multicast_request_safe simp del: case_prod_unfold)
  show ?thesis unfolding multicast_connectToServer_def
    by (intro post_bind [OF multicast_sin_port_safe [OF assms]] post_bind [OF multicast_socket_safe [OF assms]])
      (auto simp: Let_def split: prod.splits intro!: request store dest!: setup_ok_sysD)
qed

lemma multicast_roles_safe:
  assumes "setup_ok (setMulticastPort (arg_multicastPort a) w)"
  shows "post multicast_failures (\<lambda>_. True) (multicast_roles os fuel a w)"
  unfolding multicast_roles_def Let_def using assms
  by (auto intro!: post_bind [where Q = setup_ok] multicast_bindServer_safe multicast_connectToServer_safe
      multicast_process_safe)

end

subsection \<open>The option parser\<close>

text \<open>The option string is that of the echo program, so what \<open>getopt\<close> returns is known.\<close>

lemma multicast_parse_outcome:
  assumes "\<And>r. r \<in> set rs \<Longrightarrow> r = (CHR ''?'', None) \<or> r \<in> {(CHR ''c'', None), (CHR ''s'', None)} \<or>
     (\<exists>v. r = (CHR ''p'', Some v) \<or> r = (CHR ''a'', Some v))"
  shows "if (CHR ''?'', None) \<in> set rs then multicast_parse_options rs a = Inl (Exit 1 usage)
         else \<exists>b. multicast_parse_options rs a = Inr b \<and> arg_multicastPort b = arg_multicastPort a"
  using assms
proof (induction rs arbitrary: a)
  case (Cons r rs)
  then have IH: "if (CHR ''?'', None) \<in> set rs then multicast_parse_options rs b = Inl (Exit 1 usage)
         else \<exists>c. multicast_parse_options rs b = Inr c \<and> arg_multicastPort c = arg_multicastPort b" for b
    by auto
  from Cons.prems [of r] show ?case
    using IH [of a] IH [of "a\<lparr>isClientOnly := True\<rparr>"] IH [of "a\<lparr>isServerOnly := True\<rparr>"]
      IH [of "a\<lparr>pPort := v\<rparr>" for v] IH [of "a\<lparr>pAddress := v\<rparr>" for v]
    by (auto simp: multicast_parse_option_def split: if_splits)
qed simp

lemma multicast_parseArgs_cases:
  "multicast_parseArgs argv MulticastArgParser_new = Inl (Exit 1 usage) \<or>
   (\<exists>a. multicast_parseArgs argv MulticastArgParser_new = Inr a \<and> arg_multicastPort a = ''8100'')"
proof -
  have "if (CHR ''?'', None) \<in> set (getopt_from ''csp:a:'' [] argv)
      then multicast_parse_options (getopt_from ''csp:a:'' [] argv) MulticastArgParser_new = Inl (Exit 1 usage)
      else \<exists>b. multicast_parse_options (getopt_from ''csp:a:'' [] argv) MulticastArgParser_new = Inr b \<and>
        arg_multicastPort b = arg_multicastPort MulticastArgParser_new"
    by (rule multicast_parse_outcome) (rule getopt_from_results)
  then show ?thesis
    by (auto simp: multicast_parseArgs_def multicast_opt_def MulticastArgParser_new_def split: if_splits)
qed

text \<open>
  The port of the multicast group cannot be chosen: \<open>parseArgs\<close> has a case for the option \<open>m\<close>, but
  the option string does not name it, so every command line ends in the usage message or leaves the
  port at 8100.
\<close>

theorem multicast_port_fixed:
  "multicast_parseArgs argv MulticastArgParser_new = Inl (Exit 1 usage) \<or>
   (\<exists>a. multicast_parseArgs argv MulticastArgParser_new = Inr a \<and> arg_multicastPort a = ''8100'')"
  by (rule multicast_parseArgs_cases)

subsection \<open>Safety\<close>

definition loopback_multicast :: "kernel multicast_os" where
  "loopback_multicast = \<lparr>os_socket = k_open TcpNew, os_nonblock = (\<lambda>fd k. k), os_reuseaddr = (\<lambda>fd k. k),
     os_bind = k_bind, os_listen = k_listen, os_connect = k_connect, os_accept = k_accept,
     os_recv = k_recv, os_send = k_send, os_close = k_close,
     os_socket_dgram = k_open (UdpSock 0 []), os_recvfrom = k_recvfrom, os_sendto = k_sendto,
     os_select = k_select, os_add_membership = k_join, os_rcvbuf = (\<lambda>fd n k. (True, k))\<rparr>"

interpretation loopback_multicast: multicast_kernel loopback_multicast 1024
proof (unfold_locales, goal_cases)
  case (1 s r s')
  then show ?case using k_open_in_use [of "UdpSock 0 []" s r s'] by (auto simp: loopback_multicast_def)
next
  case (2 nfds S s R s' i)
  then show ?case by (auto simp: loopback_multicast_def k_select_def Let_def split: if_splits)
qed (simp add: FD_SETSIZE_def)

text \<open>
  C11. For every operating system that gives out descriptors below \<open>FD_SETSIZE\<close> and whose \<open>select\<close> reports
  only what it was asked about, and for every command line: no run of the multicast program leaves
  the arrays or a descriptor set, sends through a pointer to a dead \<open>UdpParams\<close>, or converts a null port.
\<close>

theorem multicast_safe:
  assumes "multicast_kernel os limit"
  shows "multicast_main os s ck fuel argv
     \<notin> {Inl (Undef ''array index out of bounds''), Inl (Undef ''fd_set out of bounds''),
        Inl (Undef ''dangling context''), Inl (Undef ''atoi of null'')}"
proof -
  let ?F = "insert (Exit 1 usage) (multicast_kernel.multicast_failures)"
  have start_ok: "multicast_kernel.setup_ok (setMulticastPort p (multicast_initialize (multicast_start s ck 1000)))" for p
    by (simp add: multicast_kernel.setup_ok_def [OF assms] setMulticastPort_def multicast_initialize_def
        multicast_start_def multicast_zero_def)
  have "post ?F (\<lambda>_. True) (multicast_roles os fuel a (multicast_initialize (multicast_start s ck 1000)))" for a
    by (rule post_mono [OF multicast_kernel.multicast_roles_safe [OF assms start_ok]]) auto
  then have "post ?F (\<lambda>_. True) (multicast_main os s ck fuel argv)"
    using multicast_parseArgs_cases [of argv] by (auto simp: multicast_main_def Let_def)
  then show ?thesis
    by (auto simp: post_def multicast_kernel.multicast_failures_def [OF assms] handler_failures_def usage_def)
qed

theorem multicast_safe_witness:
  "multicast_main loopback_multicast kernel_zero still_clock 10 [''-c'', ''-p'', ''99'']
     \<notin> {Inl (Undef ''array index out of bounds''), Inl (Undef ''fd_set out of bounds''),
        Inl (Undef ''dangling context''), Inl (Undef ''atoi of null'')}"
  by (rule multicast_safe [OF loopback_multicast.multicast_kernel_axioms])

subsection \<open>The program on one machine\<close>

text \<open>
  The network between two rounds of the loop: the listener is descriptor 3, the socket that sends to
  the group 4 (bound by its first send), the client's member socket 5. \<open>multicast_net reqs n k\<close>: the
  requests \<open>reqs\<close> wait at the listener and \<open>n\<close> responses at the member.
\<close>

abbreviation group_addr :: "32 word" where
  "group_addr \<equiv> 0xE2000001"

lemma inet_addr_group: "inet_addr multicast_address = group_addr"
  by (simp add: inet_addr_def multicast_address_def is_space_def inet_number_def digit_in_def)

lemma inet_addr_default: "inet_addr ''127.0.0.1'' = 0x7F000001"
  by (simp add: inet_addr_def is_space_def inet_number_def digit_in_def)

definition multicast_net :: "string list \<Rightarrow> nat \<Rightarrow> kernel \<Rightarrow> bool" where
  "multicast_net reqs n k \<longleftrightarrow>
     (\<exists>q p rs. files k 3 = Some (UdpSock 8000 q) \<and> map fst q = reqs \<and>
       files k 4 = Some (UdpSock p []) \<and> (p = 0 \<longrightarrow> uports k (ephemeral k) = None \<and> ephemeral k \<noteq> 0) \<and>
       files k 5 = Some (UdpSock 8100 rs) \<and> map fst rs = replicate n server_message) \<and>
     groups k group_addr = [5]"

definition multicast_wf :: "string list \<Rightarrow> nat \<Rightarrow> kernel multicast_world \<Rightarrow> bool" where
  "multicast_wf reqs n w \<longleftrightarrow> (let m = main_obj w in
     listener m = 3 \<and> \<not> loopEnd m \<and> \<not> sel_returned m \<and> sel_fds m = [3, 5] \<and>
     sel_states m 3 = Some (Some ServerObj) \<and> sel_states m 5 = Some (Some ClientObj) \<and>
     params_at m 1 = Some \<lparr>socketfd = 4, params_dest = (group_addr, 8100)\<rparr> \<and>
     (\<forall>h. getParent h w = Some MainProcessor) \<and> multicast_net reqs n (os_state m))"

lemma multicast_net_send:
  assumes "multicast_net reqs n k"
  shows "\<exists>k'. k_sendto 4 server_message (group_addr, 8100) k = (19, k') \<and> multicast_net reqs (Suc n) k'"
proof -
  from assms obtain q p rs where k: "files k 3 = Some (UdpSock 8000 q)" "map fst q = reqs"
    "files k 4 = Some (UdpSock p [])" "p = 0 \<longrightarrow> uports k (ephemeral k) = None \<and> ephemeral k \<noteq> 0"
    "files k 5 = Some (UdpSock 8100 rs)" "map fst rs = replicate n server_message" "groups k group_addr = [5]"
    by (auto simp: multicast_net_def)
  then show ?thesis
    by (auto simp: k_sendto_def k_receivers_def local_addr_def multicast_net_def Let_def replicate_append_same)
qed

lemma multicast_send_all:
  assumes "multicast_wf reqs n w" and "getContext ServerObj w = Some 1"
  shows "\<exists>w'. MulticastServer_send_all (multicast_parent loopback_multicast) m w = Inr w' \<and>
    multicast_wf reqs (n + m) w' \<and> app_of w' = app_of w"
  using assms
proof (induction m arbitrary: n w)
  case (Suc m)
  from Suc.prems obtain k' where k': "k_sendto 4 server_message (group_addr, 8100) (os_state (main_obj w)) = (19, k')"
    "multicast_net reqs (Suc n) k'"
    using multicast_net_send [of reqs n "os_state (main_obj w)"] by (auto simp: multicast_wf_def Let_def)
  let ?w = "w\<lparr>main_obj := (main_obj w)\<lparr>os_state := k'\<rparr>\<rparr>"
  have "EventHandler_send (multicast_parent loopback_multicast) ServerObj server_message 19 True w = Inr ?w"
    using Suc.prems k'(1)
    by (simp add: EventHandler_send_def multicast_parent_def multicast_send_def multicast_wf_def hid_all
        loopback_multicast_def sys_def Let_def)
  moreover have "multicast_wf reqs (Suc n) ?w" "getContext ServerObj ?w = Some 1"
    using Suc.prems k'(2) by (simp_all add: multicast_wf_def Let_def)
  moreover from Suc.IH [OF this] obtain w' where
    "MulticastServer_send_all (multicast_parent loopback_multicast) m ?w = Inr w'"
    "multicast_wf reqs (Suc n + m) w'" "app_of w' = app_of ?w" by blast
  ultimately show ?case by (auto simp: frame_simps)
qed simp

text \<open>What \<open>select\<close> is asked about and what it reports.\<close>

lemma multicast_fdset:
  "fill_fdset [3, 5] 3 (\<lambda>_. False) = Inr (5, \<lambda>i. i = 3 \<or> i = 5)"
  by (auto simp: FD_SET_def in_fdset_def FD_SETSIZE_def fun_eq_iff)

lemma scan_numbers: "map int [0..<nat (5 + 1)] = [0, 1, 2, 3, 4, 5]"
  by (simp add: upt_rec)

lemma multicast_select:
  assumes "multicast_net reqs n k"
  shows "k_select 6 (\<lambda>i. i = 3 \<or> i = 5) k =
    (if reqs = [] \<and> n = 0 then SelBlocks else SelReady (\<lambda>i. i = 3 \<and> reqs \<noteq> [] \<or> i = 5 \<and> 0 < n), k)"
proof -
  from assms obtain q rs where k: "files k 3 = Some (UdpSock 8000 q)" "map fst q = reqs"
    "files k 5 = Some (UdpSock 8100 rs)" "map fst rs = replicate n server_message" by (auto simp: multicast_net_def)
  have "length rs = n" using arg_cong [OF k(4), of length] by simp
  then have "k_readable k 3 \<longleftrightarrow> reqs \<noteq> []" "k_readable k 5 \<longleftrightarrow> 0 < n"
    using k by (auto simp: k_readable_def)
  then show ?thesis using scan_numbers by (auto simp: k_select_def fun_eq_iff)
qed

lemma multicast_iter_scan:
  assumes "multicast_wf reqs n w"
  shows "multicast_iter loopback_multicast 1 w =
    (if reqs = [] \<and> n = 0 then Inl (Blocked ''select'')
     else multicast_scan loopback_multicast 1 (\<lambda>i. i = 3 \<and> reqs \<noteq> [] \<or> i = 5 \<and> 0 < n) [0, 1, 2, 3, 4, 5] w)"
proof -
  have net: "multicast_net reqs n (os_state (main_obj w))" and m: "sel_fds (main_obj w) = [3, 5]" "listener (main_obj w) = 3"
    using assms by (simp_all add: multicast_wf_def Let_def)
  show ?thesis
    using multicast_select [OF net] scan_numbers
    by (simp add: multicast_iter_def m multicast_fdset sys_def loopback_multicast_def del: fill_fdset.simps)
qed

text \<open>The round that delivers the request: the server sends all its messages.\<close>

lemma multicast_request_round:
  assumes wf: "multicast_wf [client_message] 0 w" and N: "numMessages w = int N"
  shows "\<exists>w'. multicast_iter loopback_multicast 1 w = Inr w' \<and> multicast_wf [] N w' \<and> app_of w' = app_of w"
proof -
  let ?k = "os_state (main_obj w)"
  from wf obtain a p where k: "files ?k 3 = Some (UdpSock 8000 [(client_message, a)])"
    "files ?k 4 = Some (UdpSock p [])" "p = 0 \<longrightarrow> uports ?k (ephemeral ?k) = None \<and> ephemeral ?k \<noteq> 0"
    "files ?k 5 = Some (UdpSock 8100 [])" "groups ?k group_addr = [5]"
    by (auto simp: multicast_wf_def multicast_net_def Let_def map_eq_Cons_conv)
  let ?k' = "?k\<lparr>files := (files ?k)(3 \<mapsto> UdpSock 8000 [])\<rparr>"
  let ?w = "setContext ServerObj (Some 1) (w\<lparr>main_obj := (main_obj w)\<lparr>os_state := ?k'\<rparr>\<rparr>)"
  have "multicast_wf [] 0 ?w" using wf k by (auto simp: multicast_wf_def multicast_net_def Let_def hid_all)
  from multicast_send_all [OF this, of N] obtain w' where
    w': "MulticastServer_send_all (multicast_parent loopback_multicast) N ?w = Inr w'" "multicast_wf [] N w'"
      "app_of w' = app_of ?w" by auto
  have r: "k_recvfrom 3 1024 ?k = (Some (client_message, a), ?k')" using k(1) by (simp add: k_recvfrom_def)
  have "sel_states (main_obj w) 3 = Some (Some ServerObj)" using wf by (simp add: multicast_wf_def Let_def)
  then have "multicast_scan_body loopback_multicast 1 (\<lambda>i. i = 3) 3 w = Inr w'"
    using r w'(1) N
    by (cases a) (simp add: multicast_scan_body_def sys_def loopback_multicast_def MulticastServer_process_def
        recv_into_def res_simps)
  then have "multicast_iter loopback_multicast 1 w = Inr w'"
    using multicast_iter_scan [OF wf] by (simp add: multicast_scan_body_def)
  then show ?thesis using w'(2,3) by (metis app_of_setContext app_of_main_obj)
qed

lemma multicast_scan_Nil: "multicast_scan os params readset [] = Inr"
  by (rule ext) simp

text \<open>A round that delivers a response.\<close>

lemma multicast_response_round:
  assumes wf: "multicast_wf [] (Suc n) w"
  shows "\<exists>w1. multicast_iter loopback_multicast 1 w =
      MulticastClient_process (multicast_parent loopback_multicast) (map Some server_message @ replicate 1005 None) 19 True w1 \<and>
    multicast_wf [] n w1 \<and> app_of w1 = app_of w"
proof -
  let ?k = "os_state (main_obj w)"
  from wf obtain a p rs where k: "files ?k 3 = Some (UdpSock 8000 [])"
    "files ?k 4 = Some (UdpSock p [])" "p = 0 \<longrightarrow> uports ?k (ephemeral ?k) = None \<and> ephemeral ?k \<noteq> 0"
    "files ?k 5 = Some (UdpSock 8100 ((server_message, a) # rs))" "map fst rs = replicate n server_message"
    "groups ?k group_addr = [5]"
    by (auto simp: multicast_wf_def multicast_net_def Let_def map_eq_Cons_conv)
  let ?k' = "?k\<lparr>files := (files ?k)(5 \<mapsto> UdpSock 8100 rs)\<rparr>"
  let ?w = "setContext ClientObj (Some 1) (w\<lparr>main_obj := (main_obj w)\<lparr>os_state := ?k'\<rparr>\<rparr>)"
  have "multicast_wf [] n ?w" using wf k by (auto simp: multicast_wf_def multicast_net_def Let_def hid_all)
  moreover have r: "k_recvfrom 5 1024 ?k = (Some (server_message, a), ?k')" using k(4) by (simp add: k_recvfrom_def)
  have "sel_states (main_obj w) 5 = Some (Some ClientObj)" using wf by (simp add: multicast_wf_def Let_def)
  then have "multicast_scan_body loopback_multicast 1 (\<lambda>i. i = 5) 5 w =
      MulticastClient_process (multicast_parent loopback_multicast) (map Some server_message @ replicate 1005 None) 19 True ?w"
    using r
    by (cases a) (simp add: multicast_scan_body_def sys_def loopback_multicast_def recv_into_def)
  then have "multicast_iter loopback_multicast 1 w =
      MulticastClient_process (multicast_parent loopback_multicast) (map Some server_message @ replicate 1005 None) 19 True ?w"
    using multicast_iter_scan [OF wf] by (simp add: multicast_scan_body_def multicast_scan_Nil rbind_Inr_right)
  ultimately show ?thesis by (metis app_of_setContext app_of_main_obj)
qed

text \<open>
  The application after \<open>k\<close> of \<open>N\<close> responses, and at the end: one request was sent, and the report has
  the times of the first and of the last response.
\<close>

definition multicast_counted :: "nat \<Rightarrow> nat \<Rightarrow> (nat \<Rightarrow> timeval) \<Rightarrow> 'o multicast_world \<Rightarrow> bool" where
  "multicast_counted k N ck w \<longleftrightarrow>
     app_of w = ((int k, 1, int N, if k = 0 then None else Some (ck 1)), ck,
                 if k = 0 then 0 else 2, if k = 0 then [] else [PrintedTime (ck 0)])"

definition multicast_done :: "nat \<Rightarrow> (nat \<Rightarrow> timeval) \<Rightarrow> 'o multicast_world \<Rightarrow> bool" where
  "multicast_done N ck w \<longleftrightarrow> numGot (client_obj w) = int N \<and> numSent (client_obj w) = 1 \<and>
     stdout w = [PrintedTime (ck 0), PrintedTime (ck 3),
       PrintedReport (int N) (usecs (ck 2) - usecs (ck 1))
         (int N * 1000000 div max 1 (usecs (ck 2) - usecs (ck 1)))]"

lemma app_of_multicast_counted:
  "multicast_counted k N ck w \<Longrightarrow>
   app_of (client_counted w) = ((int (Suc k), 1, int N, Some (ck 1)), ck, 2, [PrintedTime (ck 0)])"
  by (auto simp: multicast_counted_def client_counted_def Let_def clock_defs app_of_def split: if_splits)

lemma multicast_wf_net: "multicast_wf reqs n w \<Longrightarrow> net_of w' = net_of w \<Longrightarrow> multicast_wf reqs n w'"
  using net_of_eqD [of w' w] by (simp add: multicast_wf_def)

lemma MulticastClient_next:
  assumes "multicast_counted k N ck w" and "Suc k < N" and "int N \<le> INT_MAX" and "multicast_wf reqs n w"
  shows "\<exists>w'. MulticastClient_process P (map Some server_message @ rest) len eof w = Inr w' \<and>
    multicast_counted (Suc k) N ck w' \<and> multicast_wf reqs n w'"
proof -
  let ?w = "client_counted w"
  have "int_ok (numGot (client_obj w) + 1)"
    using assms by (auto simp: multicast_counted_def app_of_def int_ok_def INT_MAX_def)
  moreover have "numGot (client_obj ?w) \<noteq> maxSend (client_obj ?w)"
    using app_of_multicast_counted [OF assms(1)] assms(2) by (simp add: app_of_def)
  ultimately have "MulticastClient_process P (map Some server_message @ rest) len eof w = Inr ?w"
    by (simp add: MulticastClient_process_ok Let_def)
  moreover have "multicast_counted (Suc k) N ck ?w"
    using app_of_multicast_counted [OF assms(1)] by (simp add: multicast_counted_def)
  ultimately show ?thesis using multicast_wf_net [OF assms(4) net_of_client_counted] by blast
qed

lemma MulticastClient_last:
  assumes "multicast_counted k N ck w" and k: "Suc k = N" and N: "int N \<le> INT_MAX" and ck: "clock_sane ck"
    and "usecs (ck 1) \<le> usecs (ck 2)" and par: "getParent ClientObj w = Some MainProcessor"
  shows "\<exists>w'. MulticastClient_process (multicast_parent os) (map Some server_message @ rest) len eof w = Inr w' \<and>
    multicast_ended w' \<and> multicast_done N ck w'"
proof -
  let ?w = "client_counted w"
  have ok: "int_ok (numGot (client_obj w) + 1)"
    using assms(1-3) by (auto simp: multicast_counted_def app_of_def int_ok_def INT_MAX_def)
  have a: "numGot (client_obj ?w) = int N" "maxSend (client_obj ?w) = int N" "beginTime (client_obj ?w) = Some (ck 1)"
    "clock ?w = ck" "clock_reads ?w = 2" "stdout ?w = [PrintedTime (ck 0)]" "numSent (client_obj ?w) = 1"
    using app_of_multicast_counted [OF assms(1)] k by (auto simp: app_of_def)
  have diff: "getTimeDiff (ck i) (ck j) = Inr (usecs (ck i) - usecs (ck j))" for i j
    using ck by (simp add: getTimeDiff_exact clock_sane_def)
  have "usecs (ck 2) < 2 ^ 62" "0 \<le> usecs (ck 1)"
    using usecs_bounds [of "ck 1"] usecs_bounds [of "ck 2"] ck by (auto simp: clock_sane_def)
  then have rep: "EchoClient_report (int N) (word_of_int (usecs (ck 2) - usecs (ck 1))) = PrintedReport (int N)
      (usecs (ck 2) - usecs (ck 1)) (int N * 1000000 div max 1 (usecs (ck 2) - usecs (ck 1)))"
    using N assms(5) by (intro EchoClient_report_exact) auto
  have "parent (client_obj ?w) = Some MainProcessor"
    using par net_of_eqD(3) [OF net_of_client_counted, of ClientObj w] by simp
  then show ?thesis
    using ok rep by (simp add: MulticastClient_process_ok a diff Let_def clock_defs multicast_parent_def
        multicast_cancelLoop_def multicast_ended_def multicast_done_def numeral_3_eq_3 numeral_2_eq_2
        del: One_nat_def of_int_diff)
qed

text \<open>All responses: one round each.\<close>

lemma multicast_responses:
  assumes "multicast_wf [] (N - k) w" and "multicast_counted k N ck w" and "k < N" and "int N \<le> INT_MAX"
    and "clock_sane ck" and "usecs (ck 1) \<le> usecs (ck 2)"
  shows "\<exists>w'. run_loop multicast_ended (multicast_iter loopback_multicast 1) (N - k) w = Inr w' \<and> multicast_done N ck w'"
  using assms(1-3)
proof (induction "N - k" arbitrary: k w)
  case (Suc d)
  have d: "N - k = Suc d" "N - Suc k = d" using Suc.hyps(2) by auto
  have run: "\<not> multicast_ended w" using Suc.prems(1) by (simp add: multicast_wf_def multicast_ended_def Let_def)
  from multicast_response_round Suc.prems(1) obtain w1 where
    1: "multicast_iter loopback_multicast 1 w = MulticastClient_process (multicast_parent loopback_multicast)
          (map Some server_message @ replicate 1005 None) 19 True w1" "multicast_wf [] d w1" "app_of w1 = app_of w"
    unfolding d(1) by blast
  have c: "multicast_counted k N ck w1" using 1(3) Suc.prems(2) by (simp add: multicast_counted_def)
  show ?case
  proof (cases "Suc k = N")
    case True
    have "getParent ClientObj w1 = Some MainProcessor" using 1(2) by (simp add: multicast_wf_def Let_def)
    from MulticastClient_last [OF c True assms(4-6) this, of loopback_multicast "replicate 1005 None" 19 True]
    show ?thesis using run 1(1) unfolding d(1) by (auto simp: run_loop_fin simp del: One_nat_def)
  next
    case False
    then have k: "Suc k < N" using Suc.prems(3) by simp
    from MulticastClient_next [OF c k assms(4) 1(2)] obtain w2 where
      2: "multicast_iter loopback_multicast 1 w = Inr w2" "multicast_counted (Suc k) N ck w2" "multicast_wf [] d w2"
      unfolding 1(1) by blast
    from Suc.hyps(1) [of "Suc k" w2] 2(2,3) k show ?thesis
      unfolding d by (simp add: run 2(1) del: One_nat_def)
  qed
qed simp

lemmas multicast_setup_simps = multicast_bindServer_def multicast_initialize_def multicast_start_def multicast_zero_def
  multicast_connectToServer_def MulticastClient_new_def MulticastServer_new_def EventHandler_new_def sys_def sys_do_def
  loopback_multicast_def params_enter_def params_leave_def multicast_sin_port_def multicast_socket_def
  setMulticastPort_def MulticastArgParser_new_def

lemma multicast_port_value [res_simps]: "sin_port ''8100'' = Inr 8100"
  by (simp add: sin_port_def atoi_def strtol_scan_def is_space_def is_digit_def digits_val_def digit_val_def
      int_ok_def INT_MAX_def)

lemma buildfds_two:
  assumes "in_fdset a" and "in_fdset b" and "a < b"
  shows "buildfds [b \<mapsto> x, a \<mapsto> y] = [a, b]"
proof (rule sorted_distinct_set_unique)
  have "sorted (map int [0..<nat FD_SETSIZE])" by (simp add: sorted_map sorted_wrt_upt strict_sorted_imp_sorted)
  then show "sorted (buildfds [b \<mapsto> x, a \<mapsto> y])" by (simp add: buildfds_def sorted_wrt_filter)
  show "set (buildfds [b \<mapsto> x, a \<mapsto> y]) = set [a, b]" using assms by (auto simp: set_buildfds)
qed (use assms(3) in \<open>simp_all add: buildfds_distinct\<close>)

lemma multicast_setup:
  "\<exists>w1 w2 w3. multicast_bindServer loopback_multicast ''8000'' ServerObj
       (setMulticastPort ''8100'' (multicast_initialize (multicast_start kernel_zero ck (int N)))) = Inr w1 \<and>
     multicast_connectToServer loopback_multicast ''127.0.0.1'' ''8000'' ClientObj w1 = Inr w2 \<and>
     multicast_prepare w2 = Inr (1, w3) \<and>
     multicast_wf [client_message] 0 w3 \<and> numMessages w3 = int N \<and> multicast_counted 0 N ck w3"
  by (simp add: multicast_setup_simps kernel_ops res_simps Let_def MulticastClient_enable_def MulticastClient_sendData_def
      EventHandler_send_def multicast_parent_def multicast_send_def int_ok_def INT_MAX_def multicast_prepare_def
      k_sendto_def k_receivers_def local_addr_def k_join_def k_close_def forget_fd_def inet_addr_group inet_addr_default
      set_state_def push_fd_def rebuild_def in_fdset_def FD_SETSIZE_def buildfds_two multicast_wf_def multicast_net_def
      hid_all multicast_counted_def app_of_def)

lemma multicast_roles_complete:
  assumes "0 < N" and "int N \<le> INT_MAX" and "clock_sane ck" and "usecs (ck 1) \<le> usecs (ck 2)" and "N < fuel"
  shows "\<exists>w. multicast_roles loopback_multicast fuel MulticastArgParser_new
      (multicast_initialize (multicast_start kernel_zero ck (int N))) = Inr w \<and> multicast_done N ck w"
proof -
  let ?a = MulticastArgParser_new and ?iter = "multicast_iter loopback_multicast 1"
  from multicast_setup [of ck N] obtain w1 w2 w3 where
    s: "multicast_bindServer loopback_multicast ''8000'' ServerObj
       (setMulticastPort ''8100'' (multicast_initialize (multicast_start kernel_zero ck (int N)))) = Inr w1"
     "multicast_connectToServer loopback_multicast ''127.0.0.1'' ''8000'' ClientObj w1 = Inr w2"
     "multicast_prepare w2 = Inr (1, w3)"
    and start: "multicast_wf [client_message] 0 w3" "numMessages w3 = int N" "multicast_counted 0 N ck w3" by blast
  from multicast_request_round [OF start(1,2)] obtain w4 where
    4: "?iter w3 = Inr w4" "multicast_wf [] N w4" "app_of w4 = app_of w3" by blast
  have "multicast_counted 0 N ck w4" using start(3) 4(3) by (simp add: multicast_counted_def)
  from multicast_responses [of N 0 w4 ck, OF _ this assms(1-4)] 4(2) obtain w5 where
    5: "run_loop multicast_ended ?iter N w4 = Inr w5" "multicast_done N ck w5" by auto
  obtain f where f: "fuel = Suc f" "N \<le> f" using assms(5) by (cases fuel) auto
  have "\<not> multicast_ended w3" using start(1) by (simp add: multicast_wf_def multicast_ended_def Let_def)
  then have "run_loop multicast_ended ?iter fuel w3 = Inr w5"
    using 4(1) 5(1) run_loop_more [of multicast_ended ?iter N w4 f] f by simp
  then have "multicast_process loopback_multicast fuel w2 = Inr (params_leave 1 w5)"
    using s(3) by (simp add: multicast_process_def)
  moreover have "multicast_done N ck (params_leave 1 w5)" using 5(2) by (simp add: multicast_done_def params_leave_def)
  ultimately show ?thesis
    using s(1,2) by (simp add: multicast_roles_def MulticastArgParser_new_def)
qed

text \<open>
  C24. On one machine, whose datagrams are not lost and whose socket buffers hold them, the multicast
  program run with no arguments completes: one round of the loop delivers the request, upon which
  the server sends 1000 messages to the group, and every further round delivers one of them to the
  client, which then prints the report.
\<close>

theorem multicast_main_completes:
  assumes "clock_sane ck" and "usecs (ck 1) \<le> usecs (ck 2)" and "1001 \<le> fuel"
  shows "\<exists>w. multicast_main loopback_multicast kernel_zero ck fuel [] = Inr w \<and> multicast_done 1000 ck w"
  using multicast_roles_complete [of 1000 ck fuel] assms
  by (simp add: multicast_main_def multicast_parseArgs_def INT_MAX_def)

theorem multicast_main_completes_witness:
  "\<exists>w. multicast_main loopback_multicast kernel_zero still_clock 1001 [] = Inr w \<and> multicast_done 1000 still_clock w"
  by (rule multicast_main_completes) simp_all

text \<open>
  C37. There is no retransmission and no time-out: when fewer messages are left for the client than it
  still counts on, as after the loss of a datagram, it takes those that are there and then waits in
  \<open>select\<close> for ever.
\<close>

theorem multicast_loss_blocks:
  assumes "multicast_wf [] n w" and "multicast_counted k N ck w" and "k + n < N" and "int N \<le> INT_MAX"
    and "n < fuel"
  shows "run_loop multicast_ended (multicast_iter loopback_multicast 1) fuel w = Inl (Blocked ''select'')"
  using assms(1-3,5)
proof (induction n arbitrary: k w fuel)
  case 0
  then obtain f where "fuel = Suc f" by (cases fuel) auto
  then show ?case
    using 0 multicast_iter_scan [OF 0(1)]
    by (simp add: multicast_wf_def multicast_ended_def Let_def del: One_nat_def)
next
  case (Suc n)
  then obtain f where f: "fuel = Suc f" "n < f" by (cases fuel) auto
  from multicast_response_round [OF Suc.prems(1)] obtain w1 where
    1: "multicast_iter loopback_multicast 1 w = MulticastClient_process (multicast_parent loopback_multicast)
          (map Some server_message @ replicate 1005 None) 19 True w1" "multicast_wf [] n w1" "app_of w1 = app_of w" by blast
  have c: "multicast_counted k N ck w1" using 1(3) Suc.prems(2) by (simp add: multicast_counted_def)
  have k: "Suc k < N" using Suc.prems(3) by simp
  from MulticastClient_next [OF c k assms(4) 1(2)] obtain w2 where
    2: "multicast_iter loopback_multicast 1 w = Inr w2" "multicast_counted (Suc k) N ck w2" "multicast_wf [] n w2"
    unfolding 1(1) by blast
  have "\<not> multicast_ended w" using Suc.prems(1) by (simp add: multicast_wf_def multicast_ended_def Let_def)
  then show ?case using Suc.IH [OF 2(3,2), of f] Suc.prems(3) f by (simp add: 2(1) del: One_nat_def)
qed

definition multicast_lossy_world :: "kernel multicast_world" where
  "multicast_lossy_world = (let w = multicast_start (kernel_zero\<lparr>files := [3 \<mapsto> UdpSock 8000 [], 4 \<mapsto> UdpSock 49153 [],
        5 \<mapsto> UdpSock 8100 [(server_message, 0x7F000001, 49153)]], groups := (\<lambda>_. [5])\<rparr>) still_clock 3
     in setParent ServerObj (setParent ClientObj w)\<lparr>client_obj := (client_obj (setParent ClientObj w))\<lparr>numSent := 1\<rparr>,
       main_obj := (main_obj w)\<lparr>listener := 3, dest := 5, sel_fds := [3, 5],
         sel_states := [5 \<mapsto> Some ClientObj, 3 \<mapsto> Some ServerObj],
         params_at := [1 \<mapsto> \<lparr>socketfd = 4, params_dest = (group_addr, 8100)\<rparr>]\<rparr>\<rparr>)"

theorem multicast_loss_blocks_witness:
  "multicast_wf [] 1 multicast_lossy_world \<and> multicast_counted 0 3 still_clock multicast_lossy_world \<and>
   run_loop multicast_ended (multicast_iter loopback_multicast 1) 5 multicast_lossy_world = Inl (Blocked ''select'')"
proof -
  have w: "multicast_wf [] 1 multicast_lossy_world" "multicast_counted 0 3 still_clock multicast_lossy_world"
    by (simp_all add: multicast_lossy_world_def multicast_wf_def multicast_net_def multicast_counted_def app_of_def
        multicast_start_def multicast_zero_def MulticastClient_new_def MulticastServer_new_def EventHandler_new_def
        kernel_zero_def hid_all Let_def)
  moreover from multicast_loss_blocks [OF w] have
    "run_loop multicast_ended (multicast_iter loopback_multicast 1) 5 multicast_lossy_world = Inl (Blocked ''select'')"
    by (simp add: INT_MAX_def)
  ultimately show ?thesis by blast
qed

end
