(* ===== verification/ZeromqMain.thy ===== *)
theory ZeromqMain
  imports PerfMain
begin

section \<open>The ZeroMQ transport (zeromqserver.cpp)\<close>

text \<open>
  \<open>ZeromqLoopMain\<close> exchanges messages over a pair of request and reply sockets of ZeroMQ. The library is
  a parameter: a record of functions on a state \<open>'o\<close>. Pointers to contexts and sockets are optional
  numbers, \<open>None\<close> for a null pointer. The buffer of \<open>process\<close> is declared outside of its loop, so it
  keeps the bytes of earlier messages and is part of the state. The second part of the theory is an
  executable library, request and reply sockets inside one machine.
\<close>

datatype zmq_kind = ZMQ_REP | ZMQ_REQ

datatype zmq_polled = ZPollBlocks | ZPollError | ZRevents "nat \<Rightarrow> bool"

datatype zmq_received = ZRecvBlocks | ZRecvError | ZMessage string

record 'o zmq_lib =
  zmq_ctx_new :: "'o \<Rightarrow> nat option \<times> 'o"
  zmq_socket :: "nat option \<Rightarrow> zmq_kind \<Rightarrow> 'o \<Rightarrow> nat option \<times> 'o"
  zmq_bind :: "nat option \<Rightarrow> string \<Rightarrow> 'o \<Rightarrow> int \<times> 'o"
  zmq_connect :: "nat option \<Rightarrow> string \<Rightarrow> 'o \<Rightarrow> int \<times> 'o"
  zmq_poll :: "nat option list \<Rightarrow> 'o \<Rightarrow> zmq_polled \<times> 'o"
  zmq_recv :: "nat option \<Rightarrow> nat \<Rightarrow> 'o \<Rightarrow> zmq_received \<times> 'o"
  zmq_send :: "nat option \<Rightarrow> string \<Rightarrow> 'o \<Rightarrow> int \<times> 'o"

definition MaxSize :: nat where "MaxSize = 512"

record 'o ZeromqLoopMain =
  zq_server :: "hid option"
  zq_client :: "hid option"
  zq_loopEnd :: bool
  zq_context :: "nat option"
  zq_state :: 'o
  zq_buffer :: cells

type_synonym 'o zmq_world = "(nat option, 'o ZeromqLoopMain) world"

definition zmq_zero :: "'o \<Rightarrow> 'o ZeromqLoopMain" where
  "zmq_zero s = \<lparr>zq_server = None, zq_client = None, zq_loopEnd = False, zq_context = None, zq_state = s, zq_buffer = []\<rparr>"

definition zcall :: "('o \<Rightarrow> 'a \<times> 'o) \<Rightarrow> 'o zmq_world \<Rightarrow> 'a \<times> 'o zmq_world" where
  "zcall f w = (let (r, s) = f (zq_state (main_obj w)) in (r, w\<lparr>main_obj := (main_obj w)\<lparr>zq_state := s\<rparr>\<rparr>))"

definition zmq_initialize :: "'o zmq_world \<Rightarrow> 'o zmq_world" where
  "zmq_initialize w = w\<lparr>main_obj := (main_obj w)\<lparr>zq_loopEnd := False, zq_server := None, zq_client := None,
     zq_context := None\<rparr>\<rparr>"

definition zmq_cancelLoop :: "'o zmq_world \<Rightarrow> 'o zmq_world" where
  "zmq_cancelLoop w = w\<lparr>main_obj := (main_obj w)\<lparr>zq_loopEnd := True\<rparr>\<rparr>"

text \<open>The member function \<open>send\<close>, and \<open>sprintf(path, "tcp://127.0.0.1:%s", port)\<close> into 256 bytes.\<close>

definition zmq_main_send ::
  "'o zmq_lib \<Rightarrow> hid option \<Rightarrow> char list \<Rightarrow> int \<Rightarrow> bool \<Rightarrow> 'o zmq_world \<Rightarrow> 'o zmq_world result"
where
  "zmq_main_send z p data len isDataEnd w =
     (case p of
        None \<Rightarrow> Inr w
      | Some h \<Rightarrow>
          if 0 \<le> len \<and> nat len \<le> length data
          then let (rc, w) = zcall (zmq_send z (getContext h w) (take (nat len) data)) w
               in if rc = -1 then Inl (Exit 1 ''zmq_send'') else Inr w
          else Inl (Undef ''send reads out of bounds''))"

definition zmq_parent :: "'o zmq_lib \<Rightarrow> 'o zmq_world parent_ops" where
  "zmq_parent z = \<lparr>em_send = zmq_main_send z, em_cancelLoop = zmq_cancelLoop\<rparr>"

definition zmq_path :: "string \<Rightarrow> string result" where
  "zmq_path port =
     (let path = ''tcp://127.0.0.1:'' @ port
      in if length path + 1 \<le> 256 then Inr path else Inl (Undef ''sprintf writes out of bounds''))"

definition createChannel :: "'o zmq_lib \<Rightarrow> bool \<Rightarrow> string \<Rightarrow> hid \<Rightarrow> 'o zmq_world \<Rightarrow> 'o zmq_world result" where
  "createChannel z isServer port h w =
     (let w = setParent h w;
          (ctx, w) = zcall (zmq_ctx_new z) w;
          w = w\<lparr>main_obj := (main_obj w)\<lparr>zq_context := ctx\<rparr>\<rparr>
      in rbind (zmq_path port) (\<lambda>path.
           if isServer
           then let (responder, w) = zcall (zmq_socket z ctx ZMQ_REP) w;
                    (rc, w) = zcall (zmq_bind z responder path) w
                in if rc \<noteq> 0 then Inl (Exit 1 ''zmq_bind'')
                   else let w = setContext h responder w
                        in Inr (w\<lparr>main_obj := (main_obj w)\<lparr>zq_server := Some h\<rparr>\<rparr>)
           else let (requester, w) = zcall (zmq_socket z ctx ZMQ_REQ) w;
                    (rc, w) = zcall (zmq_connect z requester path) w
                in if rc \<noteq> 0 then Inl (Exit 1 ''zmq_connect'')
                   else let w = setContext h requester w
                        in Inr (w\<lparr>main_obj := (main_obj w)\<lparr>zq_client := Some h\<rparr>\<rparr>)))"

definition zmq_bindServer :: "'o zmq_lib \<Rightarrow> string \<Rightarrow> hid \<Rightarrow> 'o zmq_world \<Rightarrow> 'o zmq_world result" where
  "zmq_bindServer z port h w = createChannel z True port h w"

definition zmq_connectToServer ::
  "'o zmq_lib \<Rightarrow> string \<Rightarrow> string \<Rightarrow> hid \<Rightarrow> 'o zmq_world \<Rightarrow> 'o zmq_world result"
where
  "zmq_connectToServer z address port h w =
     rbind (createChannel z False port h w) (handler_enable (zmq_parent z) h)"

text \<open>The poll items, and the loop over them: it handles the first readable one.\<close>

definition zmq_items :: "'o zmq_world \<Rightarrow> nat option list" where
  "zmq_items w = (case zq_client (main_obj w) of None \<Rightarrow> [] | Some h \<Rightarrow> [getContext h w]) @
     (case zq_server (main_obj w) of None \<Rightarrow> [] | Some h \<Rightarrow> [getContext h w])"

fun zmq_scan ::
  "'o zmq_lib \<Rightarrow> (nat \<Rightarrow> bool) \<Rightarrow> nat \<Rightarrow> nat option list \<Rightarrow> 'o zmq_world \<Rightarrow> 'o zmq_world result"
where
  "zmq_scan z revents i [] w = Inr w"
| "zmq_scan z revents i (sock # socks) w =
     (if revents i
      then let (r, w) = zcall (zmq_recv z sock MaxSize) w
           in case r of
                ZRecvBlocks \<Rightarrow> Inl (Blocked ''zmq_recv'')
              | ZRecvError \<Rightarrow> Inl (Exit 1 ''zmq_recv'')
              | ZMessage msg \<Rightarrow>
                  let w = w\<lparr>main_obj := (main_obj w)\<lparr>zq_buffer := recv_into (zq_buffer (main_obj w)) (take MaxSize msg)\<rparr>\<rparr>;
                      processor = (if i = 0 \<and> zq_client (main_obj w) \<noteq> None then zq_client (main_obj w)
                                   else zq_server (main_obj w))
                  in case processor of
                       None \<Rightarrow> Inl (Undef ''null handler'')
                     | Some h \<Rightarrow> handler_process (zmq_parent z) h (zq_buffer (main_obj w)) (int (length msg)) True w
      else zmq_scan z revents (Suc i) socks w)"

definition zmq_iter :: "'o zmq_lib \<Rightarrow> nat option list \<Rightarrow> 'o zmq_world \<Rightarrow> 'o zmq_world result" where
  "zmq_iter z items w =
     (let (r, w) = zcall (zmq_poll z items) w
      in case r of
           ZPollBlocks \<Rightarrow> Inl (Blocked ''zmq_poll'')
         | ZPollError \<Rightarrow> Inl (Exit 1 ''zmq_poll'')
         | ZRevents revents \<Rightarrow> zmq_scan z revents 0 items w)"

definition zmq_ended :: "'o zmq_world \<Rightarrow> bool" where
  "zmq_ended w \<longleftrightarrow> zq_loopEnd (main_obj w)"

definition zmq_process :: "'o zmq_lib \<Rightarrow> nat \<Rightarrow> 'o zmq_world \<Rightarrow> 'o zmq_world result" where
  "zmq_process z fuel w =
     (let w = w\<lparr>main_obj := (main_obj w)\<lparr>zq_buffer := replicate MaxSize None\<rparr>\<rparr>
      in run_loop zmq_ended (zmq_iter z (zmq_items w)) fuel w)"

definition zmq_main :: "'o zmq_lib \<Rightarrow> 'o zmq_world EventMain" where
  "zmq_main z = \<lparr>em_send = zmq_main_send z, em_cancelLoop = zmq_cancelLoop, em_initialize = zmq_initialize,
     em_bindServer = zmq_bindServer z, em_connectToServer = zmq_connectToServer z, em_process = zmq_process z\<rparr>"

subsection \<open>Every library\<close>

text \<open>
  The handlers of the items stay those the loop started with, so the handler of a readable item is
  never null, whatever the library answers.
\<close>

definition zmq_roles_are :: "hid option \<Rightarrow> hid option \<Rightarrow> 'o zmq_world \<Rightarrow> bool" where
  "zmq_roles_are c s w \<longleftrightarrow> zq_client (main_obj w) = c \<and> zq_server (main_obj w) = s"

definition zmq_failures :: "failure set" where
  "zmq_failures = handler_failures \<union> {Undef ''send reads out of bounds'', Undef ''sprintf writes out of bounds'',
     Exit 1 ''zmq_send'', Exit 1 ''zmq_bind'', Exit 1 ''zmq_connect'', Exit 1 ''zmq_poll'', Exit 1 ''zmq_recv'',
     Blocked ''zmq_poll'', Blocked ''zmq_recv'', OutOfFuel}"

lemma zmq_failures_mem [simp]:
  "Undef ''send reads out of bounds'' \<in> zmq_failures" "Undef ''sprintf writes out of bounds'' \<in> zmq_failures"
  "Exit 1 ''zmq_send'' \<in> zmq_failures" "Exit 1 ''zmq_bind'' \<in> zmq_failures" "Exit 1 ''zmq_connect'' \<in> zmq_failures"
  "Exit 1 ''zmq_poll'' \<in> zmq_failures" "Exit 1 ''zmq_recv'' \<in> zmq_failures" "Blocked ''zmq_poll'' \<in> zmq_failures"
  "Blocked ''zmq_recv'' \<in> zmq_failures" "OutOfFuel \<in> zmq_failures" "handler_failures \<subseteq> zmq_failures"
  by (auto simp: zmq_failures_def)

lemma zcall_main: "zcall f w = (r, w') \<Longrightarrow> \<exists>s. w' = w\<lparr>main_obj := (main_obj w)\<lparr>zq_state := s\<rparr>\<rparr>"
  by (auto simp: zcall_def split: prod.splits)

lemma zmq_keeps: "transport_keeps h (zmq_parent z) zmq_failures (zmq_roles_are c s)"
  by (auto simp: transport_keeps_def zmq_parent_def zmq_main_send_def zmq_cancelLoop_def zmq_roles_are_def
      net_of_def zcall_def Let_def split: option.splits prod.splits)

lemma zmq_scan_safe:
  assumes "zmq_roles_are c s w"
    and "\<And>j. i \<le> j \<Longrightarrow> j < i + length socks \<Longrightarrow> \<exists>h. (if j = 0 \<and> c \<noteq> None then c else s) = Some h"
  shows "post zmq_failures (zmq_roles_are c s) (zmq_scan z revents i socks w)"
  using assms
proof (induction socks arbitrary: i)
  case (Cons sock socks)
  obtain r v where r: "zcall (zmq_recv z sock MaxSize) w = (r, v)" by fastforce
  then have v: "zmq_roles_are c s v" using zcall_main [OF r] Cons.prems(1) by (auto simp: zmq_roles_are_def)
  show ?case
  proof (cases "revents i")
    case True
    have some: "\<exists>h. (if i = 0 \<and> c \<noteq> None then c else s) = Some h" using Cons.prems(2) [of i] by simp
    show ?thesis using True r v some
      by (auto simp: zmq_roles_are_def Let_def split: zmq_received.splits if_splits
          intro!: post_handler_process [OF zmq_keeps, unfolded zmq_roles_are_def])
  next
    case False
    moreover have "post zmq_failures (zmq_roles_are c s) (zmq_scan z revents (Suc i) socks w)"
      by (rule Cons.IH [OF Cons.prems(1)], rule Cons.prems(2)) simp_all
    ultimately show ?thesis by simp
  qed
qed simp

lemma zmq_process_safe: "post zmq_failures (\<lambda>_. True) (zmq_process z fuel w)"
proof -
  let ?c = "zq_client (main_obj w)" and ?s = "zq_server (main_obj w)"
  let ?w = "w\<lparr>main_obj := (main_obj w)\<lparr>zq_buffer := replicate MaxSize None\<rparr>\<rparr>"
  have items: "\<exists>h. (if j = 0 \<and> ?c \<noteq> None then ?c else ?s) = Some h" if "j < length (zmq_items ?w)" for j
    using that by (auto simp: zmq_items_def split: option.splits if_splits)
  have iter: "post zmq_failures (zmq_roles_are ?c ?s) (zmq_iter z (zmq_items ?w) v)"
    if "zmq_roles_are ?c ?s v" for v
  proof -
    obtain r u where r: "zcall (zmq_poll z (zmq_items ?w)) v = (r, u)" by fastforce
    then have u: "zmq_roles_are ?c ?s u" using zcall_main [OF r] that by (auto simp: zmq_roles_are_def)
    have "post zmq_failures (zmq_roles_are ?c ?s) (zmq_scan z rev 0 (zmq_items ?w) u)" for rev
      by (rule zmq_scan_safe [OF u]) (use items in simp)
    then show ?thesis using r by (auto simp: zmq_iter_def split: zmq_polled.splits)
  qed
  have "post zmq_failures (zmq_roles_are ?c ?s) (run_loop zmq_ended (zmq_iter z (zmq_items ?w)) fuel ?w)"
    by (rule run_loop_post [OF iter]) (simp_all add: zmq_roles_are_def)
  then show ?thesis unfolding zmq_process_def Let_def by (rule post_mono) simp_all
qed

lemma createChannel_safe: "post zmq_failures (\<lambda>_. True) (createChannel z isServer port h w)"
  by (auto simp: createChannel_def zmq_path_def Let_def split: prod.splits)

lemma zmq_connectToServer_safe: "post zmq_failures (\<lambda>_. True) (zmq_connectToServer z address port h w)"
proof -
  have "post zmq_failures (\<lambda>_. True) (handler_enable (zmq_parent z) h v)" for v
    using post_EchoClient_sendData [OF zmq_keeps, of "zq_client (main_obj v)" "zq_server (main_obj v)" v]
    by (cases h) (auto simp: EchoClient_enable_def zmq_roles_are_def intro: post_mono)
  then show ?thesis unfolding zmq_connectToServer_def by (intro post_bind [OF createChannel_safe])
qed

text \<open>
  Whatever the library answers and for every command line: no run of the ZeroMQ program calls
  through a null handler, and none gets stuck outside of \<open>zmq_poll\<close> and \<open>zmq_recv\<close>: it returns, or ends in
  one of the exits in the source, in a failure of the handlers, or in the overflow of the path.
\<close>

theorem zmq_outcomes:
  "case perf_main (zmq_main z) None (zmq_zero s) ck fuel argv of
     Inl f \<Rightarrow> f \<in> insert (Exit 1 usage) zmq_failures | Inr _ \<Rightarrow> True"
proof -
  have "post (insert (Exit 1 usage) zmq_failures) (\<lambda>_. True) (perf_main (zmq_main z) None (zmq_zero s) ck fuel argv)"
    by (rule post_perf_main [where ?Q0.0 = "\<lambda>_. True" and Q = "\<lambda>_. True"])
      (auto simp: zmq_main_def zmq_bindServer_def createChannel_safe zmq_connectToServer_safe zmq_process_safe)
  then show ?thesis by (simp add: post_def)
qed

text \<open>
  The path buffer has 256 bytes: a port argument of 240 characters or more overflows it, before
  anything is bound or connected; a shorter one never does.
\<close>

theorem zmq_path_bounds:
  "(240 \<le> length port \<longrightarrow>
      createChannel z isServer port h w = Inl (Undef ''sprintf writes out of bounds'')) \<and>
   (length port < 240 \<longrightarrow>
      createChannel z isServer port h w \<noteq> Inl (Undef ''sprintf writes out of bounds''))"
  by (auto simp: createChannel_def zmq_path_def Let_def split: prod.splits)

text \<open>
  The address argument of the client is not used: for every address, also an invalid one, the
  client connects to 127.0.0.1.
\<close>

theorem zmq_address_ignored:
  "run_roles (zmq_main z) fuel (a\<lparr>pAddress := x\<rparr>) w = run_roles (zmq_main z) fuel (a\<lparr>pAddress := y\<rparr>) w"
  by (simp add: run_roles_def zmq_main_def zmq_connectToServer_def)

text \<open>
  The buffer keeps the bytes of the message before: a request that is cut short, even an empty
  one, is taken for a complete request when the message before it was one, and is answered.
\<close>

theorem zmq_stale_request:
  assumes "zmq_recv z sock MaxSize (zq_state (main_obj w)) = (ZMessage (take n client_message), s)"
    and "zq_buffer (main_obj w) = map Some client_message @ rest" and "revents i"
    and "zq_client (main_obj w) = None" and "zq_server (main_obj w) = Some ServerObj"
  shows "zmq_scan z revents i (sock # socks) w =
    EventHandler_send (zmq_parent z) ServerObj server_message 19 True (w\<lparr>main_obj := (main_obj w)\<lparr>zq_state := s\<rparr>\<rparr>)"
proof -
  have "recv_into (map Some client_message @ rest) (take MaxSize (take n client_message)) = map Some client_message @ rest"
  proof -
    let ?m = "take MaxSize (take n client_message)"
    have m: "?m = take n client_message" by (cases "n \<le> 512") (auto simp: MaxSize_def min_def)
    have "recv_into (map Some client_message @ rest) ?m =
        map Some (take n client_message) @ drop (length (take n client_message)) (map Some client_message @ rest)"
      unfolding m by (rule recv_into_fits) simp
    also have "\<dots> = map Some client_message @ rest" by (simp add: min_def flip: drop_map take_map append_assoc)
    finally show ?thesis .
  qed
  then have "zmq_scan z revents i (sock # socks) w = EventHandler_send (zmq_parent z) ServerObj server_message 19 True
      (w\<lparr>main_obj := (main_obj w)\<lparr>zq_state := s, zq_buffer := map Some client_message @ rest\<rparr>\<rparr>)"
    using assms by (simp add: zcall_def EchoServer_process_def res_simps)
  moreover have "(main_obj w)\<lparr>zq_state := s, zq_buffer := map Some client_message @ rest\<rparr> = (main_obj w)\<lparr>zq_state := s\<rparr>"
    using assms(2) by (cases "main_obj w") simp
  ultimately show ?thesis by (simp only:)
qed

subsection \<open>Request and reply sockets inside one machine\<close>

text \<open>
  The messages to an endpoint wait in its queue with the socket they came from, also before a socket
  is bound to it. A request socket alternates between sending and receiving, a reply socket between
  receiving and sending to the socket of the request; any other call fails.
\<close>

datatype zsock =
    ZRep "string option" "nat option"
  | ZReq "string option" bool "string list"

record zstate =
  zsocks :: "nat \<Rightarrow> zsock option"
  zcount :: nat
  zqueue :: "string \<Rightarrow> (nat \<times> string) list"
  zbound :: "string \<Rightarrow> bool"

definition zstate_zero :: zstate where
  "zstate_zero = \<lparr>zsocks = (\<lambda>_. None), zcount = 0, zqueue = (\<lambda>_. []), zbound = (\<lambda>_. False)\<rparr>"

definition zl_ctx_new :: "zstate \<Rightarrow> nat option \<times> zstate" where
  "zl_ctx_new s = (Some (zcount s), s\<lparr>zcount := Suc (zcount s)\<rparr>)"

definition zl_socket :: "nat option \<Rightarrow> zmq_kind \<Rightarrow> zstate \<Rightarrow> nat option \<times> zstate" where
  "zl_socket ctx kind s =
     (if ctx = None then (None, s)
      else (Some (zcount s), s\<lparr>zsocks := (zsocks s)(zcount s \<mapsto>
             (case kind of ZMQ_REP \<Rightarrow> ZRep None None | ZMQ_REQ \<Rightarrow> ZReq None False [])), zcount := Suc (zcount s)\<rparr>))"

definition zl_get :: "nat option \<Rightarrow> zstate \<Rightarrow> zsock option" where
  "zl_get p s = (case p of None \<Rightarrow> None | Some i \<Rightarrow> zsocks s i)"

definition zl_bind :: "nat option \<Rightarrow> string \<Rightarrow> zstate \<Rightarrow> int \<times> zstate" where
  "zl_bind p path s =
     (case zl_get p s of
        Some (ZRep None r) \<Rightarrow>
          if zbound s path then (-1, s)
          else (0, s\<lparr>zsocks := (zsocks s)(the p \<mapsto> ZRep (Some path) r), zbound := (zbound s)(path := True)\<rparr>)
      | _ \<Rightarrow> (-1, s))"

definition zl_connect :: "nat option \<Rightarrow> string \<Rightarrow> zstate \<Rightarrow> int \<times> zstate" where
  "zl_connect p path s =
     (case zl_get p s of
        Some (ZReq None b q) \<Rightarrow> (0, s\<lparr>zsocks := (zsocks s)(the p \<mapsto> ZReq (Some path) b q)\<rparr>)
      | _ \<Rightarrow> (-1, s))"

definition zl_readable :: "zstate \<Rightarrow> nat option \<Rightarrow> bool" where
  "zl_readable s p = (case zl_get p s of
     Some (ZRep (Some path) None) \<Rightarrow> zqueue s path \<noteq> []
   | Some (ZReq (Some path) True q) \<Rightarrow> q \<noteq> []
   | _ \<Rightarrow> False)"

definition zl_poll :: "nat option list \<Rightarrow> zstate \<Rightarrow> zmq_polled \<times> zstate" where
  "zl_poll items s =
     (if \<exists>p \<in> set items. zl_readable s p then (ZRevents (\<lambda>i. i < length items \<and> zl_readable s (items ! i)), s)
      else (ZPollBlocks, s))"

definition zl_recv :: "nat option \<Rightarrow> nat \<Rightarrow> zstate \<Rightarrow> zmq_received \<times> zstate" where
  "zl_recv p n s =
     (case zl_get p s of
        Some (ZRep (Some path) None) \<Rightarrow>
          (case zqueue s path of
             [] \<Rightarrow> (ZRecvBlocks, s)
           | (i, m) # q \<Rightarrow> (ZMessage m, s\<lparr>zsocks := (zsocks s)(the p \<mapsto> ZRep (Some path) (Some i)),
                                         zqueue := (zqueue s)(path := q)\<rparr>))
      | Some (ZReq c True []) \<Rightarrow> (ZRecvBlocks, s)
      | Some (ZReq c True (m # q)) \<Rightarrow> (ZMessage m, s\<lparr>zsocks := (zsocks s)(the p \<mapsto> ZReq c False q)\<rparr>)
      | _ \<Rightarrow> (ZRecvError, s))"

fun zl_reply :: "string \<Rightarrow> zsock option \<Rightarrow> zsock option" where
  "zl_reply m (Some (ZReq c b q)) = Some (ZReq c b (q @ [m]))"
| "zl_reply m x = x"

definition zl_send :: "nat option \<Rightarrow> string \<Rightarrow> zstate \<Rightarrow> int \<times> zstate" where
  "zl_send p m s =
     (case zl_get p s of
        Some (ZRep c (Some i)) \<Rightarrow>
          (int (length m), s\<lparr>zsocks := ((zsocks s)(the p \<mapsto> ZRep c None))(i := zl_reply m (zsocks s i))\<rparr>)
      | Some (ZReq (Some path) False q) \<Rightarrow>
          (int (length m), s\<lparr>zsocks := (zsocks s)(the p \<mapsto> ZReq (Some path) True q),
                            zqueue := (zqueue s)(path := zqueue s path @ [(the p, m)])\<rparr>)
      | _ \<Rightarrow> (-1, s))"

definition loopback_zmq :: "zstate zmq_lib" where
  "loopback_zmq = \<lparr>zmq_ctx_new = zl_ctx_new, zmq_socket = zl_socket, zmq_bind = zl_bind, zmq_connect = zl_connect,
     zmq_poll = zl_poll, zmq_recv = zl_recv, zmq_send = zl_send\<rparr>"

definition zmq_start :: "zstate zmq_world" where
  "zmq_start = zmq_initialize (start_world None (zmq_zero zstate_zero) still_clock 1000)"

theorem zmq_path_bounds_witness:
  "createChannel loopback_zmq True (replicate 240 CHR ''1'') ServerObj zmq_start =
     Inl (Undef ''sprintf writes out of bounds'') \<and>
   createChannel loopback_zmq True ''8000'' ServerObj zmq_start \<noteq> Inl (Undef ''sprintf writes out of bounds'')"
  using zmq_path_bounds [of "replicate 240 CHR ''1''" loopback_zmq True ServerObj zmq_start]
    zmq_path_bounds [of "''8000''" loopback_zmq True ServerObj zmq_start]
  by simp

definition zmq_stale_world :: "zstate zmq_world" where
  "zmq_stale_world = zmq_start\<lparr>main_obj := (zmq_zero (zstate_zero
      \<lparr>zsocks := [1 \<mapsto> ZRep (Some ''p'') None], zqueue := (\<lambda>_. [(3, [])])\<rparr>))
      \<lparr>zq_server := Some ServerObj, zq_buffer := map Some client_message @ replicate 493 None\<rparr>\<rparr>"

theorem zmq_stale_request_witness:
  "zmq_scan loopback_zmq (\<lambda>_. True) 0 [Some 1] zmq_stale_world =
    EventHandler_send (zmq_parent loopback_zmq) ServerObj server_message 19 True
      (zmq_stale_world\<lparr>main_obj := (main_obj zmq_stale_world)\<lparr>zq_state := (zq_state (main_obj zmq_stale_world))
         \<lparr>zsocks := [1 \<mapsto> ZRep (Some ''p'') (Some 3)], zqueue := (\<lambda>_. [(3, [])])(''p'' := [])\<rparr>\<rparr>\<rparr>)"
  by (rule zmq_stale_request [where n = 0 and rest = "replicate 493 None"])
    (simp_all add: zmq_stale_world_def zmq_zero_def loopback_zmq_def zl_recv_def zl_get_def zstate_zero_def)

subsection \<open>The contract\<close>

text \<open>
  The server's socket is number 1 and the client's number 3. What the two sockets and the queue of
  the endpoint hold while a handler is called, and while a message is on its way to one.
\<close>

fun zmq_sock :: "hid \<Rightarrow> nat" where
  "zmq_sock ServerObj = 1"
| "zmq_sock ClientObj = 3"

abbreviation zmq_endpoint :: string where
  "zmq_endpoint \<equiv> ''tcp://127.0.0.1:8000''"

definition zl_sockets :: "nat option \<Rightarrow> bool \<Rightarrow> string list \<Rightarrow> (nat \<times> string) list \<Rightarrow> zstate \<Rightarrow> bool" where
  "zl_sockets requester awaits replies requests s \<longleftrightarrow>
     zsocks s 1 = Some (ZRep (Some zmq_endpoint) requester) \<and>
     zsocks s 3 = Some (ZReq (Some zmq_endpoint) awaits replies) \<and> zqueue s zmq_endpoint = requests"

fun zl_busy :: "hid \<Rightarrow> zstate \<Rightarrow> bool" where
  "zl_busy ServerObj = zl_sockets (Some 3) True [] []"
| "zl_busy ClientObj = zl_sockets None False [] []"

fun zl_inflight :: "hid \<Rightarrow> string \<Rightarrow> zstate \<Rightarrow> bool" where
  "zl_inflight ServerObj m = zl_sockets None True [] [(3, m)]"
| "zl_inflight ClientObj m = zl_sockets None True [m] []"

definition zmq_wf :: "zstate zmq_world \<Rightarrow> bool" where
  "zmq_wf w \<longleftrightarrow> zmq_roles_are (Some ClientObj) (Some ServerObj) w \<and> \<not> zq_loopEnd (main_obj w) \<and>
     length (zq_buffer (main_obj w)) = MaxSize \<and>
     (\<forall>h. getParent h w = Some MainProcessor \<and> getContext h w = Some (zmq_sock h))"

definition zmq_busy :: "hid \<Rightarrow> zstate zmq_world \<Rightarrow> bool" where
  "zmq_busy h w \<longleftrightarrow> zmq_wf w \<and> zl_busy h (zq_state (main_obj w))"

definition zmq_inflight :: "hid \<Rightarrow> char list \<Rightarrow> zstate zmq_world \<Rightarrow> bool" where
  "zmq_inflight h m w \<longleftrightarrow> zmq_wf w \<and> m \<in> {client_message, server_message} \<and> zl_inflight h m (zq_state (main_obj w))"

lemmas zmq_state = zmq_wf_def zmq_busy_def zmq_inflight_def zmq_roles_are_def

lemma zl_send_busy: "zl_busy h s \<Longrightarrow>
    \<exists>s'. zl_send (Some (zmq_sock h)) m s = (int (length m), s') \<and> zl_inflight (peer h) m s'"
  by (cases h) (auto simp: zl_send_def zl_get_def zl_sockets_def)

lemma zl_recv_inflight: "zl_inflight h m s \<Longrightarrow>
    \<exists>s'. zl_recv (Some (zmq_sock h)) n s = (ZMessage m, s') \<and> zl_busy h s'"
  by (cases h) (auto simp: zl_recv_def zl_get_def zl_sockets_def)

lemma zl_readable_inflight: "zl_inflight h m s \<Longrightarrow> zl_readable s (Some (zmq_sock g)) \<longleftrightarrow> g = h"
  by (cases h; cases g) (auto simp: zl_readable_def zl_get_def zl_sockets_def)

lemma zmq_send_busy:
  assumes "zmq_busy h w" and "m \<in> {client_message, server_message}"
  shows "\<exists>w1. zmq_main_send loopback_zmq (Some h) m (int (length m)) True w = Inr w1 \<and>
    zmq_inflight (peer h) m w1 \<and> app_of w1 = app_of w"
proof -
  from assms(1) zl_send_busy [of h "zq_state (main_obj w)" m] obtain s' where s': "zl_send (Some (zmq_sock h)) m (zq_state (main_obj w)) = (int (length m), s')"
    "zl_inflight (peer h) m s'" by (auto simp: zmq_busy_def)
  let ?w = "w\<lparr>main_obj := (main_obj w)\<lparr>zq_state := s'\<rparr>\<rparr>"
  have "zmq_main_send loopback_zmq (Some h) m (int (length m)) True w = Inr ?w"
    using assms s'(1) by (auto simp: zmq_main_send_def zcall_def loopback_zmq_def zmq_state)
  moreover have "zmq_inflight (peer h) m ?w" using assms s'(2) by (simp add: zmq_state)
  ultimately show ?thesis by (auto simp: frame_simps)
qed

lemma zmq_iter_inflight:
  assumes "zmq_inflight h m w"
  shows "\<exists>w1 rest n. zmq_iter loopback_zmq [Some 3, Some 1] w =
      handler_process (zmq_parent loopback_zmq) h (map Some m @ rest) n True w1 \<and> zmq_busy h w1 \<and> app_of w1 = app_of w"
proof -
  let ?s = "zq_state (main_obj w)" and ?buf = "zq_buffer (main_obj w)"
  have m: "length m = 19" and wf: "zmq_wf w" and fl: "zl_inflight h m ?s"
    using assms by (auto simp: zmq_inflight_def)
  from zl_recv_inflight [OF fl, of MaxSize] obtain s' where
    s': "zl_recv (Some (zmq_sock h)) MaxSize ?s = (ZMessage m, s')" "zl_busy h s'" by blast
  have r: "zl_readable ?s (Some 3) \<longleftrightarrow> h = ClientObj" "zl_readable ?s (Some 1) \<longleftrightarrow> h = ServerObj"
    using zl_readable_inflight [OF fl, of ClientObj] zl_readable_inflight [OF fl, of ServerObj] by auto
  have poll: "zl_poll [Some 3, Some 1] ?s = (ZRevents (\<lambda>i. i < 2 \<and> zl_readable ?s ([Some 3, Some 1] ! i)), ?s)"
    using r by (cases h) (auto simp: zl_poll_def)
  have buf: "recv_into ?buf (take MaxSize m) = map Some m @ drop 19 ?buf" "length (map Some m @ drop 19 ?buf) = MaxSize"
    using wf m recv_into_fits [of m ?buf] by (auto simp: zmq_state MaxSize_def)
  let ?w = "w\<lparr>main_obj := (main_obj w)\<lparr>zq_state := s', zq_buffer := map Some m @ drop 19 ?buf\<rparr>\<rparr>"
  have "zmq_busy h ?w" using wf s'(2) buf(2) by (simp add: zmq_state)
  moreover have "zmq_iter loopback_zmq [Some 3, Some 1] w =
      handler_process (zmq_parent loopback_zmq) h (map Some m @ drop 19 ?buf) 19 True ?w"
    using wf m s'(1) r poll buf(1)
    by (cases h) (simp_all add: zmq_iter_def zcall_def loopback_zmq_def zmq_state)
  ultimately show ?thesis by (metis app_of_main_obj)
qed

interpretation zmq: echo_transport "zmq_parent loopback_zmq" "zmq_iter loopback_zmq [Some 3, Some 1]" zmq_ended
  zmq_inflight zmq_busy
proof (unfold_locales, goal_cases)
  case (1 w w' h m)
  then show ?case using net_of_eqD [OF 1(1)] by (simp add: zmq_state)
next
  case (2 w w' h)
  then show ?case using net_of_eqD [OF 2(1)] by (simp add: zmq_state)
next
  case (3 h m w)
  then show ?case by (simp add: zmq_state zmq_ended_def)
next
  case (4 h w)
  then show ?case by (simp add: zmq_state)
next
  case (5 h w m)
  then show ?case using zmq_send_busy by (simp add: zmq_parent_def)
next
  case (8 h m w)
  then show ?case by (rule zmq_iter_inflight)
qed (simp_all add: zmq_parent_def zmq_cancelLoop_def zmq_ended_def frame_simps)

subsection \<open>The program over this transport\<close>

lemmas zmq_setup_simps = zmq_main_def zmq_bindServer_def zmq_initialize_def start_world_def zmq_zero_def
  zmq_connectToServer_def createChannel_def zmq_path_def EchoClient_new_def EchoServer_new_def EventHandler_new_def
  zcall_def loopback_zmq_def zl_ctx_new_def zl_socket_def zl_bind_def zl_connect_def zl_send_def zl_get_def
  zstate_zero_def

text \<open>The world in which \<open>process\<close> enters its loop.\<close>

definition zmq_entered :: "'o zmq_world \<Rightarrow> 'o zmq_world" where
  "zmq_entered w = w\<lparr>main_obj := (main_obj w)\<lparr>zq_buffer := replicate MaxSize None\<rparr>\<rparr>"

lemma zmq_process_entered:
  "zmq_process z fuel w = run_loop zmq_ended (zmq_iter z (zmq_items (zmq_entered w))) fuel (zmq_entered w)"
  by (simp add: zmq_process_def zmq_entered_def Let_def)

lemma zmq_setup:
  "\<exists>w1 w2. em_bindServer (zmq_main loopback_zmq) ''8000'' ServerObj
       (em_initialize (zmq_main loopback_zmq) (start_world None (zmq_zero zstate_zero) ck (int N))) = Inr w1 \<and>
     em_connectToServer (zmq_main loopback_zmq) ''127.0.0.1'' ''8000'' ClientObj w1 = Inr w2 \<and>
     zmq_items (zmq_entered w2) = [Some 3, Some 1] \<and>
     zmq_inflight ServerObj client_message (zmq_entered w2) \<and> awaiting 0 N ck (zmq_entered w2)"
  by (simp add: zmq_setup_simps res_simps Let_def EchoClient_enable_def EchoClient_sendData_def
      EventHandler_send_def zmq_parent_def zmq_main_send_def int_ok_def INT_MAX_def zmq_entered_def zmq_items_def
      zmq_state zl_sockets_def hid_all app_defs eval_nat_numeral(2,3))

lemma zmq_roles:
  assumes "0 < N" and "int N \<le> INT_MAX" and "clock_sane ck" and "2 * N \<le> fuel"
  shows "\<exists>w'. run_roles (zmq_main loopback_zmq) fuel ArgParser_new
      (em_initialize (zmq_main loopback_zmq) (start_world None (zmq_zero zstate_zero) ck (int N))) = Inr w' \<and>
    finished N ck w'"
proof -
  let ?V = "zmq_main loopback_zmq" and ?a = ArgParser_new
  have a: "pPort ?a = ''8000''" "pAddress ?a = ''127.0.0.1''" by (simp_all add: ArgParser_new_def)
  from zmq_setup [of ck N] obtain w1 w2 where
    s: "em_bindServer ?V (pPort ?a) ServerObj (em_initialize ?V (start_world None (zmq_zero zstate_zero) ck (int N))) = Inr w1"
      "em_connectToServer ?V (pAddress ?a) (pPort ?a) ClientObj w1 = Inr w2"
    and items: "zmq_items (zmq_entered w2) = [Some 3, Some 1]"
    and start: "zmq_inflight ServerObj client_message (zmq_entered w2)" "awaiting 0 N ck (zmq_entered w2)"
    unfolding a by blast
  have "em_process ?V fuel w2 = rbind (run_loop zmq_ended (zmq_iter loopback_zmq [Some 3, Some 1]) fuel (zmq_entered w2))
      (\<lambda>w. Inr w)"
    using items by (simp add: zmq_main_def zmq_process_entered res_simps)
  from zmq.roles_complete [OF s this start _ assms] show ?thesis by (simp add: ArgParser_new_def)
qed

text \<open>
  C27. Over request and reply sockets that behave as ZeroMQ documents them, the program run with no
  arguments completes: requests and replies alternate as the sockets demand, and \<open>zmq_poll\<close> never blocks.
\<close>

theorem zmq_main_completes:
  assumes "clock_sane ck" and "usecs (ck 1) \<le> usecs (ck 2)" and "2000 \<le> fuel"
  shows "\<exists>w. perf_main (zmq_main loopback_zmq) None (zmq_zero zstate_zero) ck fuel [] = Inr w \<and>
    benchmark_done 1000 ck w"
  using zmq_roles [of 1000 ck fuel] assms by (intro main_benchmark_done) (auto simp: INT_MAX_def)

theorem zmq_main_completes_witness:
  "\<exists>w. perf_main (zmq_main loopback_zmq) None (zmq_zero zstate_zero) still_clock 2000 [] = Inr w \<and>
    benchmark_done 1000 still_clock w"
  by (rule zmq_main_completes) simp_all

end
