(* ===== verification/LibeventMain.thy ===== *)
theory LibeventMain
  imports Loopback
begin

section \<open>The libevent transport (eventserver.cpp)\<close>

text \<open>
  \<open>LibEventMain\<close> has no loop of its own: \<open>event_base_dispatch\<close> calls its three callbacks. The library is
  a parameter, a record of functions on a state \<open>'o\<close>; its function \<open>lev_next\<close> says which callback the
  dispatch loop runs next, so that \<open>process\<close> is the loop that runs callbacks until the library ends it.
  A handler's context is a pointer to a \<open>bufferevent\<close>. The model keeps track of the ones that are
  allocated: \<open>bufferevent_free\<close> ends the life of one, and a use of another one is undefined behaviour.
\<close>

definition max_buff :: nat where "max_buff = 32767"

record bev_flags =
  bev_connected :: bool
  bev_error :: bool
  bev_eof :: bool
  bev_timeout :: bool

datatype lev_callback =
    LevReturns
  | LevWaits
  | CallAccept int "hid option"
  | CallRead nat "hid option"
  | CallError nat bev_flags "hid option"

record 'o libevent = "'o sock_os" +
  os_reuse_ok :: "int \<Rightarrow> 'o \<Rightarrow> bool \<times> 'o"
  event_base_new :: "'o \<Rightarrow> nat option \<times> 'o"
  event_base_loopexit :: "nat option \<Rightarrow> 'o \<Rightarrow> int \<times> 'o"
  lev_next :: "nat option \<Rightarrow> 'o \<Rightarrow> lev_callback \<times> 'o"
  event_new_accept :: "nat option \<Rightarrow> int \<Rightarrow> hid option \<Rightarrow> 'o \<Rightarrow> nat option \<times> 'o"
  event_add :: "nat \<Rightarrow> 'o \<Rightarrow> 'o"
  bufferevent_socket_new :: "nat option \<Rightarrow> int \<Rightarrow> 'o \<Rightarrow> nat option \<times> 'o"
  bufferevent_setcb :: "nat \<Rightarrow> hid option \<Rightarrow> 'o \<Rightarrow> 'o"
  bufferevent_socket_connect :: "nat \<Rightarrow> addr \<Rightarrow> 'o \<Rightarrow> int \<times> 'o"
  bufferevent_write :: "nat \<Rightarrow> string \<Rightarrow> 'o \<Rightarrow> 'o"
  bufferevent_setwatermark :: "nat \<Rightarrow> nat \<Rightarrow> 'o \<Rightarrow> 'o"
  bufferevent_enable :: "nat \<Rightarrow> 'o \<Rightarrow> 'o"
  bufferevent_free :: "nat \<Rightarrow> 'o \<Rightarrow> 'o"
  evbuffer_remove :: "nat \<Rightarrow> nat \<Rightarrow> 'o \<Rightarrow> string option \<times> 'o"

record 'o LibEventMain =
  m_ebase :: "nat option"
  lev_state :: 'o
  lev_live :: "nat \<Rightarrow> bool"
  lev_returned :: bool

type_synonym 'o lev_world = "(nat option, 'o LibEventMain) world"

definition lev_zero :: "'o \<Rightarrow> 'o LibEventMain" where
  "lev_zero s = \<lparr>m_ebase = None, lev_state = s, lev_live = (\<lambda>_. False), lev_returned = False\<rparr>"

definition lcall :: "('o \<Rightarrow> 'a \<times> 'o) \<Rightarrow> 'o lev_world \<Rightarrow> 'a \<times> 'o lev_world" where
  "lcall f w = (let (r, s) = f (lev_state (main_obj w)) in (r, w\<lparr>main_obj := (main_obj w)\<lparr>lev_state := s\<rparr>\<rparr>))"

definition lcall_do :: "('o \<Rightarrow> 'o) \<Rightarrow> 'o lev_world \<Rightarrow> 'o lev_world" where
  "lcall_do f w = w\<lparr>main_obj := (main_obj w)\<lparr>lev_state := f (lev_state (main_obj w))\<rparr>\<rparr>"

text \<open>A call on a \<open>bufferevent\<close>, a new one, and the end of one.\<close>

definition bev_do :: "nat \<Rightarrow> ('o \<Rightarrow> 'o) \<Rightarrow> 'o lev_world \<Rightarrow> 'o lev_world result" where
  "bev_do b f w = (if lev_live (main_obj w) b then Inr (lcall_do f w) else Inl (Undef ''use after free''))"

definition bev_new :: "'o libevent \<Rightarrow> int \<Rightarrow> 'o lev_world \<Rightarrow> (nat \<times> 'o lev_world) result" where
  "bev_new lev sock w =
     (case lcall (bufferevent_socket_new lev (m_ebase (main_obj w)) sock) w of (r, w) \<Rightarrow>
        (case r of
           None \<Rightarrow> Inl (Undef ''null bufferevent'')
         | Some b \<Rightarrow> Inr (b, w\<lparr>main_obj := (main_obj w)\<lparr>lev_live := (lev_live (main_obj w))(b := True)\<rparr>\<rparr>)))"

definition bev_free :: "'o libevent \<Rightarrow> nat \<Rightarrow> 'o lev_world \<Rightarrow> 'o lev_world result" where
  "bev_free lev b w =
     rbind (bev_do b (bufferevent_free lev b) w) (\<lambda>w.
     Inr (w\<lparr>main_obj := (main_obj w)\<lparr>lev_live := (lev_live (main_obj w))(b := False)\<rparr>\<rparr>))"

definition lev_initialize :: "'o libevent \<Rightarrow> 'o lev_world \<Rightarrow> 'o lev_world" where
  "lev_initialize lev w =
     (let (base, w) = lcall (event_base_new lev) w in w\<lparr>main_obj := (main_obj w)\<lparr>m_ebase := base\<rparr>\<rparr>)"

definition lev_cancelLoop :: "'o libevent \<Rightarrow> 'o lev_world \<Rightarrow> 'o lev_world" where
  "lev_cancelLoop lev w = snd (lcall (event_base_loopexit lev (m_ebase (main_obj w))) w)"

definition lev_bindServer :: "'o libevent \<Rightarrow> string \<Rightarrow> hid \<Rightarrow> 'o lev_world \<Rightarrow> 'o lev_world result" where
  "lev_bindServer lev port h w =
     rbind (sin_port port) (\<lambda>p.
     let (listenerfd, w) = lcall (os_socket lev) w
     in if listenerfd = -1 then Inl (Exit 1 ''Error creating listening socket'')
        else let (reused, w) = lcall (os_reuse_ok lev listenerfd) w
     in if \<not> reused then Inl (Exit 1 ''Error enabling socket reuse'')
        else let w = lcall_do (os_nonblock lev listenerfd) w;
                 (bound, w) = lcall (os_bind lev listenerfd 0 p) w;
                 (listening, w) = lcall (os_listen lev listenerfd 16) w
     in if \<not> listening then Inr w
        else let w = setParent h w;
                 (e, w) = lcall (event_new_accept lev (m_ebase (main_obj w)) listenerfd (Some h)) w
     in case e of
          None \<Rightarrow> Inl (Undef ''null event'')
        | Some e \<Rightarrow> Inr (lcall_do (event_add lev e) w))"

definition lev_send ::
  "'o libevent \<Rightarrow> hid option \<Rightarrow> char list \<Rightarrow> int \<Rightarrow> bool \<Rightarrow> 'o lev_world \<Rightarrow> 'o lev_world result"
where
  "lev_send lev p data len isDataEnd w =
     (if len = 0 then Inr w
      else case p of
             None \<Rightarrow> Inl (Undef ''null handler'')
           | Some h \<Rightarrow>
               (case getContext h w of
                  None \<Rightarrow> Inr w
                | Some bev \<Rightarrow>
                    if 0 \<le> len \<and> nat len \<le> length data
                    then bev_do bev (bufferevent_write lev bev (take (nat len) data)) w
                    else Inl (Undef ''send reads out of bounds'')))"

definition lev_parent :: "'o libevent \<Rightarrow> 'o lev_world parent_ops" where
  "lev_parent lev = \<lparr>em_send = lev_send lev, em_cancelLoop = lev_cancelLoop lev\<rparr>"

definition lev_connectToServer ::
  "'o libevent \<Rightarrow> string \<Rightarrow> string \<Rightarrow> hid \<Rightarrow> 'o lev_world \<Rightarrow> 'o lev_world result"
where
  "lev_connectToServer lev address port h w =
     rbind (sin_port port) (\<lambda>p.
     let a = (case inet_pton address of None \<Rightarrow> 0 | Some a \<Rightarrow> a)
     in rbind (bev_new lev (-1) w) (\<lambda>(bev, w).
        rbind (bev_do bev (bufferevent_setcb lev bev (Some h)) w) (\<lambda>w.
        let w = setContext h (Some bev) w;
            w = setParent h w;
            (rc, w) = lcall (bufferevent_socket_connect lev bev (a, p)) w
        in if rc < 0 then Inl (Exit 1 ''Cannot bind to port'') else Inr w)))"

text \<open>
  \<open>readfn\<close>: \<open>n\<close> is a \<open>size_t\<close>, so that a failing \<open>evbuffer_remove\<close> (-1) passes the test \<open>n > 0\<close> and the
  handler is called with the untouched buffer and the length -1.
\<close>

definition readfn :: "'o libevent \<Rightarrow> nat \<Rightarrow> hid option \<Rightarrow> 'o lev_world \<Rightarrow> 'o lev_world result" where
  "readfn lev bev arg w =
     (if \<not> lev_live (main_obj w) bev then Inl (Undef ''use after free'')
      else let (r, w) = lcall (evbuffer_remove lev bev max_buff) w;
               buffer = replicate max_buff None;
               (n, buffer) = (case r of None \<Rightarrow> (-1, buffer) | Some bs \<Rightarrow> (int (length bs), recv_into buffer bs))
           in if n = 0 then Inr w
              else case arg of
                     None \<Rightarrow> Inl (Undef ''null handler'')
                   | Some h \<Rightarrow> handler_process (lev_parent lev) h buffer n False w)"

definition errorfn :: "'o libevent \<Rightarrow> nat \<Rightarrow> bev_flags \<Rightarrow> hid option \<Rightarrow> 'o lev_world \<Rightarrow> 'o lev_world result" where
  "errorfn lev bev error arg w =
     rbind (if bev_connected error
            then rbind (bev_do bev (bufferevent_setwatermark lev bev max_buff) w) (\<lambda>w.
                 rbind (bev_do bev (bufferevent_enable lev bev) w) (\<lambda>w.
                 case arg of None \<Rightarrow> Inr w | Some h \<Rightarrow> handler_enable (lev_parent lev) h w))
            else Inr w) (\<lambda>w.
     if bev_error error \<or> bev_eof error \<or> bev_timeout error then bev_free lev bev w else Inr w)"

definition acceptfn :: "'o libevent \<Rightarrow> int \<Rightarrow> hid option \<Rightarrow> 'o lev_world \<Rightarrow> 'o lev_world result" where
  "acceptfn lev listenerfd arg w =
     (case arg of
        None \<Rightarrow> Inl (Undef ''null handler'')
      | Some h \<Rightarrow>
          let plevent = getParent h w; (sock, w) = lcall (os_accept lev listenerfd) w
          in if sock < 0 then Inr w
             else let w = lcall_do (os_nonblock lev sock) w
             in case plevent of
                  None \<Rightarrow> Inl (Undef ''null parent'')
                | Some _ \<Rightarrow>
                    rbind (bev_new lev sock w) (\<lambda>(bev, w).
                    let w = setContext h (Some bev) w
                    in rbind (bev_do bev (bufferevent_setcb lev bev arg) w) (\<lambda>w.
                       rbind (bev_do bev (bufferevent_setwatermark lev bev max_buff) w)
                         (bev_do bev (bufferevent_enable lev bev)))))"

definition lev_iter :: "'o libevent \<Rightarrow> 'o lev_world \<Rightarrow> 'o lev_world result" where
  "lev_iter lev w =
     (let (c, w) = lcall (lev_next lev (m_ebase (main_obj w))) w
      in case c of
           LevReturns \<Rightarrow> Inr (w\<lparr>main_obj := (main_obj w)\<lparr>lev_returned := True\<rparr>\<rparr>)
         | LevWaits \<Rightarrow> Inl (Blocked ''event_base_dispatch'')
         | CallAccept sock arg \<Rightarrow> acceptfn lev sock arg w
         | CallRead bev arg \<Rightarrow> readfn lev bev arg w
         | CallError bev error arg \<Rightarrow> errorfn lev bev error arg w)"

definition lev_ended :: "'o lev_world \<Rightarrow> bool" where
  "lev_ended w \<longleftrightarrow> lev_returned (main_obj w)"

definition lev_process :: "'o libevent \<Rightarrow> nat \<Rightarrow> 'o lev_world \<Rightarrow> 'o lev_world result" where
  "lev_process lev fuel w = run_loop lev_ended (lev_iter lev) fuel w"

definition lev_main :: "'o libevent \<Rightarrow> 'o lev_world EventMain" where
  "lev_main lev = \<lparr>em_send = lev_send lev, em_cancelLoop = lev_cancelLoop lev, em_initialize = lev_initialize lev,
     em_bindServer = lev_bindServer lev, em_connectToServer = lev_connectToServer lev, em_process = lev_process lev\<rparr>"

subsection \<open>More than one client\<close>

text \<open>
  The context of the server's handler is set when a connection is accepted and not when a request
  is read, so it is the \<open>bufferevent\<close> of the connection that was accepted last.
\<close>

lemma readfn_request:
  assumes "lev_live (main_obj w) b" and "evbuffer_remove lev b max_buff (lev_state (main_obj w)) = (Some client_message, s)"
    and "getParent ServerObj w = Some MainProcessor"
  shows "readfn lev b (Some ServerObj) w =
    lev_send lev (Some ServerObj) server_message 19 True (w\<lparr>main_obj := (main_obj w)\<lparr>lev_state := s\<rparr>\<rparr>)"
  using assms EchoServer_process_ok [OF refl, of "w\<lparr>main_obj := (main_obj w)\<lparr>lev_state := s\<rparr>\<rparr>" "lev_parent lev"
      "replicate 32748 None" 19 False]
  by (simp add: readfn_def lcall_def recv_into_def max_buff_def lev_parent_def)

text \<open>The \<open>bufferevent\<close> that the library makes for the connection accepted next, if there is one.\<close>

definition next_connection :: "'o libevent \<Rightarrow> int \<Rightarrow> 'o lev_world \<Rightarrow> nat option" where
  "next_connection lev listenerfd w =
     (let (sock, s) = os_accept lev listenerfd (lev_state (main_obj w))
      in if sock < 0 then None
         else fst (bufferevent_socket_new lev (m_ebase (main_obj w)) sock (os_nonblock lev sock s)))"

lemma acceptfn_connection:
  assumes "acceptfn lev l (Some h) w = Inr w'" and "next_connection lev l w = Some b"
  shows "getContext h w' = Some b \<and> lev_live (main_obj w') = (lev_live (main_obj w))(b := True) \<and>
    getParent h w' = getParent h w"
  using assms
  by (cases h) (auto simp: acceptfn_def next_connection_def bev_new_def bev_do_def lcall_def lcall_do_def Let_def
      split: prod.splits option.splits if_splits)

text \<open>
  C36. With two clients the answer goes to the wrong one. A server accepts a connection, and then
  another one, for which the library makes a \<open>bufferevent\<close> that is not in use. When the dispatch loop
  then finds a request of the first client and calls \<open>readfn\<close>, the answer is written to the second
  client's \<open>bufferevent\<close>, and nothing to the first one's.
\<close>

theorem lev_wrong_client:
  assumes "getParent ServerObj w = Some MainProcessor"
    and "next_connection lev l w = Some b1" and "acceptfn lev l (Some ServerObj) w = Inr w1"
    and "next_connection lev l w1 = Some b2" and "acceptfn lev l (Some ServerObj) w1 = Inr w2"
    and "\<not> lev_live (main_obj w1) b2"
    and "lev_next lev (m_ebase (main_obj w2)) (lev_state (main_obj w2)) = (CallRead b1 (Some ServerObj), s)"
    and "evbuffer_remove lev b1 max_buff s = (Some client_message, s')"
  shows "b1 \<noteq> b2 \<and> lev_iter lev w2 =
    Inr (w2\<lparr>main_obj := (main_obj w2)\<lparr>lev_state := bufferevent_write lev b2 server_message s'\<rparr>\<rparr>)"
proof -
  note first = acceptfn_connection [OF assms(3,2)] and second = acceptfn_connection [OF assms(5,4)]
  let ?w = "w2\<lparr>main_obj := (main_obj w2)\<lparr>lev_state := s\<rparr>\<rparr>"
  have "b1 \<noteq> b2" using first assms(6) by auto
  moreover have "lev_live (main_obj ?w) b1" "lev_live (main_obj ?w) b2" "getContext ServerObj ?w = Some b2"
    "getParent ServerObj ?w = Some MainProcessor"
    using first second assms(1) by auto
  then have "readfn lev b1 (Some ServerObj) ?w =
      Inr (?w\<lparr>main_obj := (main_obj ?w)\<lparr>lev_state := bufferevent_write lev b2 server_message s'\<rparr>\<rparr>)"
    using assms(8) by (simp add: readfn_request lev_send_def bev_do_def lcall_do_def)
  then have "lev_iter lev w2 = Inr (w2\<lparr>main_obj := (main_obj w2)\<lparr>lev_state := bufferevent_write lev b2 server_message s'\<rparr>\<rparr>)"
    using assms(7) by (simp add: lev_iter_def lcall_def)
  ultimately show ?thesis ..
qed

text \<open>
  C35. When the client that connected last goes away, its \<open>bufferevent\<close> is freed but stays the context of
  the server's handler: the next request of another client is answered through the freed pointer.
\<close>

theorem lev_use_after_free:
  assumes "errorfn lev b2 error (Some ServerObj) w = Inr w'" and "bev_eof error" and "\<not> bev_connected error"
    and "getContext ServerObj w = Some b2" and "lev_live (main_obj w) b1" and "b1 \<noteq> b2"
    and "evbuffer_remove lev b1 max_buff (lev_state (main_obj w')) = (Some client_message, s)"
    and "getParent ServerObj w = Some MainProcessor"
  shows "readfn lev b1 (Some ServerObj) w' = Inl (Undef ''use after free'')"
proof -
  have w': "w' = w\<lparr>main_obj := (main_obj w)\<lparr>lev_state := bufferevent_free lev b2 (lev_state (main_obj w)),
      lev_live := (lev_live (main_obj w))(b2 := False)\<rparr>\<rparr>"
    using assms(1-3) by (auto simp: errorfn_def bev_free_def bev_do_def lcall_do_def split: if_splits)
  show ?thesis
    using assms(4-8) by (simp add: w' readfn_request lev_send_def bev_do_def)
qed

subsection \<open>The library over the sockets of one machine\<close>

text \<open>
  An executable library: \<open>bufferevent\<close>s over the loopback kernel, one listening event, and a dispatch
  loop that runs one callback at a time (a connection that was made, then a listener that is
  readable, then input of a connection) and ends after \<open>event_base_loopexit\<close>.
\<close>

record lbev =
  b_fd :: int
  b_arg :: "hid option"
  b_in :: string
  b_connecting :: bool
  b_enabled :: bool

record lstate =
  lkernel :: kernel
  lbevs :: "nat \<Rightarrow> lbev option"
  lcount :: nat
  levent :: "(int \<times> hid option) option"
  larmed :: bool
  lexit :: bool

definition lstate_zero :: lstate where
  "lstate_zero = \<lparr>lkernel = kernel_zero, lbevs = (\<lambda>_. None), lcount = 0, levent = None, larmed = False, lexit = False\<rparr>"

definition on_kernel :: "(kernel \<Rightarrow> 'a \<times> kernel) \<Rightarrow> lstate \<Rightarrow> 'a \<times> lstate" where
  "on_kernel f s = (let (r, k) = f (lkernel s) in (r, s\<lparr>lkernel := k\<rparr>))"

definition on_bev :: "nat \<Rightarrow> (lbev \<Rightarrow> lbev) \<Rightarrow> lstate \<Rightarrow> lstate" where
  "on_bev b f s = s\<lparr>lbevs := (lbevs s)(b := map_option f (lbevs s b))\<rparr>"

definition l_connect :: "nat \<Rightarrow> addr \<Rightarrow> lstate \<Rightarrow> int \<times> lstate" where
  "l_connect b to s =
     (let (sock, k) = k_open TcpNew (lkernel s); (ok, k) = k_connect sock (fst to) (snd to) k
      in if ok then (0, on_bev b (\<lambda>e. e\<lparr>b_fd := sock, b_connecting := True\<rparr>) (s\<lparr>lkernel := k\<rparr>))
         else (-1, s))"

definition l_write :: "nat \<Rightarrow> string \<Rightarrow> lstate \<Rightarrow> lstate" where
  "l_write b bs s = (case lbevs s b of None \<Rightarrow> s | Some e \<Rightarrow> snd (on_kernel (k_send (b_fd e) bs) s))"

definition l_free :: "nat \<Rightarrow> lstate \<Rightarrow> lstate" where
  "l_free b s = (case lbevs s b of None \<Rightarrow> s
     | Some e \<Rightarrow> s\<lparr>lkernel := k_close (b_fd e) (lkernel s), lbevs := (lbevs s)(b := None)\<rparr>)"

definition l_remove :: "nat \<Rightarrow> nat \<Rightarrow> lstate \<Rightarrow> string option \<times> lstate" where
  "l_remove b n s = (case lbevs s b of None \<Rightarrow> (None, s)
     | Some e \<Rightarrow> (Some (take n (b_in e)), on_bev b (\<lambda>e. e\<lparr>b_in := drop n (b_in e)\<rparr>) s))"

definition find_bev :: "(lbev \<Rightarrow> bool) \<Rightarrow> lstate \<Rightarrow> (nat \<times> lbev) option" where
  "find_bev P s = map_option (\<lambda>b. (b, the (lbevs s b)))
     (List.find (\<lambda>b. case lbevs s b of None \<Rightarrow> False | Some e \<Rightarrow> P e) [0..<lcount s])"

definition no_flags :: bev_flags where
  "no_flags = \<lparr>bev_connected = False, bev_error = False, bev_eof = False, bev_timeout = False\<rparr>"

definition l_input :: "nat \<Rightarrow> lbev \<Rightarrow> lstate \<Rightarrow> lev_callback \<times> lstate" where
  "l_input b e s =
     (case on_kernel (k_recv (b_fd e) 4096) s of (r, s) \<Rightarrow>
        (case r of
           None \<Rightarrow> (LevWaits, s)
         | Some bs \<Rightarrow>
             if bs = [] then (CallError b (no_flags\<lparr>bev_eof := True\<rparr>) (b_arg e), s)
             else (CallRead b (b_arg e), on_bev b (\<lambda>e. e\<lparr>b_in := b_in e @ bs\<rparr>) s)))"

definition l_next :: "nat option \<Rightarrow> lstate \<Rightarrow> lev_callback \<times> lstate" where
  "l_next base s =
     (if lexit s then (LevReturns, s)
      else case find_bev b_connecting s of
        Some (b, e) \<Rightarrow> (CallError b (no_flags\<lparr>bev_connected := True\<rparr>) (b_arg e),
                       on_bev b (\<lambda>e. e\<lparr>b_connecting := False\<rparr>) s)
      | None \<Rightarrow>
          (case levent s of
             Some (sock, arg) \<Rightarrow>
               if larmed s \<and> k_readable (lkernel s) sock then (CallAccept sock arg, s)
               else (case find_bev (\<lambda>e. b_enabled e \<and> k_readable (lkernel s) (b_fd e)) s of
                       None \<Rightarrow> (LevWaits, s) | Some (b, e) \<Rightarrow> l_input b e s)
           | None \<Rightarrow>
               (case find_bev (\<lambda>e. b_enabled e \<and> k_readable (lkernel s) (b_fd e)) s of
                  None \<Rightarrow> (LevWaits, s) | Some (b, e) \<Rightarrow> l_input b e s)))"

definition loopback_libevent :: "lstate libevent" where
  "loopback_libevent = \<lparr>os_socket = on_kernel (k_open TcpNew), os_nonblock = (\<lambda>_ s. s), os_reuseaddr = (\<lambda>_ s. s),
     os_bind = (\<lambda>fd a p. on_kernel (k_bind fd a p)), os_listen = (\<lambda>fd n. on_kernel (k_listen fd n)),
     os_connect = (\<lambda>fd a p. on_kernel (k_connect fd a p)), os_accept = (\<lambda>fd. on_kernel (k_accept fd)),
     os_recv = (\<lambda>fd n. on_kernel (k_recv fd n)), os_send = (\<lambda>fd bs. on_kernel (k_send fd bs)),
     os_close = (\<lambda>fd s. s\<lparr>lkernel := k_close fd (lkernel s)\<rparr>),
     os_socket_dgram = on_kernel (k_open (UdpSock 0 [])), os_recvfrom = (\<lambda>fd n. on_kernel (k_recvfrom fd n)),
     os_sendto = (\<lambda>fd bs a. on_kernel (k_sendto fd bs a)),
     os_reuse_ok = (\<lambda>_ s. (True, s)),
     event_base_new = (\<lambda>s. (Some 0, s)), event_base_loopexit = (\<lambda>_ s. (0, s\<lparr>lexit := True\<rparr>)), lev_next = l_next,
     event_new_accept = (\<lambda>base fd arg s. (Some 0, s\<lparr>levent := Some (fd, arg)\<rparr>)), event_add = (\<lambda>e s. s\<lparr>larmed := True\<rparr>),
     bufferevent_socket_new = (\<lambda>base fd s. (Some (lcount s), s\<lparr>lbevs := (lbevs s)(lcount s \<mapsto>
        \<lparr>b_fd = fd, b_arg = None, b_in = [], b_connecting = False, b_enabled = False\<rparr>), lcount := Suc (lcount s)\<rparr>)),
     bufferevent_setcb = (\<lambda>b arg. on_bev b (\<lambda>e. e\<lparr>b_arg := arg\<rparr>)),
     bufferevent_socket_connect = l_connect, bufferevent_write = l_write,
     bufferevent_setwatermark = (\<lambda>b n s. s), bufferevent_enable = (\<lambda>b. on_bev b (\<lambda>e. e\<lparr>b_enabled := True\<rparr>)),
     bufferevent_free = l_free, evbuffer_remove = l_remove\<rparr>"

subsection \<open>The contract\<close>

text \<open>
  Once the connection is made and accepted the client's \<open>bufferevent\<close> is number 0 on descriptor 4 and the
  server's number 1 on descriptor 5. The loop is over for the handlers when \<open>event_base_loopexit\<close> was
  called, and the dispatch function returns at the next turn.
\<close>

fun lev_sock :: "hid \<Rightarrow> int" where
  "lev_sock ServerObj = 5"
| "lev_sock ClientObj = 4"

fun lev_bev :: "hid \<Rightarrow> nat" where
  "lev_bev ServerObj = 1"
| "lev_bev ClientObj = 0"

definition lev_entry :: "hid \<Rightarrow> lbev" where
  "lev_entry h = \<lparr>b_fd = lev_sock h, b_arg = Some h, b_in = [], b_connecting = False, b_enabled = True\<rparr>"

definition lev_wf :: "lstate lev_world \<Rightarrow> bool" where
  "lev_wf w \<longleftrightarrow> (let m = main_obj w; s = lev_state m in
     \<not> lev_returned m \<and> \<not> lexit s \<and> lcount s = 2 \<and> levent s = Some (3, Some ServerObj) \<and> larmed s \<and>
     (\<forall>h. getParent h w = Some MainProcessor \<and> getContext h w = Some (lev_bev h) \<and> lev_live m (lev_bev h) \<and>
        lbevs s (lev_bev h) = Some (lev_entry h)) \<and>
     (\<exists>p. files (lkernel s) 3 = Some (TcpListen p 16 [])) \<and> linked (lkernel s) 4 5)"

definition lev_busy :: "hid \<Rightarrow> lstate lev_world \<Rightarrow> bool" where
  "lev_busy h w \<longleftrightarrow> lev_wf w \<and> (\<forall>h'. waiting (lkernel (lev_state (main_obj w))) (lev_sock h') = [])"

definition lev_inflight :: "hid \<Rightarrow> char list \<Rightarrow> lstate lev_world \<Rightarrow> bool" where
  "lev_inflight h m w \<longleftrightarrow> lev_wf w \<and> m \<in> {client_message, server_message} \<and>
     waiting (lkernel (lev_state (main_obj w))) (lev_sock h) = m \<and>
     waiting (lkernel (lev_state (main_obj w))) (lev_sock (peer h)) = []"

definition lev_cancelled :: "lstate lev_world \<Rightarrow> bool" where
  "lev_cancelled w \<longleftrightarrow> lev_returned (main_obj w) \<or> lexit (lev_state (main_obj w))"

lemmas lev_states = lev_wf_def lev_busy_def lev_inflight_def

lemma linked_lev_sock: "linked k 4 5 \<longleftrightarrow> linked k (lev_sock h) (lev_sock (peer h))"
  by (cases h) (simp_all add: linked_sym)

lemma lev_wf_kernel:
  assumes "lev_wf w" and "linked k' 4 5" and "files k' 3 = files (lkernel (lev_state (main_obj w))) 3"
  shows "lev_wf (w\<lparr>main_obj := (main_obj w)\<lparr>lev_state := (lev_state (main_obj w))\<lparr>lkernel := k'\<rparr>\<rparr>\<rparr>)"
  using assms by (simp add: lev_wf_def Let_def)

lemma lev_send_busy:
  assumes "lev_busy h w" and "m \<in> {client_message, server_message}"
  shows "\<exists>w1. lev_send loopback_libevent (Some h) m (int (length m)) True w = Inr w1 \<and>
    lev_inflight (peer h) m w1 \<and> app_of w1 = app_of w"
proof -
  let ?s = "lev_state (main_obj w)"
  have wf: "lev_wf w" and quiet: "\<And>h. waiting (lkernel ?s) (lev_sock h) = []" using assms(1) by (auto simp: lev_busy_def)
  then have "linked (lkernel ?s) (lev_sock h) (lev_sock (peer h))" by (simp add: lev_wf_def Let_def flip: linked_lev_sock)
  from k_send_linked [OF this, of m] obtain k' where
    k': "k_send (lev_sock h) m (lkernel ?s) = (Some (int (length m)), k')" "linked k' (lev_sock h) (lev_sock (peer h))"
    "waiting k' (lev_sock (peer h)) = m" "waiting k' (lev_sock h) = []" "files k' = files (lkernel ?s)"
    using quiet by auto
  let ?w = "w\<lparr>main_obj := (main_obj w)\<lparr>lev_state := ?s\<lparr>lkernel := k'\<rparr>\<rparr>\<rparr>"
  have "lev_inflight (peer h) m ?w"
    using lev_wf_kernel [OF wf, of k'] k' assms(2) by (simp add: lev_inflight_def linked_lev_sock [of k' h])
  moreover have "lev_send loopback_libevent (Some h) m (int (length m)) True w = Inr ?w"
    using wf k'(1) assms(2)
    by (auto simp: lev_send_def bev_do_def lcall_do_def loopback_libevent_def l_write_def on_kernel_def
        lev_wf_def lev_entry_def Let_def)
  ultimately show ?thesis by (auto simp: frame_simps)
qed

lemma handler_process_eof: "handler_process P h data n eof w = handler_process P h data n' eof' w"
  by (cases h) (simp_all add: EchoServer_process_def EchoClient_process_def)

lemma lev_next_inflight:
  assumes "lev_inflight h m w" and "s = lev_state (main_obj w)"
    and "k_recv (lev_sock h) 4096 (lkernel s) = (Some m, k')"
  shows "l_next base s = (CallRead (lev_bev h) (Some h),
    on_bev (lev_bev h) (\<lambda>e. e\<lparr>b_in := m\<rparr>) (s\<lparr>lkernel := k'\<rparr>))"
proof -
  have wf: "lev_wf w" using assms(1) by (simp add: lev_inflight_def)
  have l: "linked (lkernel s) 4 5" "linked (lkernel s) 5 4"
    using wf assms(2) by (auto simp: lev_wf_def Let_def linked_sym)
  have "k_readable (lkernel s) 4 \<longleftrightarrow> h = ClientObj" "k_readable (lkernel s) 5 \<longleftrightarrow> h = ServerObj"
    using assms(1,2) k_readable_linked [OF l(1)] k_readable_linked [OF l(2)]
    by (cases h; auto simp: lev_inflight_def client_message_def server_message_def)+
  moreover have "\<not> k_readable (lkernel s) 3" using wf assms(2) by (auto simp: lev_wf_def Let_def k_readable_def)
  moreover have "m \<noteq> []" using assms(1) by (auto simp: lev_inflight_def client_message_def server_message_def)
  moreover have "lbevs s 0 = Some (lev_entry ClientObj)" "lbevs s 1 = Some (lev_entry ServerObj)"
    using wf assms(2) by (auto simp: lev_wf_def Let_def hid_all)
  moreover have "[0..<lcount s] = [0, 1]" using wf assms(2) by (simp add: lev_wf_def Let_def numeral_2_eq_2)
  ultimately show ?thesis
    using wf assms(2,3)
    by (cases h) (simp_all add: l_next_def find_bev_def l_input_def on_kernel_def on_bev_def lev_entry_def
        lev_wf_def Let_def del: One_nat_def)
qed

lemma lev_iter_inflight:
  assumes "lev_inflight h m w"
  shows "\<exists>w1 rest n. lev_iter loopback_libevent w =
      handler_process (lev_parent loopback_libevent) h (map Some m @ rest) n True w1 \<and> lev_busy h w1 \<and> app_of w1 = app_of w"
proof -
  let ?s = "lev_state (main_obj w)"
  have wf: "lev_wf w" and m: "m \<noteq> []" "length m = 19"
    using assms by (auto simp: lev_inflight_def client_message_def server_message_def)
  then have "linked (lkernel ?s) (lev_sock h) (lev_sock (peer h))" by (simp add: lev_wf_def Let_def flip: linked_lev_sock)
  from k_recv_linked [OF this _ m(1), of 4096] assms m(2) obtain k' where
    k': "k_recv (lev_sock h) 4096 (lkernel ?s) = (Some m, k')" "linked k' (lev_sock h) (lev_sock (peer h))"
    "waiting k' (lev_sock h) = []" "waiting k' (lev_sock (peer h)) = []" "files k' = files (lkernel ?s)"
    by (auto simp: lev_inflight_def)
  let ?w = "w\<lparr>main_obj := (main_obj w)\<lparr>lev_state := ?s\<lparr>lkernel := k'\<rparr>\<rparr>\<rparr>"
  have "\<forall>h'. waiting k' (lev_sock h') = []" using k'(3,4) by (cases h) (simp_all add: hid_all)
  then have "lev_busy h ?w"
    using lev_wf_kernel [OF wf, of k'] k'(2,5) by (simp add: lev_busy_def linked_lev_sock [of _ h])
  moreover have "lbevs ?s (lev_bev h) = Some (lev_entry h)" "lev_live (main_obj w) (lev_bev h)"
    using wf by (simp_all add: lev_wf_def Let_def)
  then have "lev_iter loopback_libevent w =
      handler_process (lev_parent loopback_libevent) h (map Some m @ replicate 32748 None) 19 False ?w"
    using lev_next_inflight [OF assms refl k'(1), of "m_ebase (main_obj w)"] m
    by (simp add: lev_iter_def lcall_def loopback_libevent_def readfn_def l_remove_def on_bev_def recv_into_def
        max_buff_def lev_entry_def fun_upd_idem)
  ultimately show ?thesis using handler_process_eof by (metis app_of_main_obj)
qed

interpretation lev: echo_transport "lev_parent loopback_libevent" "lev_iter loopback_libevent" lev_cancelled
  lev_inflight lev_busy
proof (unfold_locales, goal_cases)
  case (1 w w' h m)
  then show ?case using net_of_eqD [OF 1(1)] by (simp add: lev_states)
next
  case (2 w w' h)
  then show ?case using net_of_eqD [OF 2(1)] by (simp add: lev_states)
next
  case (3 h m w)
  then show ?case by (simp add: lev_states lev_cancelled_def Let_def)
next
  case (4 h w)
  then show ?case by (simp add: lev_states Let_def)
next
  case (5 h w m)
  then show ?case using lev_send_busy by (simp add: lev_parent_def)
next
  case (8 h m w)
  then show ?case by (rule lev_iter_inflight)
qed (simp_all add: lev_parent_def lev_cancelLoop_def lcall_def loopback_libevent_def lev_cancelled_def frame_simps)

subsection \<open>The program over this transport\<close>

lemmas lev_setup_simps = lev_main_def lev_bindServer_def lev_initialize_def start_world_def lev_zero_def
  lev_connectToServer_def bev_new_def bev_do_def lcall_def lcall_do_def EchoClient_new_def EchoServer_new_def
  EventHandler_new_def loopback_libevent_def on_kernel_def on_bev_def l_connect_def lstate_zero_def

text \<open>The first two turns of the loop: the client's connection is made, and the server accepts it.\<close>

lemma lev_setup:
  "\<exists>w1 w2 w3 w4. em_bindServer (lev_main loopback_libevent) ''8000'' ServerObj
       (em_initialize (lev_main loopback_libevent) (start_world None (lev_zero lstate_zero) ck (int N))) = Inr w1 \<and>
     em_connectToServer (lev_main loopback_libevent) ''127.0.0.1'' ''8000'' ClientObj w1 = Inr w2 \<and>
     \<not> lev_ended w2 \<and> lev_iter loopback_libevent w2 = Inr w3 \<and> \<not> lev_ended w3 \<and>
     lev_iter loopback_libevent w3 = Inr w4 \<and>
     lev_inflight ServerObj client_message w4 \<and> awaiting 0 N ck w4"
  by (simp add: lev_setup_simps kernel_ops res_simps Let_def EchoClient_enable_def EchoClient_sendData_def
      EventHandler_send_def lev_parent_def lev_send_def int_ok_def INT_MAX_def lev_ended_def lev_iter_def
      l_next_def find_bev_def l_write_def errorfn_def acceptfn_def no_flags_def k_readable_def
      lev_states lev_entry_def linked_def waiting_def hid_all app_defs)

lemma lev_roles:
  assumes "0 < N" and "int N \<le> INT_MAX" and "clock_sane ck" and "2 * N + 2 < fuel"
  shows "\<exists>w'. run_roles (lev_main loopback_libevent) fuel ArgParser_new
      (em_initialize (lev_main loopback_libevent) (start_world None (lev_zero lstate_zero) ck (int N))) = Inr w' \<and>
    finished N ck w'"
proof -
  let ?V = "lev_main loopback_libevent" and ?a = ArgParser_new and ?iter = "lev_iter loopback_libevent"
  have a: "pPort ?a = ''8000''" "pAddress ?a = ''127.0.0.1''" by (simp_all add: ArgParser_new_def)
  from lev_setup [of ck N] obtain w1 w2 w3 w4 where
    s: "em_bindServer ?V (pPort ?a) ServerObj (em_initialize ?V (start_world None (lev_zero lstate_zero) ck (int N))) = Inr w1"
      "em_connectToServer ?V (pAddress ?a) (pPort ?a) ClientObj w1 = Inr w2"
    and two: "\<not> lev_ended w2" "?iter w2 = Inr w3" "\<not> lev_ended w3" "?iter w3 = Inr w4"
    and start: "lev_inflight ServerObj client_message w4" "awaiting 0 N ck w4" unfolding a by blast
  from lev.exchange_from_start [OF start assms(1-3) le_refl] obtain w5 where
    5: "run_loop lev_cancelled ?iter (2 * N) w4 = Inr w5" "lev_cancelled w5" "finished N ck w5" by blast
  let ?w = "w5\<lparr>main_obj := (main_obj w5)\<lparr>lev_returned := True\<rparr>\<rparr>"
  have last: "run_loop lev_ended ?iter (Suc m) w5 = Inr (if lev_ended w5 then w5 else ?w)" for m
    using 5(2) by (cases m) (auto simp: lev_ended_def lev_cancelled_def lev_iter_def lcall_def loopback_libevent_def l_next_def)
  have "run_loop lev_ended ?iter (Suc (2 * N)) w4 = Inr (if lev_ended w5 then w5 else ?w)"
    by (rule run_loop_then [OF 5(1) _ last]) (simp add: lev_ended_def lev_cancelled_def)
  moreover obtain f where f: "fuel = Suc (Suc f)" "Suc (2 * N) \<le> f"
    using assms(4) by (metis Suc_le_D Suc_le_mono add_2_eq_Suc' less_eq_Suc_le)
  ultimately have "run_loop lev_ended ?iter f w4 = Inr (if lev_ended w5 then w5 else ?w)"
    using run_loop_more [of lev_ended ?iter "Suc (2 * N)" w4 f] by simp
  moreover have "finished N ck ?w" using 5(3) by (simp add: finished_def app_of_def)
  ultimately show ?thesis
    using s two 5(3) f(1)
    by (auto simp: run_roles_def res_simps ArgParser_new_def lev_main_def lev_process_def)
qed

text \<open>
  C28. Over the loopback library the libevent program run with no arguments completes: the connection
  is made and accepted in two turns of the dispatch loop, every message is read in one turn, and
  the loop ends after the client has cancelled it.
\<close>

theorem lev_main_completes:
  assumes "clock_sane ck" and "usecs (ck 1) \<le> usecs (ck 2)" and "2003 \<le> fuel"
  shows "\<exists>w. perf_main (lev_main loopback_libevent) None (lev_zero lstate_zero) ck fuel [] = Inr w \<and>
    benchmark_done 1000 ck w"
  using lev_roles [of 1000 ck fuel] assms by (intro main_benchmark_done) (auto simp: INT_MAX_def)

theorem lev_main_completes_witness:
  "\<exists>w. perf_main (lev_main loopback_libevent) None (lev_zero lstate_zero) still_clock 2003 [] = Inr w \<and>
    benchmark_done 1000 still_clock w"
  by (rule lev_main_completes) simp_all

text \<open>A server with two connections, the second of which was accepted last, and a request on the first.\<close>

definition two_clients :: "lstate lev_world" where
  "two_clients = (setContext ServerObj (Some 1) (setParent ServerObj (start_world None (lev_zero lstate_zero) still_clock 1000)))
     \<lparr>main_obj := \<lparr>m_ebase = Some 0, lev_state = lstate_zero\<lparr>lcount := 2, lbevs := (\<lambda>b. if b < 2 then Some
          \<lparr>b_fd = 5 + int b, b_arg = Some ServerObj, b_in = (if b = 0 then client_message else []),
           b_connecting = False, b_enabled = True\<rparr> else None)\<rparr>,
        lev_live = (\<lambda>b. b < 2), lev_returned = False\<rparr>\<rparr>"

theorem lev_use_after_free_witness:
  "\<exists>w'. errorfn loopback_libevent 1 (no_flags\<lparr>bev_eof := True\<rparr>) (Some ServerObj) two_clients = Inr w' \<and>
    readfn loopback_libevent 0 (Some ServerObj) w' = Inl (Undef ''use after free'')"
proof -
  let ?w = "two_clients\<lparr>main_obj := (main_obj two_clients)\<lparr>lev_state := l_free 1 (lev_state (main_obj two_clients)),
    lev_live := (lev_live (main_obj two_clients))(1 := False)\<rparr>\<rparr>"
  have e: "errorfn loopback_libevent 1 (no_flags\<lparr>bev_eof := True\<rparr>) (Some ServerObj) two_clients = Inr ?w"
    by (simp add: errorfn_def no_flags_def bev_free_def bev_do_def lcall_do_def two_clients_def loopback_libevent_def)
  have "readfn loopback_libevent 0 (Some ServerObj) ?w = Inl (Undef ''use after free'')"
    by (rule lev_use_after_free [OF e])
      (simp_all add: no_flags_def two_clients_def loopback_libevent_def l_remove_def l_free_def max_buff_def)
  with e show ?thesis by blast
qed

text \<open>
  A listening server with \<open>n\<close> connections accepted, the last of which is its context, in a machine with
  the open files \<open>fs\<close>, where the first client has sent a request. The next accept makes number \<open>n\<close>.
\<close>

definition serving_bev :: "int \<Rightarrow> lbev" where
  "serving_bev sock = \<lparr>b_fd = sock, b_arg = Some ServerObj, b_in = [], b_connecting = False, b_enabled = True\<rparr>"

definition serving :: "nat \<Rightarrow> (int \<Rightarrow> tcp_file option) \<Rightarrow> (nat \<Rightarrow> lbev option) \<Rightarrow> nat option \<Rightarrow> lstate lev_world" where
  "serving n fs bs c =
     (setContext ServerObj c (setParent ServerObj (start_world None (lev_zero lstate_zero) still_clock 1000)))
     \<lparr>main_obj := \<lparr>m_ebase = Some 0,
        lev_state = \<lparr>lkernel = kernel_zero\<lparr>files := fs, inbox := (\<lambda>_. [])(1 := client_message), opened := (\<lambda>e. e < 4), endpoints := 4\<rparr>,
          lbevs = bs, lcount = n, levent = Some (3, Some ServerObj), larmed = True, lexit = False\<rparr>,
        lev_live = (\<lambda>b. b < n), lev_returned = False\<rparr>\<rparr>"

lemma serving_accept:
  assumes "fs 3 = Some (TcpListen 8000 16 (e # es))" and "free_fd fs 3 = sock" and "3 < sock"
  shows "next_connection loopback_libevent 3 (serving n fs bs c) = Some n"
    and "acceptfn loopback_libevent 3 (Some ServerObj) (serving n fs bs c) =
      Inr (serving (Suc n) (fs(sock \<mapsto> TcpConn e, 3 \<mapsto> TcpListen 8000 16 es)) (bs(n \<mapsto> serving_bev sock)) (Some n))"
proof -
  have live: "(\<lambda>b. b < n)(n := True) = (\<lambda>b. b < Suc n)" by (auto simp: fun_eq_iff)
  show "next_connection loopback_libevent 3 (serving n fs bs c) = Some n"
    using assms by (simp add: next_connection_def serving_def loopback_libevent_def on_kernel_def k_accept_def k_open_def)
  show "acceptfn loopback_libevent 3 (Some ServerObj) (serving n fs bs c) =
      Inr (serving (Suc n) (fs(sock \<mapsto> TcpConn e, 3 \<mapsto> TcpListen 8000 16 es)) (bs(n \<mapsto> serving_bev sock)) (Some n))"
    using assms live
    by (simp add: acceptfn_def serving_def serving_bev_def loopback_libevent_def on_kernel_def on_bev_def k_accept_def
        k_open_def bev_new_def bev_do_def lcall_def lcall_do_def Let_def)
qed

theorem lev_wrong_client_witness:
  "\<exists>w1 w2 s. acceptfn loopback_libevent 3 (Some ServerObj) (serving 0 [3 \<mapsto> TcpListen 8000 16 [1, 3]] Map.empty None) = Inr w1 \<and>
     acceptfn loopback_libevent 3 (Some ServerObj) w1 = Inr w2 \<and>
     lev_iter loopback_libevent w2 =
       Inr (w2\<lparr>main_obj := (main_obj w2)\<lparr>lev_state := bufferevent_write loopback_libevent 1 server_message s\<rparr>\<rparr>)"
proof -
  let ?f0 = "[3 \<mapsto> TcpListen 8000 16 [1, 3]]"
  let ?f1 = "?f0(4 \<mapsto> TcpConn 1, 3 \<mapsto> TcpListen 8000 16 [3])" and ?b1 = "[0 \<mapsto> serving_bev 4]"
  let ?f2 = "?f1(5 \<mapsto> TcpConn 3, 3 \<mapsto> TcpListen 8000 16 [])" and ?b2 = "?b1(1 \<mapsto> serving_bev 5)"
  let ?w1 = "serving 1 ?f1 ?b1 (Some 0)" and ?w2 = "serving 2 ?f2 ?b2 (Some 1)"
  have fd: "free_fd ?f0 3 = 4" "free_fd ?f1 3 = 5" by (simp_all add: free_fd.simps)
  have one: "next_connection loopback_libevent 3 (serving 0 ?f0 Map.empty None) = Some 0"
    "acceptfn loopback_libevent 3 (Some ServerObj) (serving 0 ?f0 Map.empty None) = Inr ?w1"
    using serving_accept [of ?f0 1 "[3]" 4 0 Map.empty None] fd(1) by simp_all
  have two: "next_connection loopback_libevent 3 ?w1 = Some 1"
    "acceptfn loopback_libevent 3 (Some ServerObj) ?w1 = Inr ?w2"
    using serving_accept [of ?f1 3 "[]" 5 1 ?b1 "Some 0"] fd(2) by (simp_all add: numeral_2_eq_2)
  obtain s where s: "l_next (Some 0) (lev_state (main_obj ?w2)) = (CallRead 0 (Some ServerObj), s)"
    "lbevs s 0 = Some ((serving_bev 4)\<lparr>b_in := client_message\<rparr>)"
    by (simp add: l_next_def serving_def find_bev_def serving_bev_def l_input_def on_kernel_def on_bev_def
        k_readable_def k_recv_def upt_rec)
  have r: "evbuffer_remove loopback_libevent 0 max_buff s = (Some client_message, snd (l_remove 0 max_buff s))"
    using s(2) by (simp add: loopback_libevent_def l_remove_def max_buff_def)
  have start: "getParent ServerObj (serving 0 ?f0 Map.empty None) = Some MainProcessor" by (simp add: serving_def)
  have fresh: "\<not> lev_live (main_obj ?w1) 1" by (simp add: serving_def)
  have "lev_next loopback_libevent (m_ebase (main_obj ?w2)) (lev_state (main_obj ?w2)) = (CallRead 0 (Some ServerObj), s)"
    using s(1) by (simp add: serving_def loopback_libevent_def)
  from lev_wrong_client [OF start one two fresh this r] one(2) two(2) show ?thesis by blast
qed

end
