(* ===== verification/ShmemChannel.thy ===== *)
theory ShmemChannel
  imports ShmemProtocol
begin

section \<open>The shared buffer as a channel\<close>

text \<open>
  What the shared-memory transports promise to the two handlers: a channel with one place, into which
  a complete message is put and from which it is taken in one step each. The protocols of single
  memory accesses, with busy waiting and with semaphores, refine it: the stores of \<open>send\<close> up to the
  last one and the loads of the polling loop and of \<open>strcmp\<close> up to the last one are not visible.
\<close>

record channel =
  slot :: "(hid \<times> cells) option"   \<comment> \<open>the message and the process it is for\<close>
  serving :: bool                   \<comment> \<open>the server has taken a request and has not answered it\<close>
  requests :: nat
  answers :: nat
  responses :: nat

abbreviation message_for :: "hid \<Rightarrow> hid \<times> cells" where
  "message_for r \<equiv> (r, map Some (msg_in r))"

inductive channel_step :: "nat \<Rightarrow> channel \<Rightarrow> channel \<Rightarrow> bool" for N where
  put_request: "slot c = None \<Longrightarrow> \<not> serving c \<Longrightarrow> requests c = responses c \<Longrightarrow> responses c < N \<Longrightarrow>
     channel_step N c (c\<lparr>slot := Some (message_for ServerObj), requests := Suc (requests c)\<rparr>)"
| take_request: "slot c = Some (message_for ServerObj) \<Longrightarrow>
     channel_step N c (c\<lparr>slot := None, serving := True\<rparr>)"
| put_response: "slot c = None \<Longrightarrow> serving c \<Longrightarrow>
     channel_step N c (c\<lparr>slot := Some (message_for ClientObj), serving := False, answers := Suc (answers c)\<rparr>)"
| take_response: "slot c = Some (message_for ClientObj) \<Longrightarrow>
     channel_step N c (c\<lparr>slot := None, responses := Suc (responses c)\<rparr>)"

definition channel_empty :: channel where
  "channel_empty = \<lparr>slot = None, serving = False, requests = 0, answers = 0, responses = 0\<rparr>"

subsection \<open>The abstraction\<close>

text \<open>A process that composes its message, or is done, has emptied the channel.\<close>

fun composing :: "pc \<Rightarrow> bool" where
  "composing AtSetLen = True"
| "composing (AtCopy S) = True"
| "composing AtSetDest = True"
| "composing AtDone = True"
| "composing _ = False"

definition channel_of :: "proto \<Rightarrow> channel" where
  "channel_of s =
     \<lparr>slot = (if composing (pcs s ClientObj) \<or> composing (pcs s ServerObj) then None
              else Some (turn s, take 19 (mbuffer (mem s)))),
      serving = composing (pcs s ServerObj), requests = sent s, answers = served s, responses = got s\<rparr>"

lemma full_take: "full r b \<Longrightarrow> membuff_ok b \<Longrightarrow> take 19 (mbuffer b) = map Some (msg_in r)"
  by (rule nth_equalityI) (auto simp: full_def membuff_ok_def)

text \<open>
  What the invariants of both protocols say about a process \<open>r\<close> that is inside its handler: it has the
  turn, its peer is not composing, and the buffer holds the message it compares or has composed.
\<close>

definition handler_view :: "nat \<Rightarrow> hid \<Rightarrow> proto \<Rightarrow> bool" where
  "handler_view N r s \<longleftrightarrow> membuff_ok (mem s) \<and> \<not> composing (pcs s (peer r)) \<and>
     (\<forall>i. pcs s r = AtCompare i \<longrightarrow> turn s = r \<and> full r (mem s)) \<and>
     (pcs s r = AtSetDest \<longrightarrow> full (peer r) (mem s)) \<and>
     (r = ClientObj \<and> pcs s r = AtSetDest \<longrightarrow> sent s = got s \<and> got s < N)"

fun in_handler :: "pc \<Rightarrow> bool" where
  "in_handler (AtCompare i) = True"
| "in_handler AtSetLen = True"
| "in_handler (AtCopy S) = True"
| "in_handler AtSetDest = True"
| "in_handler _ = False"

lemma turn_counted [simp]: "turn (s\<lparr>served := n\<rparr>) = turn s" "turn (s\<lparr>sent := n\<rparr>) = turn s"
  by (simp_all add: turn_def)

text \<open>Moving inside the handler without a change of the phase is invisible.\<close>

lemma channel_of_goto:
  "composing p = composing (pcs s r) \<Longrightarrow> channel_of (goto r p s) = channel_of s"
  by (cases r) (simp_all add: channel_of_def)

lemma channel_of_goto_sems:
  "composing p = composing (pcs s r) \<Longrightarrow> channel_of (s\<lparr>sems := m, pcs := (pcs s)(r := p)\<rparr>) = channel_of s"
  by (cases r) (simp_all add: channel_of_def)

lemma responses_channel_of [simp]: "responses (channel_of s) = got s"
  by (simp add: channel_of_def)

lemma channel_of_compose:
  assumes "composing (pcs s r)" and "composing p"
  shows "channel_of (s\<lparr>mem := m, pcs := (pcs s)(r := p)\<rparr>) = channel_of s"
  using assms by (cases r) (simp_all add: channel_of_def)

lemma channel_taken:
  assumes "handler_view N r s" and "pcs s r = AtCompare i"
  shows "channel_step N (channel_of s) (channel_of (accepted N r s))"
proof -
  have "slot (channel_of s) = Some (message_for r)"
    using assms by (cases r) (auto simp: channel_of_def handler_view_def full_take)
  then show ?thesis
    using assms take_request [of "channel_of s" N] take_response [of "channel_of s" N]
    by (cases r) (simp_all add: channel_of_def handler_view_def)
qed

lemma channel_put:
  assumes "handler_view N r s" and "pcs s r = AtSetDest" and "\<not> composing after"
  shows "channel_step N (channel_of s)
    (channel_of (counted r (goto r after (upd_mem (destId_update (\<lambda>_. word_of_int (dest_of (peer r)))) s))))"
proof -
  have "take 19 (mbuffer (mem s)) = map Some (msg_in (peer r))"
    using assms full_take unfolding handler_view_def by blast
  then show ?thesis
    using assms put_request [of "channel_of s" N] put_response [of "channel_of s" N]
    by (cases r) (simp_all add: channel_of_def handler_view_def turn_def ClientDest_def ServerDest_def)
qed

lemma handler_simulates:
  assumes "handler_step N after s t" and "\<not> composing after"
    and view: "\<And>r. in_handler (pcs s r) \<Longrightarrow> handler_view N r s"
  shows "channel_of t = channel_of s \<or> channel_step N (channel_of s) (channel_of t)"
  using assms(1)
proof (cases rule: handler_step.cases)
  case (cmp_equal r i)
  then show ?thesis using channel_taken view [of r] by simp
next
  case (set_dest r)
  then show ?thesis using channel_put assms(2) view [of r] by simp
qed (simp_all add: channel_of_goto channel_of_compose)

subsection \<open>Busy waiting refines the channel\<close>

lemma spin_view:
  assumes inv: "spin_inv N s" and "in_handler (pcs s r)"
  shows "handler_view N r s"
proof -
  have r: "turn s = r" using spin_inv_turn [OF inv, of r] assms(2) by (cases "pcs s r") auto
  with inv have "pcs s (peer r) \<in> {AtLen, AtDest}" and "membuff_ok (mem s)"
    and "turn_ok r (pcs s r) (mem s)" and "counts_ok N r s"
    by (simp_all add: spin_inv_def)
  with r show ?thesis using assms(2) by (auto simp: handler_view_def counts_ok_def)
qed

lemma spin_simulates:
  assumes "spin_inv N s" and "spin_step N s t"
  shows "channel_of t = channel_of s \<or> channel_step N (channel_of s) (channel_of t)"
  using assms(2)
proof (cases rule: spin_step.cases)
  case spin_handler
  then show ?thesis by (rule handler_simulates) (simp_all add: spin_view [OF assms(1)])
qed (simp_all add: channel_of_goto)

interpretation spin_channel: refinement
  "\<lambda>s. spin_init N s \<and> uint (destId (mem s)) = ClientDest" "spin_step N" "spin_inv N" channel_of "channel_step N" for N
  by unfold_locales (rule spin_simulates)

lemma channel_of_spin_init: "spin_init N s \<Longrightarrow> channel_of s = channel_empty"
  by (simp add: spin_init_def channel_of_def channel_empty_def)

text \<open>
  C7. Busy waiting implements the channel: whatever the two processes do from a struct whose
  destination field names the client, in any interleaving of their memory accesses, is a run of the
  channel in which complete messages are put and taken in single steps and in turns.
\<close>

theorem spin_refines_channel:
  assumes "spin_init N s" and "uint (destId (mem s)) = ClientDest" and "(spin_step N)\<^sup>*\<^sup>* s t"
  shows "(channel_step N)\<^sup>*\<^sup>* channel_empty (channel_of t)"
  using spin_channel.simulates_steps [OF assms(3) spin_init_inv] assms(1,2) channel_of_spin_init by simp

text \<open>A process inside its handler can always go on, and that brings the end of the run closer.\<close>

lemma handler_progress:
  assumes "handler_view N r s" and "in_handler (pcs s r)"
    and "\<And>i. pcs s r = AtCompare i \<Longrightarrow> i < 19"
  shows "\<exists>t. handler_step N after s t"
proof (cases "pcs s r")
  case (AtCompare i)
  then have "mbuffer (mem s) ! i = Some (msg_in r ! i)" using assms by (auto simp: handler_view_def full_def)
  with AtCompare show ?thesis by (cases "msg_in r ! i = NUL") (blast intro: handler_step.intros)+
next
  case (AtCopy S)
  then show ?thesis by (cases "S = {}") (blast intro: handler_step.intros)+
qed (use assms(2) in \<open>auto intro: handler_step.intros\<close>)

lemma handler_spin_work:
  assumes "handler_step N AtLen s t" and inv: "spin_inv N s"
  shows "sem_left_of N (turn t) t < sem_left_of N (turn s) s"
  using assms(1)
proof (cases rule: handler_step.cases)
  case (cmp_differs r i)
  then show ?thesis using inv spin_inv_turn [OF inv, of r] by (auto simp: spin_inv_def full_def)
next
  case (cmp_next r i)
  then have r: "r = turn s" using spin_inv_turn [OF inv, of r] by auto
  with cmp_next inv show ?thesis by (cases r) (auto simp: sem_left_of_def spin_inv_def)
next
  case (cmp_equal r i)
  then have r: "r = turn s" using spin_inv_turn [OF inv, of r] by auto
  with cmp_equal inv show ?thesis by (cases r) (auto simp: sem_left_of_def spin_inv_def)
next
  case (set_len r)
  then have r: "r = turn s" using spin_inv_turn [OF inv, of r] by auto
  with set_len show ?thesis by (cases r) (auto simp: sem_left_of_def)
next
  case (copy_byte r S i)
  then have r: "r = turn s" using spin_inv_turn [OF inv, of r] by auto
  with copy_byte inv have "finite S" by (auto simp: spin_inv_def intro: finite_subset)
  then have "card (S - {i}) < card S" using copy_byte(3) by (rule copy_card)
  with copy_byte r show ?thesis by (cases r) (auto simp: sem_left_of_def)
next
  case (copied r)
  then have r: "r = turn s" using spin_inv_turn [OF inv, of r] by auto
  with copied show ?thesis by (cases r) (auto simp: sem_left_of_def)
next
  case (set_dest r)
  then have r: "r = turn s" using spin_inv_turn [OF inv, of r] by auto
  moreover have "turn t = peer r" using set_dest by (cases r) (auto simp: turn_def ClientDest_def ServerDest_def)
  ultimately show ?thesis using set_dest inv
    by (cases r) (auto simp: sem_left_of_def spin_inv_def counts_ok_def Suc_diff_mult)
qed

lemma spin_advance:
  assumes inv: "spin_inv N s" and "pcs s ClientObj \<noteq> AtDone"
  shows "\<exists>t. spin_step N s t \<and> sem_left_of N (turn t) t < sem_left_of N (turn s) s"
proof (cases "in_handler (pcs s (turn s))")
  case True
  then have "\<exists>t. handler_step N AtLen s t"
    using inv by (intro handler_progress [OF spin_view]) (auto simp: spin_inv_def)
  then show ?thesis using handler_spin_work inv by (blast intro: spin_handler)
next
  case False
  have ready: "mlen (mem s) \<noteq> 0" and "pcs s (turn s) = AtLen \<or> pcs s (turn s) = AtDest"
    using assms False by (cases "pcs s (turn s)"; auto simp: spin_inv_def full_def)+
  then show ?thesis
  proof (elim disjE)
    assume at: "pcs s (turn s) = AtLen"
    then have "spin_step N s (goto (turn s) AtDest s)" using ready by (rule spin_len)
    with at show ?thesis
      by (intro exI [of _ "goto (turn s) AtDest s"], cases "turn s") (auto simp: sem_left_of_def)
  next
    assume at: "pcs s (turn s) = AtDest"
    then have "spin_step N s (goto (turn s) (AtCompare 0) s)" by (rule spin_mine) (simp add: selects_turn)
    with at show ?thesis
      by (intro exI [of _ "goto (turn s) (AtCompare 0) s"], cases "turn s") (auto simp: sem_left_of_def)
  qed
qed

lemma spin_reaches_done:
  assumes "spin_inv N t"
  shows "\<exists>u. (spin_step N)\<^sup>*\<^sup>* t u \<and> pcs u ClientObj = AtDone \<and> got u = N"
  using assms
proof (induction "sem_left_of N (turn t) t" arbitrary: t rule: less_induct)
  case less
  show ?case
  proof (cases "pcs t ClientObj = AtDone")
    case True
    with less.prems have "got t = N" by (cases "turn t") (auto simp: spin_inv_def counts_ok_def)
    with True show ?thesis by blast
  next
    case False
    then obtain u where u: "spin_step N t u" "sem_left_of N (turn u) u < sem_left_of N (turn t) t"
      using spin_advance less.prems by blast
    then show ?thesis
      using less.hyps [OF u(2)] spin_step_inv [OF less.prems u(1)] by (meson converse_rtranclp_into_rtranclp)
  qed
qed

theorem spin_refines_channel_witness:
  "\<exists>u. (spin_step 3)\<^sup>*\<^sup>* (proto_start 1 AtLen) u \<and> responses (channel_of u) = 3 \<and>
     (channel_step 3)\<^sup>*\<^sup>* channel_empty (channel_of u)"
proof -
  have start: "spin_init 3 (proto_start 1 AtLen)" "uint (destId (mem (proto_start 1 AtLen))) = ClientDest"
    by (simp_all add: spin_init_start) (simp add: proto_start_def ClientDest_def)
  then obtain u where "(spin_step 3)\<^sup>*\<^sup>* (proto_start 1 AtLen) u" "got u = 3"
    using spin_reaches_done [OF spin_init_inv] by blast
  then show ?thesis using spin_refines_channel [OF start] by auto
qed

text \<open>
  C34. Busy waiting never runs into a dead end once the destination field names the client: from every
  state that the two processes can reach from such a struct there is a schedule after which the
  client is done, with all its responses.
\<close>

theorem spin_can_finish:
  assumes "spin_init N s" and "uint (destId (mem s)) = ClientDest" and "(spin_step N)\<^sup>*\<^sup>* s t"
  shows "\<exists>u. (spin_step N)\<^sup>*\<^sup>* t u \<and> pcs u ClientObj = AtDone \<and> got u = N"
  using spin.inv_reachable [OF conjI [OF assms(1,2)] assms(3)] by (rule spin_reaches_done)

theorem spin_can_finish_witness:
  "\<exists>u. (spin_step 3)\<^sup>*\<^sup>* (proto_start 1 AtLen) u \<and> pcs u ClientObj = AtDone \<and> got u = 3"
  by (rule spin_can_finish [of 3 "proto_start 1 AtLen"])
    (simp_all add: spin_init_start, simp add: proto_start_def ClientDest_def)

subsection \<open>Semaphores refine the channel\<close>

lemma sem_view:
  assumes "sem_inv N s" and "in_handler (pcs s r)"
  shows "handler_view N r s"
proof -
  have ok: "sem_ok N (owner s) s" using assms(1) by (simp add: sem_inv_def)
  have "owner s = r" using sem_ok_mover [OF ok, of r] assms(2) by (cases "pcs s r") auto
  with ok have ok: "sem_ok N r s" by simp
  then have "pcs s (peer r) = AtWait" and "membuff_ok (mem s)"
    and baton: "baton_ok r (pcs s r) (sems s r) (mem s)" and counts: "sem_counts N r s"
    by (simp_all add: sem_ok_def)
  moreover have "turn s = r" if "pcs s r = AtCompare i" for i
    using that baton by (simp add: selects_turn)
  ultimately show ?thesis using assms(2) by (auto simp: handler_view_def sem_counts_def)
qed

lemma sem_simulates:
  assumes "sem_inv N s" and "sem_step N s t"
  shows "channel_of t = channel_of s \<or> channel_step N (channel_of s) (channel_of t)"
  using assms(2)
proof (cases rule: sem_step.cases)
  case sem_handler
  then show ?thesis by (rule handler_simulates) (simp_all add: sem_view [OF assms(1)])
qed (simp_all add: channel_of_goto channel_of_goto_sems)

interpretation sem_channel: refinement "sem_init N" "sem_step N" "sem_inv N" channel_of "channel_step N" for N
  by unfold_locales (rule sem_simulates)

lemma channel_of_sem_init: "sem_init N s \<Longrightarrow> channel_of s = channel_empty"
  by (simp add: sem_init_def channel_of_def channel_empty_def)

text \<open>The channel is quiet once the client has its \<open>N\<close> responses, as many as it asked for.\<close>

lemma channel_quiet:
  assumes "pcs s ClientObj = AtDone" and "sem_inv N s"
  shows "\<not> channel_step N (channel_of s) c"
proof -
  have "owner s = ClientObj" using assms(1) by (simp add: owner_def)
  with assms have "pcs s ServerObj = AtWait" and "got s = N"
    by (auto simp: sem_inv_def sem_ok_def sem_counts_def)
  with assms(1) show ?thesis by (auto simp: channel_of_def elim: channel_step.cases)
qed

text \<open>
  C6. The semaphores implement the channel from any contents of the struct, and do not block it:
  every run is a run of the channel, and where the two processes stop, the channel has nothing left to
  do.
\<close>

theorem sem_refines_channel:
  assumes "sem_init N s" and "(sem_step N)\<^sup>*\<^sup>* s t"
  shows "(channel_step N)\<^sup>*\<^sup>* channel_empty (channel_of t) \<and>
    ((\<nexists>u. sem_step N t u) \<longrightarrow> (\<nexists>c. channel_step N (channel_of t) c))"
proof -
  have inv: "sem_inv N s" "sem_inv N t"
    using sem_init_inv [OF assms(1)] semsys.inv_reachable [OF assms] by blast+
  show ?thesis
    using sem_channel.simulates_steps [OF assms(2) inv(1)] channel_of_sem_init [OF assms(1)]
      semsys.stuck_is_final [OF inv(1) assms(2)] channel_quiet [OF _ inv(2)] by simp
qed

theorem sem_refines_channel_witness:
  "\<exists>t. (sem_step 2)\<^sup>*\<^sup>* (proto_start 0 AtWait) t \<and> responses (channel_of t) = 2 \<and>
     (channel_step 2)\<^sup>*\<^sup>* channel_empty (channel_of t)"
proof -
  have i: "sem_init 2 (proto_start 0 AtWait)"
    by (simp add: sem_init_def proto_start_def membuff_ok_def membuff_zero_def)
  from semsys.reaches_final [OF sem_init_inv [OF i]] obtain t where
    t: "(sem_step 2)\<^sup>*\<^sup>* (proto_start 0 AtWait) t" "pcs t ClientObj = AtDone" by blast
  have "sem_inv 2 t" using semsys.inv_reachable [OF i t(1)] .
  then have "got t = 2" using t(2) by (cases "owner t") (auto simp: sem_inv_def sem_ok_def sem_counts_def)
  with t show ?thesis using sem_refines_channel [OF i t(1)] by auto
qed

end
