(* ===== verification/BenchCommon.thy ===== *)
theory BenchCommon
  imports Decimal
begin

section \<open>The cache of the thread benchmarks (benchcommon.hpp)\<close>

text \<open>
  The shared cache is a map from strings to strings; \<open>calc\<close> increments ten counters in it, kept as
  decimal strings, and \<open>checkWork\<close> compares them at the end. A lookup with \<open>operator[]\<close> inserts an
  empty string for an absent key; \<open>at\<close> throws for one.
\<close>

type_synonym cachetype = "string \<Rightarrow> string option"

definition max_iter :: nat where "max_iter = 1000"
definition num_calc :: nat where "num_calc = 10"
definition num_tasks :: nat where "num_tasks = 8"
definition start_val :: int where "start_val = 10000"
definition cache_key :: string where "cache_key = ''hello''"

definition get_key :: "nat \<Rightarrow> string" where
  "get_key i = cache_key @ to_string (int i)"

text \<open>\<open>cache[key]\<close> as a read: the value and the cache after the read.\<close>

definition cache_index :: "string \<Rightarrow> cachetype \<Rightarrow> string \<times> cachetype" where
  "cache_index key cache = (case cache key of None \<Rightarrow> ([], cache(key \<mapsto> [])) | Some s \<Rightarrow> (s, cache))"

text \<open>The string that replaces \<open>str\<close>.\<close>

definition calc_value :: "string \<Rightarrow> string result" where
  "calc_value str =
     (if length str = 0 then Inr (to_string (start_val + 1))
      else rbind (stoi str) (\<lambda>v. rbind (int_op (v + 1)) (\<lambda>v. Inr (to_string v))))"

definition calc_body :: "nat \<Rightarrow> cachetype \<Rightarrow> cachetype result" where
  "calc_body i cache =
     (let key = get_key i; (str, cache) = cache_index key cache
      in rbind (calc_value str) (\<lambda>v. Inr (cache(key \<mapsto> v))))"

function calc_from :: "nat \<Rightarrow> cachetype \<Rightarrow> cachetype result" where
  "calc_from i cache = (if i < num_calc then rbind (calc_body i cache) (calc_from (i + 1)) else Inr cache)"
  by pat_completeness auto
termination by (relation "measure (\<lambda>(i, cache). num_calc - i)") auto

declare calc_from.simps [simp del]

definition calc :: "cachetype \<Rightarrow> cachetype result" where
  "calc cache = calc_from 0 cache"

text \<open>
  \<open>checkWork\<close>: the pairs it logs through \<open>SkipWithError\<close>. \<open>start_val + iter * 2\<close> is computed in
  \<open>unsigned int\<close>.
\<close>

definition check_string :: "32 word \<Rightarrow> string" where
  "check_string iter = to_string (uint (word_of_int start_val + iter * 2))"

fun check_keys :: "nat list \<Rightarrow> string \<Rightarrow> cachetype \<Rightarrow> (string \<times> string) list result" where
  "check_keys [] str_check cache = Inr []"
| "check_keys (i # is) str_check cache =
     (case cache (get_key i) of
        None \<Rightarrow> Inl (Uncaught ''std::out_of_range'')
      | Some str \<Rightarrow> rbind (check_keys is str_check cache) (\<lambda>errs.
          Inr (if str \<noteq> str_check then (str, str_check) # errs else errs)))"

definition checkWork :: "cachetype \<Rightarrow> 32 word \<Rightarrow> (string \<times> string) list result" where
  "checkWork cache iter = check_keys [0..<num_calc] (check_string iter) cache"

text \<open>The work without threads: \<open>n\<close> calls of \<open>calc\<close> one after the other.\<close>

fun calc_times :: "nat \<Rightarrow> cachetype \<Rightarrow> cachetype result" where
  "calc_times 0 cache = Inr cache"
| "calc_times (Suc n) cache = rbind (calc cache) (calc_times n)"

subsection \<open>What calc does to the counters\<close>

lemma get_key_inj [simp]: "get_key i = get_key j \<longleftrightarrow> i = j"
  by (simp add: get_key_def to_string_inj)

text \<open>
  The cache with the counters at \<open>n\<close>, and the cache in the middle of a \<open>calc\<close>: the first \<open>i\<close> counters
  are one ahead.
\<close>

definition counter :: "nat \<Rightarrow> string option" where
  "counter n = (if n = 0 then None else Some (to_string (start_val + int n)))"

definition key_index :: "string \<Rightarrow> nat option" where
  "key_index k = find (\<lambda>i. get_key i = k) [0..<num_calc]"

definition cache_at :: "nat \<Rightarrow> nat \<Rightarrow> cachetype" where
  "cache_at n i = (\<lambda>k. case key_index k of None \<Rightarrow> None | Some j \<Rightarrow> counter (if j < i then Suc n else n))"

lemma key_index_Some: "key_index k = Some j \<Longrightarrow> k = get_key j \<and> j < num_calc"
  by (auto simp: key_index_def find_Some_iff)

lemma key_index_get_key [simp]: "key_index (get_key i) = (if i < num_calc then Some i else None)"
proof (cases "key_index (get_key i)")
  case None
  then show ?thesis by (auto simp: key_index_def find_None_iff)
qed (auto dest: key_index_Some)

lemma cache_at_empty [simp]: "cache_at 0 0 = Map.empty"
  by (auto simp: cache_at_def counter_def fun_eq_iff split: option.splits)

lemma cache_at_num_calc: "cache_at n num_calc = cache_at (Suc n) 0"
  by (auto simp: cache_at_def fun_eq_iff split: option.splits dest: key_index_Some)

lemma cache_at_get_key: "i < num_calc \<Longrightarrow> cache_at n j (get_key i) = counter (if i < j then Suc n else n)"
  by (simp add: cache_at_def)

lemma cache_at_Suc: "i < num_calc \<Longrightarrow> (cache_at n i)(get_key i := counter (Suc n)) = cache_at n (Suc i)"
  by (auto simp: cache_at_def fun_eq_iff split: option.splits dest: key_index_Some)

definition count_ok :: "nat \<Rightarrow> bool" where
  "count_ok n \<longleftrightarrow> start_val + int n \<le> INT_MAX"

lemma count_ok_mono: "count_ok n \<Longrightarrow> m \<le> n \<Longrightarrow> count_ok m"
  by (simp add: count_ok_def)

definition counter_string :: "nat \<Rightarrow> string" where
  "counter_string n = (case counter n of None \<Rightarrow> [] | Some s \<Rightarrow> s)"

lemma calc_value_counter: "count_ok (Suc n) \<Longrightarrow> calc_value (counter_string n) = Inr (to_string (start_val + int (Suc n)))"
  by (auto simp: calc_value_def counter_string_def counter_def count_ok_def res_simps int_ok_def start_val_def
      INT_MAX_def add.commute)

lemma cache_index_at:
  "i < num_calc \<Longrightarrow> cache_index (get_key i) (cache_at n i) =
     (counter_string n, (cache_at n i)(get_key i \<mapsto> counter_string n))"
  by (auto simp: cache_index_def cache_at_get_key counter_string_def fun_upd_idem split: option.splits)

lemma calc_body_at:
  assumes "i < num_calc" and "count_ok (Suc n)"
  shows "calc_body i (cache_at n i) = Inr (cache_at n (Suc i))"
  using assms cache_at_Suc [OF assms(1), of n]
  by (simp add: calc_body_def cache_index_at calc_value_counter counter_def Let_def)

lemma calc_from_at:
  assumes "count_ok (Suc n)" and "i \<le> num_calc"
  shows "calc_from i (cache_at n i) = Inr (cache_at (Suc n) 0)"
  using assms(2)
proof (induction "num_calc - i" arbitrary: i)
  case 0
  then show ?case by (simp add: calc_from.simps cache_at_num_calc)
next
  case (Suc d)
  then have "i < num_calc" by simp
  with Suc show ?case using calc_body_at [OF _ assms(1), of i] by (subst calc_from.simps) simp
qed

lemma calc_at: "count_ok (Suc n) \<Longrightarrow> calc (cache_at n 0) = Inr (cache_at (Suc n) 0)"
  using calc_from_at [of n 0] by (simp add: calc_def)

lemma calc_times_at: "count_ok (n + m) \<Longrightarrow> calc_times n (cache_at m 0) = Inr (cache_at (m + n) 0)"
  by (induction n arbitrary: m) (auto simp: calc_at count_ok_mono)

lemma check_keys_at:
  assumes "0 < n" and "set is \<subseteq> {0..<num_calc}"
  shows "check_keys is c (cache_at n 0) =
    Inr (if to_string (start_val + int n) = c then [] else map (\<lambda>_. (to_string (start_val + int n), c)) is)"
  using assms(2) by (induction "is") (auto simp: cache_at_get_key counter_def assms(1))

lemma checkWork_at:
  assumes "0 < n"
  shows "checkWork (cache_at n 0) iter =
    Inr (if start_val + int n = uint (word_of_int start_val + iter * 2 :: 32 word) then []
         else replicate num_calc (to_string (start_val + int n), check_string iter))"
  by (simp add: checkWork_def check_keys_at [OF assms] check_string_def to_string_inj map_replicate_const)

lemma expected_value:
  assumes "start_val + 2 * int iter \<le> INT_MAX"
  shows "uint (word_of_int start_val + of_nat iter * 2 :: 32 word) = start_val + 2 * int iter"
proof -
  have "(word_of_int start_val + of_nat iter * 2 :: 32 word) = word_of_int (start_val + 2 * int iter)"
    by (simp add: mult.commute)
  moreover have "uint (word_of_int (start_val + 2 * int iter) :: 32 word) = start_val + 2 * int iter"
    using assms by (simp add: unsigned_of_int take_bit_int_eq_self start_val_def INT_MAX_def del: of_int_add)
  ultimately show ?thesis by metis
qed

lemma checkWork_exact: "checkWork (cache_at (2 * max_iter) 0) (of_nat max_iter) = Inr []"
  by (simp add: checkWork_at max_iter_def start_val_def)

text \<open>
  The counters of the cache count the calls of \<open>calc\<close>: from an empty cache, \<open>n\<close> calls succeed, give
  each of the ten keys the decimal string of 10000 + \<open>n\<close> and no other key, for every \<open>n\<close> for which the
  counter fits an \<open>int\<close>.
\<close>

theorem calc_counts:
  assumes "start_val + int n \<le> INT_MAX" and "0 < n"
  shows "\<exists>cache. calc_times n Map.empty = Inr cache \<and>
    (\<forall>i < num_calc. cache (get_key i) = Some (to_string (start_val + int n))) \<and>
    dom cache = get_key ` {0..<num_calc}"
proof (intro exI conjI)
  show "calc_times n Map.empty = Inr (cache_at n 0)"
    using calc_times_at [of n 0] assms(1) by (simp add: count_ok_def)
  show "\<forall>i < num_calc. cache_at n 0 (get_key i) = Some (to_string (start_val + int n))"
    using assms(2) by (simp add: cache_at_get_key counter_def)
  show "dom (cache_at n 0) = get_key ` {0..<num_calc}"
    using assms(2) by (auto simp: cache_at_def counter_def split: option.splits dest!: key_index_Some)
qed

theorem calc_counts_witness:
  "\<exists>cache. calc_times 3 Map.empty = Inr cache \<and>
    (\<forall>i < num_calc. cache (get_key i) = Some (to_string (start_val + int 3))) \<and>
    dom cache = get_key ` {0..<num_calc}"
  by (rule calc_counts) (simp_all add: start_val_def INT_MAX_def)

text \<open>
  C29. \<open>checkWork\<close> is a test of the number of \<open>calc\<close> calls: after \<open>n\<close> of them (at least one) it logs
  nothing exactly when \<open>n\<close> is twice the number of iterations it is given, and otherwise logs an error
  for each of the ten keys.
\<close>

theorem checkWork_counts:
  assumes "start_val + int n \<le> INT_MAX" and "0 < n" and "start_val + 2 * int iter \<le> INT_MAX"
    and "calc_times n Map.empty = Inr cache"
  shows "checkWork cache (of_nat iter) =
    Inr (if n = 2 * iter then [] else replicate 10 (to_string (start_val + int n), to_string (start_val + 2 * int iter)))"
proof -
  have c: "cache = cache_at n 0" using calc_times_at [of n 0] assms(1,4) by (simp add: count_ok_def)
  show ?thesis using expected_value [OF assms(3)] by (auto simp: c checkWork_at [OF assms(2)] check_string_def num_calc_def)
qed

theorem checkWork_counts_witness:
  "\<exists>cache. calc_times 3 Map.empty = Inr cache \<and>
    checkWork cache (of_nat 1) = Inr (replicate 10 (to_string (start_val + int 3), to_string (start_val + 2 * int 1)))"
  using checkWork_counts [of 3 1] calc_times_at [of 3 0]
  by (simp add: start_val_def INT_MAX_def count_ok_def)

end
