(* ===== verification/CacheTask.thy ===== *)
theory CacheTask
  imports BenchCommon
begin

section \<open>The task of the thread benchmarks, step by step\<close>

text \<open>
  Every benchmark of mutexbench.cc runs the same body on a shared cache: lock, \<open>calc\<close>, unlock, IO,
  lock, \<open>calc\<close>, unlock. Here one thread's execution of the body is split into the steps that other
  threads can be interleaved with: acquiring the mutex, each read \<open>cache[key]\<close> and each store of
  \<open>calc\<close>, releasing the mutex, and the IO, which has no effect on the cache. An exception in \<open>calc\<close>
  would end the program (\<open>TCrash\<close>).
\<close>

datatype tpc =
    TIdle
  | TLock bool
  | TRead bool nat
  | TWrite bool nat string
  | TUnlock bool
  | TSleep
  | TDone
  | TCrash failure

record shared =
  sh_cache :: cachetype
  sh_owner :: "nat option"

definition shared_zero :: shared where
  "shared_zero = \<lparr>sh_cache = Map.empty, sh_owner = None\<rparr>"

text \<open>
  A step of the body by thread \<open>a\<close>; the boolean tells the second critical section from the first.
  \<open>None\<close>: the thread waits for the mutex, or has nothing to do.
\<close>

fun task_step :: "nat \<Rightarrow> tpc \<Rightarrow> shared \<Rightarrow> (tpc \<times> shared) option" where
  "task_step a (TLock b) sh =
     (if sh_owner sh = None then Some (TRead b 0, sh\<lparr>sh_owner := Some a\<rparr>) else None)"
| "task_step a (TRead b i) sh =
     (if i < num_calc
      then case cache_index (get_key i) (sh_cache sh) of (str, cache) \<Rightarrow>
             Some (TWrite b i str, sh\<lparr>sh_cache := cache\<rparr>)
      else Some (TUnlock b, sh))"
| "task_step a (TWrite b i str) sh =
     (case calc_value str of
        Inl e \<Rightarrow> Some (TCrash e, sh)
      | Inr v \<Rightarrow> Some (TRead b (Suc i), sh\<lparr>sh_cache := (sh_cache sh)(get_key i \<mapsto> v)\<rparr>))"
| "task_step a (TUnlock b) sh = Some (if b then TDone else TSleep, sh\<lparr>sh_owner := None\<rparr>)"
| "task_step a TSleep sh = Some (TLock True, sh)"
| "task_step a TIdle sh = None"
| "task_step a TDone sh = None"
| "task_step a (TCrash e) sh = None"

subsection \<open>The invariant\<close>

text \<open>How many calls of \<open>calc\<close> the task has completed, and how many steps it has left at most.\<close>

fun calcs :: "tpc \<Rightarrow> nat" where
  "calcs (TLock b) = of_bool b"
| "calcs (TRead b i) = of_bool b"
| "calcs (TWrite b i s) = of_bool b"
| "calcs (TUnlock b) = Suc (of_bool b)"
| "calcs TSleep = 1"
| "calcs TDone = 2"
| "calcs _ = 0"

fun task_mes :: "tpc \<Rightarrow> nat" where
  "task_mes (TLock b) = (if b then 24 else 49)"
| "task_mes (TRead b i) = (if b then 2 else 27) + 2 * (num_calc - i)"
| "task_mes (TWrite b i s) = (if b then 1 else 26) + 2 * (num_calc - i)"
| "task_mes (TUnlock b) = (if b then 1 else 26)"
| "task_mes TSleep = 25"
| "task_mes _ = 0"

fun in_crit :: "tpc \<Rightarrow> bool" where
  "in_crit (TRead b i) = True"
| "in_crit (TWrite b i s) = True"
| "in_crit (TUnlock b) = True"
| "in_crit _ = False"

fun crashed :: "tpc \<Rightarrow> bool" where
  "crashed (TCrash e) = True"
| "crashed _ = False"

definition resting :: "tpc \<Rightarrow> bool" where
  "resting pc \<longleftrightarrow> pc = TIdle \<or> pc = TDone"

text \<open>
  The cache as the thread in the critical section sees it, after \<open>n\<close> complete calls of \<open>calc\<close>.
\<close>

fun crit_ok :: "nat \<Rightarrow> tpc \<Rightarrow> cachetype \<Rightarrow> bool" where
  "crit_ok n (TRead b i) c \<longleftrightarrow> i \<le> num_calc \<and> c = cache_at n i"
| "crit_ok n (TWrite b i s) c \<longleftrightarrow>
     i < num_calc \<and> s = counter_string n \<and> c = (cache_at n i)(get_key i \<mapsto> counter_string n)"
| "crit_ok n (TUnlock b) c \<longleftrightarrow> c = cache_at n 0"
| "crit_ok n _ c \<longleftrightarrow> False"

text \<open>
  With \<open>n\<close> complete calls of \<open>calc\<close> so far: at most one thread is in a critical section, the one that
  owns the mutex; the cache holds the counters at \<open>n\<close>, except for what the owner is doing to it.
\<close>

definition task_inv :: "nat \<Rightarrow> tpc list \<Rightarrow> shared \<Rightarrow> bool" where
  "task_inv n pcs sh \<longleftrightarrow>
     (\<forall>a < length pcs. (in_crit (pcs ! a) \<longleftrightarrow> sh_owner sh = Some a) \<and> \<not> crashed (pcs ! a)) \<and>
     (case sh_owner sh of
        None \<Rightarrow> sh_cache sh = cache_at n 0
      | Some a \<Rightarrow> a < length pcs \<and> crit_ok n (pcs ! a) (sh_cache sh))"

lemma task_inv_zero: "task_inv 0 [] shared_zero"
  by (simp add: task_inv_def shared_zero_def)

lemma task_inv_spawn: "task_inv n pcs sh \<Longrightarrow> \<not> in_crit pc \<Longrightarrow> \<not> crashed pc \<Longrightarrow> task_inv n (pcs @ [pc]) sh"
  by (auto simp: task_inv_def nth_append less_Suc_eq split: option.splits)

text \<open>Changes outside the critical sections: a thread takes up, or puts away, a task.\<close>

lemma task_inv_outside:
  assumes "task_inv n pcs sh" and "a < length pcs" and "\<not> in_crit (pcs ! a)" and "\<not> in_crit pc" and "\<not> crashed pc"
  shows "task_inv n (pcs[a := pc]) sh"
  using assms by (auto simp: task_inv_def nth_list_update split: option.splits)

lemma task_inv_step:
  assumes inv: "task_inv n pcs sh" and a: "a < length pcs" and step: "task_step a (pcs ! a) sh = Some (pc, sh')"
    and room: "\<And>b i s. pcs ! a = TWrite b i s \<Longrightarrow> count_ok (Suc n)"
  shows "task_inv (n + (calcs pc - calcs (pcs ! a))) (pcs[a := pc]) sh' \<and> calcs (pcs ! a) \<le> calcs pc"
proof (cases "pcs ! a")
  case (TLock b)
  then show ?thesis using inv a step by (auto simp: task_inv_def nth_list_update split: if_splits option.splits)
next
  case (TRead b i)
  then have own: "sh_owner sh = Some a" "i \<le> num_calc" "sh_cache sh = cache_at n i"
    using inv a by (auto simp: task_inv_def dest!: spec [of _ a])
  then show ?thesis using inv a step TRead
    by (auto simp: task_inv_def nth_list_update cache_index_at cache_at_num_calc split: if_splits)
next
  case (TWrite b i s)
  then have own: "sh_owner sh = Some a" "i < num_calc" "s = counter_string n"
    "sh_cache sh = (cache_at n i)(get_key i \<mapsto> counter_string n)"
    using inv a by (auto simp: task_inv_def dest!: spec [of _ a])
  have "(sh_cache sh)(get_key i \<mapsto> to_string (start_val + int (Suc n))) = cache_at n (Suc i)"
    using own cache_at_Suc [OF own(2), of n] by (simp add: counter_def)
  then show ?thesis using inv a step TWrite own calc_value_counter [OF room [OF TWrite]]
    by (auto simp: task_inv_def nth_list_update)
next
  case (TUnlock b)
  then show ?thesis using inv a step by (auto simp: task_inv_def nth_list_update dest!: spec [of _ a])
next
  case TSleep
  then show ?thesis using inv a step by (auto simp: task_inv_def nth_list_update split: option.splits)
qed (use step in auto)

lemma task_inv_write: "task_inv n pcs sh \<Longrightarrow> a < length pcs \<Longrightarrow> pcs ! a = TWrite b i s \<Longrightarrow> i < num_calc"
  by (auto simp: task_inv_def dest!: spec [of _ a])

lemma task_mes_step:
  assumes "task_step a pc sh = Some (pc', sh')" and "\<And>b i s. pc = TWrite b i s \<Longrightarrow> i < num_calc"
  shows "task_mes pc' < task_mes pc"
  using assms by (cases pc) (auto simp: num_calc_def split: if_splits prod.splits sum.splits)

text \<open>
  The mutex never blocks everybody: when some thread has a task to run, some thread can take a step.
\<close>

lemma task_progress:
  assumes inv: "task_inv n pcs sh" and a: "a < length pcs" "\<not> resting (pcs ! a)"
  shows "\<exists>a' < length pcs. \<exists>r. task_step a' (pcs ! a') sh = Some r"
proof (cases "sh_owner sh")
  case None
  then have "\<not> in_crit (pcs ! a)" "\<not> crashed (pcs ! a)" using inv a(1) by (auto simp: task_inv_def)
  then have "\<exists>r. task_step a (pcs ! a) sh = Some r"
    using a(2) None by (cases "pcs ! a") (auto simp: resting_def)
  with a(1) show ?thesis by blast
next
  case (Some o')
  then have o': "o' < length pcs" "in_crit (pcs ! o')" using inv by (auto simp: task_inv_def)
  then have "\<exists>r. task_step o' (pcs ! o') sh = Some r"
    by (cases "pcs ! o'") (auto split: prod.splits sum.splits)
  with o'(1) show ?thesis by blast
qed

text \<open>Mutual exclusion, as the invariant gives it.\<close>

lemma task_inv_mutex:
  "task_inv n pcs sh \<Longrightarrow> a < length pcs \<Longrightarrow> b < length pcs \<Longrightarrow> in_crit (pcs ! a) \<Longrightarrow> in_crit (pcs ! b) \<Longrightarrow> a = b"
  by (auto simp: task_inv_def)

lemma task_inv_not_crashed: "task_inv n pcs sh \<Longrightarrow> pc \<in> set pcs \<Longrightarrow> \<not> crashed pc"
  by (auto simp: task_inv_def in_set_conv_nth)

lemma task_inv_resting:
  "task_inv n pcs sh \<Longrightarrow> (\<And>a. a < length pcs \<Longrightarrow> \<not> in_crit (pcs ! a)) \<Longrightarrow> sh_cache sh = cache_at n 0"
  by (auto simp: task_inv_def split: option.splits)

end
