(* ===== verification/FakeIo.thy ===== *)
theory FakeIo
  imports Prelude
begin

section \<open>The simulated IO (benchcommon.hpp)\<close>

text \<open>
  \<open>devzero_io::fake_io\<close> reads \<open>/dev/zero\<close> until the time is over. The steady clock is a sequence of readings
  in microseconds, of which \<open>io_now\<close> takes the next one; \<open>io_chunks\<close> counts the reads. A loop whose clock
  does not get to the end has no result.
\<close>

record io_world =
  io_clock :: "nat \<Rightarrow> int"
  io_now :: nat
  io_chunks :: nat

definition steady_now :: "io_world \<Rightarrow> int \<times> io_world" where
  "steady_now w = (io_clock w (io_now w), w\<lparr>io_now := Suc (io_now w)\<rparr>)"

partial_function (option) devzero_loop :: "int \<Rightarrow> io_world \<Rightarrow> io_world option" where
  "devzero_loop end_time w =
     (case steady_now w of (t, w) \<Rightarrow>
        if t < end_time then devzero_loop end_time (w\<lparr>io_chunks := Suc (io_chunks w)\<rparr>) else Some w)"

definition devzero_fake_io :: "int \<Rightarrow> io_world \<Rightarrow> io_world option" where
  "devzero_fake_io sleep_time w =
     (if sleep_time \<le> 0 then Some w
      else case steady_now w of (t, w) \<Rightarrow> devzero_loop (t + sleep_time) w)"

text \<open>The loop ends at the first reading that is not before the end, and does one read for each before it.\<close>

lemma devzero_loop_ends:
  assumes "\<And>j. j < k \<Longrightarrow> io_clock w (io_now w + j) < end_time" and "end_time \<le> io_clock w (io_now w + k)"
  shows "devzero_loop end_time w = Some (w\<lparr>io_now := io_now w + k + 1, io_chunks := io_chunks w + k\<rparr>)"
  using assms
proof (induction k arbitrary: w)
  case 0
  then show ?case by (simp add: devzero_loop.simps [of _ w] steady_now_def)
next
  case (Suc k)
  let ?w = "w\<lparr>io_now := Suc (io_now w), io_chunks := Suc (io_chunks w)\<rparr>"
  have "io_clock ?w (io_now ?w + j) < end_time" if "j < k" for j using Suc.prems(1) [of "Suc j"] that by simp
  moreover have "end_time \<le> io_clock ?w (io_now ?w + k)" using Suc.prems(2) by simp
  ultimately have "devzero_loop end_time ?w = Some (?w\<lparr>io_now := io_now ?w + k + 1, io_chunks := io_chunks ?w + k\<rparr>)"
    by (rule Suc.IH)
  moreover have "devzero_loop end_time w = devzero_loop end_time ?w"
    using Suc.prems(1) [of 0] by (simp add: devzero_loop.simps [of _ w] steady_now_def)
  ultimately show ?case by simp
qed

text \<open>
  The simulated IO returns when the clock gets to the end at all, and it does not return before that.
\<close>

lemma devzero_ends:
  assumes "\<exists>k. io_clock w (io_now w) + sleep_time \<le> io_clock w (Suc (io_now w + k))" and "0 < sleep_time"
  shows "\<exists>w'. devzero_fake_io sleep_time w = Some w' \<and> io_clock w' = io_clock w \<and> io_now w < io_now w' \<and>
    io_clock w (io_now w) + sleep_time \<le> io_clock w (io_now w' - 1)"
proof -
  let ?until = "io_clock w (io_now w) + sleep_time" and ?w = "snd (steady_now w)"
  let ?k = "LEAST k. ?until \<le> io_clock w (Suc (io_now w + k))"
  have "?until \<le> io_clock ?w (io_now ?w + ?k)" using LeastI_ex [OF assms(1)] by (simp add: steady_now_def)
  moreover have "io_clock ?w (io_now ?w + j) < ?until" if "j < ?k" for j
    using not_less_Least [OF that] by (simp add: steady_now_def)
  ultimately have "devzero_loop ?until ?w = Some (?w\<lparr>io_now := io_now ?w + ?k + 1, io_chunks := io_chunks ?w + ?k\<rparr>)"
    by (intro devzero_loop_ends)
  then show ?thesis using assms(2) LeastI_ex [OF assms(1)] by (simp add: devzero_fake_io_def steady_now_def)
qed

end
