(* ===== verification/MutexBench.thy ===== *)
theory MutexBench
  imports CacheTask FakeIo
begin

section \<open>Threads with a mutex (mutexbench.cc)\<close>

text \<open>
  The benchmarks without a pool: the sequential ones, \<open>cache_calc_mutex\<close> with its fixed number of
  threads, and \<open>cache_calc_async\<close> with its window of futures. The threaded ones are step relations
  over all interleavings.
\<close>

subsection \<open>The sequential benchmarks\<close>







subsection \<open>A fixed number of threads\<close>

text \<open>
  \<open>cache_calc_mutex\<close>: the main thread creates the threads one after the other and then joins them;
  a thread runs the loop over its share of the iterations. A thread is the number of iterations it
  has left and where it is in the body (\<open>TIdle\<close> at the head of its loop); with none left it has
  returned.
\<close>

datatype main_pc = Spawn nat | Join nat | Returned

record mutex_state =
  mx_main :: main_pc
  mx_threads :: "(nat \<times> tpc) list"
  mx_shared :: shared

definition mutex_init :: mutex_state where
  "mutex_init = \<lparr>mx_main = Spawn 0, mx_threads = [], mx_shared = shared_zero\<rparr>"

inductive mutex_step :: "nat \<Rightarrow> nat \<Rightarrow> mutex_state \<Rightarrow> mutex_state \<Rightarrow> bool" for nt iters where
  spawn: "mx_main s = Spawn k \<Longrightarrow> k < nt \<Longrightarrow>
    mutex_step nt iters s (s\<lparr>mx_main := Spawn (Suc k), mx_threads := mx_threads s @ [(iters, TIdle)]\<rparr>)"
| spawned: "mx_main s = Spawn k \<Longrightarrow> \<not> k < nt \<Longrightarrow> mutex_step nt iters s (s\<lparr>mx_main := Join 0\<rparr>)"
| iteration: "a < length (mx_threads s) \<Longrightarrow> mx_threads s ! a = (n, TIdle) \<Longrightarrow> 0 < n \<Longrightarrow>
    mutex_step nt iters s (s\<lparr>mx_threads := (mx_threads s)[a := (n, TLock False)]\<rparr>)"
| body: "a < length (mx_threads s) \<Longrightarrow> mx_threads s ! a = (n, pc) \<Longrightarrow>
    task_step a pc (mx_shared s) = Some (pc', sh') \<Longrightarrow>
    mutex_step nt iters s (s\<lparr>mx_threads := (mx_threads s)[a := (n, pc')], mx_shared := sh'\<rparr>)"
| next_iteration: "a < length (mx_threads s) \<Longrightarrow> mx_threads s ! a = (n, TDone) \<Longrightarrow>
    mutex_step nt iters s (s\<lparr>mx_threads := (mx_threads s)[a := (n - 1, TIdle)]\<rparr>)"
| join: "mx_main s = Join k \<Longrightarrow> k < length (mx_threads s) \<Longrightarrow> mx_threads s ! k = (0, TIdle) \<Longrightarrow>
    mutex_step nt iters s (s\<lparr>mx_main := Join (Suc k)\<rparr>)"
| joined: "mx_main s = Join k \<Longrightarrow> \<not> k < length (mx_threads s) \<Longrightarrow>
    mutex_step nt iters s (s\<lparr>mx_main := Returned\<rparr>)"

text \<open>
  The count of \<open>calc\<close> calls, thread by thread; the measure of what is left to do.
\<close>

definition thread_calcs :: "nat \<Rightarrow> nat \<times> tpc \<Rightarrow> nat" where
  "thread_calcs iters t = 2 * (iters - fst t) + calcs (snd t)"

definition total_calcs :: "nat \<Rightarrow> (nat \<times> tpc) list \<Rightarrow> nat" where
  "total_calcs iters ts = sum_list (map (thread_calcs iters) ts)"

definition thread_ok :: "nat \<Rightarrow> nat \<times> tpc \<Rightarrow> bool" where
  "thread_ok iters t \<longleftrightarrow> fst t \<le> iters \<and> (fst t = 0 \<longrightarrow> snd t = TIdle)"

definition main_ok :: "nat \<Rightarrow> main_pc \<Rightarrow> (nat \<times> tpc) list \<Rightarrow> bool" where
  "main_ok nt m ts = (case m of
     Spawn k \<Rightarrow> length ts = k \<and> k \<le> nt
   | Join k \<Rightarrow> length ts = nt \<and> k \<le> nt \<and> (\<forall>j < k. ts ! j = (0, TIdle))
   | Returned \<Rightarrow> length ts = nt \<and> (\<forall>j < nt. ts ! j = (0, TIdle)))"

definition mutex_inv :: "nat \<Rightarrow> nat \<Rightarrow> mutex_state \<Rightarrow> bool" where
  "mutex_inv nt iters s \<longleftrightarrow> count_ok (2 * (nt * iters)) \<and>
     task_inv (total_calcs iters (mx_threads s)) (map snd (mx_threads s)) (mx_shared s) \<and>
     (\<forall>t \<in> set (mx_threads s). thread_ok iters t) \<and> main_ok nt (mx_main s) (mx_threads s)"

lemma total_calcs_update:
  "a < length ts \<Longrightarrow>
   total_calcs iters (ts[a := t]) + thread_calcs iters (ts ! a) = total_calcs iters ts + thread_calcs iters t"
  unfolding total_calcs_def by (rule sum_list_update_map)

lemma total_calcs_bound: "\<forall>t \<in> set ts. thread_calcs iters t \<le> c \<Longrightarrow> total_calcs iters ts \<le> c * length ts"
  by (induction ts) (auto simp: total_calcs_def)

lemma thread_calcs_le: "thread_ok iters t \<Longrightarrow> thread_calcs iters t \<le> 2 * iters"
proof -
  assume "thread_ok iters t"
  moreover have "calcs (snd t) \<le> 2" by (cases "snd t") auto
  ultimately show ?thesis by (cases t) (auto simp: thread_ok_def thread_calcs_def)
qed

text \<open>A thread that is inside \<open>calc\<close> has at least one call left, so the counters have room for it.\<close>

lemma total_calcs_room:
  assumes "\<forall>t \<in> set ts. thread_ok iters t" and "a < length ts" and "ts ! a = (n, TWrite b i s)" and "length ts \<le> nt"
  shows "Suc (total_calcs iters ts) \<le> 2 * (nt * iters)"
proof -
  have n: "0 < n" "n \<le> iters" using assms(1,2,3) nth_mem [OF assms(2)] by (auto simp: thread_ok_def)
  have "\<forall>t \<in> set (ts[a := (0, TIdle)]). thread_calcs iters t \<le> 2 * iters"
    using assms(1) thread_calcs_le by (auto dest!: set_update_subset_insert [THEN subsetD] simp: thread_calcs_def)
  from total_calcs_bound [OF this] have "total_calcs iters (ts[a := (0, TIdle)]) \<le> 2 * iters * length ts" by simp
  moreover have "2 * iters * length ts \<le> 2 * (nt * iters)" using assms(4) by simp
  moreover have "thread_calcs iters (ts ! a) < 2 * iters" using n assms(3) by (auto simp: thread_calcs_def)
  moreover have "total_calcs iters (ts[a := (0, TIdle)]) + thread_calcs iters (ts ! a) = total_calcs iters ts + 2 * iters"
    using total_calcs_update [OF assms(2), of iters "(0, TIdle)"] by (simp add: thread_calcs_def)
  ultimately show ?thesis by linarith
qed

lemma main_ok_update:
  "main_ok nt m ts \<Longrightarrow> ts ! a \<noteq> (0, TIdle) \<Longrightarrow> main_ok nt m (ts[a := t])"
  by (auto simp: main_ok_def split: main_pc.splits) (metis nth_list_update_neq)+

lemma main_ok_length: "main_ok nt m ts \<Longrightarrow> length ts \<le> nt"
  by (auto simp: main_ok_def split: main_pc.splits)

text \<open>A step of one thread keeps the invariant when it keeps the account of that thread.\<close>

lemma mutex_inv_thread:
  assumes inv: "mutex_inv nt iters s" and a: "a < length (mx_threads s)" "mx_threads s ! a \<noteq> (0, TIdle)"
    and t: "thread_ok iters t"
    and task: "task_inv (total_calcs iters ((mx_threads s)[a := t])) ((map snd (mx_threads s))[a := snd t]) sh"
  shows "mutex_inv nt iters (s\<lparr>mx_threads := (mx_threads s)[a := t], mx_shared := sh\<rparr>)"
  using assms main_ok_update [of nt "mx_main s" "mx_threads s" a t] set_update_subset_insert [of "mx_threads s" a t]
  by (auto simp: mutex_inv_def map_update)

lemma mutex_inv_body:
  assumes inv: "mutex_inv nt iters s" and a: "a < length (mx_threads s)" "mx_threads s ! a = (n, pc)"
    and step: "task_step a pc (mx_shared s) = Some (pc', sh')"
  shows "mutex_inv nt iters (s\<lparr>mx_threads := (mx_threads s)[a := (n, pc')], mx_shared := sh'\<rparr>)"
proof -
  let ?n = "total_calcs iters (mx_threads s)"
  have task: "task_inv ?n (map snd (mx_threads s)) (mx_shared s)" using inv by (simp add: mutex_inv_def)
  have pc: "map snd (mx_threads s) ! a = pc" using a by simp
  have room: "count_ok (Suc ?n)" if "pc = TWrite b i str" for b i str
    using inv a that total_calcs_room [of "mx_threads s" iters a n b i str nt]
    by (auto simp: mutex_inv_def dest: main_ok_length count_ok_mono)
  have new: "task_inv (?n + (calcs pc' - calcs pc)) ((map snd (mx_threads s))[a := pc']) sh'" "calcs pc \<le> calcs pc'"
    using task_inv_step [OF task, of a pc' sh'] room a step pc by auto
  have "total_calcs iters ((mx_threads s)[a := (n, pc')]) = ?n + (calcs pc' - calcs pc)"
    using total_calcs_update [OF a(1), of iters "(n, pc')"] a(2) new(2) by (simp add: thread_calcs_def)
  moreover have "thread_ok iters (n, pc)" using inv a nth_mem [OF a(1)] by (auto simp: mutex_inv_def)
  moreover have "pc \<noteq> TIdle" using step by auto
  ultimately show ?thesis
    using mutex_inv_thread [OF inv a(1), of "(n, pc')" sh'] a new(1) by (auto simp: thread_ok_def)
qed

lemma mutex_inv_step:
  assumes inv: "mutex_inv nt iters s" and step: "mutex_step nt iters s t"
  shows "mutex_inv nt iters t"
  using step
proof cases
  case (spawn k)
  then show ?thesis using inv task_inv_spawn [of _ "map snd (mx_threads s)" "mx_shared s" TIdle]
    by (auto simp: mutex_inv_def main_ok_def total_calcs_def thread_calcs_def thread_ok_def)
next
  case (spawned k)
  then show ?thesis using inv by (auto simp: mutex_inv_def main_ok_def)
next
  case (iteration a n)
  have "total_calcs iters ((mx_threads s)[a := (n, TLock False)]) = total_calcs iters (mx_threads s)"
    using total_calcs_update [OF iteration(2), of iters "(n, TLock False)"] iteration(3) by (simp add: thread_calcs_def)
  moreover have "thread_ok iters (n, TLock False)"
    using inv iteration nth_mem [OF iteration(2)] by (auto simp: mutex_inv_def thread_ok_def)
  ultimately show ?thesis
    using mutex_inv_thread [OF inv iteration(2), of "(n, TLock False)" "mx_shared s"] inv iteration
      task_inv_outside [of _ "map snd (mx_threads s)" "mx_shared s" a "TLock False"]
    by (auto simp: mutex_inv_def)
next
  case (body a n pc pc' sh')
  then show ?thesis using mutex_inv_body [OF inv] by blast
next
  case (next_iteration a n)
  have ok: "thread_ok iters (n, TDone)" using inv next_iteration nth_mem [OF next_iteration(2)] by (auto simp: mutex_inv_def)
  then have n: "0 < n" "n \<le> iters" by (auto simp: thread_ok_def)
  have "total_calcs iters ((mx_threads s)[a := (n - 1, TIdle)]) = total_calcs iters (mx_threads s)"
    using total_calcs_update [OF next_iteration(2), of iters "(n - 1, TIdle)"] next_iteration(3) n
    by (simp add: thread_calcs_def)
  then show ?thesis
    using mutex_inv_thread [OF inv next_iteration(2), of "(n - 1, TIdle)" "mx_shared s"] inv next_iteration n
      task_inv_outside [of _ "map snd (mx_threads s)" "mx_shared s" a TIdle]
    by (auto simp: mutex_inv_def thread_ok_def)
next
  case (join k)
  then show ?thesis using inv by (auto simp: mutex_inv_def main_ok_def less_Suc_eq)
next
  case (joined k)
  then show ?thesis using inv by (auto simp: mutex_inv_def main_ok_def)
qed

subsubsection \<open>Every schedule ends\<close>

definition thread_mes :: "nat \<times> tpc \<Rightarrow> nat" where
  "thread_mes t = (if snd t = TIdle then 52 * fst t else 52 * (fst t - 1) + 1 + task_mes (snd t))"

definition main_mes :: "nat \<Rightarrow> nat \<Rightarrow> main_pc \<Rightarrow> nat" where
  "main_mes nt iters m = (case m of
     Spawn k \<Rightarrow> (nt - k) * (52 * iters + 1) + nt + 2 | Join k \<Rightarrow> nt - k + 1 | Returned \<Rightarrow> 0)"

definition mutex_mes :: "nat \<Rightarrow> nat \<Rightarrow> mutex_state \<Rightarrow> nat" where
  "mutex_mes nt iters s = main_mes nt iters (mx_main s) + sum_list (map thread_mes (mx_threads s))"

definition mutex_final :: "mutex_state \<Rightarrow> bool" where
  "mutex_final s \<longleftrightarrow> mx_main s = Returned"

lemma mutex_mes_thread:
  assumes "a < length (mx_threads s)" and "thread_mes t < thread_mes (mx_threads s ! a)"
  shows "mutex_mes nt iters (s\<lparr>mx_threads := (mx_threads s)[a := t], mx_shared := sh\<rparr>) < mutex_mes nt iters s"
  using sum_list_update_map [OF assms(1), of thread_mes t] assms(2) by (simp add: mutex_mes_def)

lemma mutex_mes_step:
  assumes inv: "mutex_inv nt iters s" and step: "mutex_step nt iters s t"
  shows "mutex_mes nt iters t < mutex_mes nt iters s"
  using step
proof cases
  case (spawn k)
  then have "nt - k = Suc (nt - Suc k)" by simp
  then show ?thesis using spawn by (simp add: mutex_mes_def main_mes_def thread_mes_def)
next
  case (iteration a n)
  then show ?thesis using mutex_mes_thread [of a s "(n, TLock False)" nt iters "mx_shared s"]
    by (cases n) (simp_all add: thread_mes_def)
next
  case (body a n pc pc' sh')
  have "i < num_calc" if "pc = TWrite b i str" for b i str
    using inv body that task_inv_write [of _ "map snd (mx_threads s)" "mx_shared s" a b i str]
    by (auto simp: mutex_inv_def)
  then have "task_mes pc' < task_mes pc" using task_mes_step [OF body(4)] by blast
  moreover have "pc \<noteq> TIdle" "pc' \<noteq> TIdle"
    using body(4) by (cases pc; auto split: if_splits prod.splits sum.splits)+
  ultimately show ?thesis using mutex_mes_thread [of a s "(n, pc')" nt iters sh'] body by (simp add: thread_mes_def)
next
  case (next_iteration a n)
  then show ?thesis using mutex_mes_thread [of a s "(n - 1, TIdle)" nt iters "mx_shared s"]
    by (simp add: thread_mes_def)
next
  case (join k)
  then show ?thesis using inv by (auto simp: mutex_mes_def main_mes_def mutex_inv_def main_ok_def)
qed (auto simp: mutex_mes_def main_mes_def)

lemma mutex_progress:
  assumes inv: "mutex_inv nt iters s" and "\<not> mutex_final s"
  shows "\<exists>t. mutex_step nt iters s t"
proof (cases "mx_main s")
  case (Join k)
  show ?thesis
  proof (cases "k < length (mx_threads s)")
    case True
    obtain n pc where t: "mx_threads s ! k = (n, pc)" by fastforce
    show ?thesis
    proof (cases "resting pc")
      case True
      with t Join \<open>k < length (mx_threads s)\<close> show ?thesis
        by (cases n) (auto simp: resting_def intro: mutex_step.join mutex_step.iteration mutex_step.next_iteration)
    next
      case False
      have task: "task_inv (total_calcs iters (mx_threads s)) (map snd (mx_threads s)) (mx_shared s)"
        using inv by (simp add: mutex_inv_def)
      from task_progress [OF task, of k] True t False obtain a r where
        "a < length (mx_threads s)" "task_step a (snd (mx_threads s ! a)) (mx_shared s) = Some r" by auto
      then show ?thesis
        using mutex_step.body [of a s "fst (mx_threads s ! a)" "snd (mx_threads s ! a)" "fst r" "snd r" nt iters] by auto
    qed
  qed (use Join mutex_step.joined in blast)
next
  case (Spawn k)
  then show ?thesis using mutex_step.spawn mutex_step.spawned by (cases "k < nt") blast+
qed (use assms in \<open>simp add: mutex_final_def\<close>)

definition mutex_start :: "nat \<Rightarrow> nat \<Rightarrow> mutex_state \<Rightarrow> bool" where
  "mutex_start nt iters s \<longleftrightarrow> s = mutex_init \<and> count_ok (2 * (nt * iters))"

interpretation mutex: terminating_system "mutex_start nt iters" "mutex_step nt iters" "mutex_inv nt iters"
  mutex_final "mutex_mes nt iters" for nt iters
proof (unfold_locales, goal_cases)
  case (1 s)
  then show ?case
    using task_inv_zero by (simp add: mutex_start_def mutex_init_def mutex_inv_def main_ok_def total_calcs_def)
next
  case (2 s t)
  then show ?case by (rule mutex_inv_step)
next
  case (3 s)
  then show ?case by (rule mutex_progress)
next
  case (4 s t)
  then show ?case by (rule mutex_mes_step)
qed

lemma mutex_final_cache:
  assumes "mutex_inv nt iters s" and "mutex_final s"
  shows "sh_cache (mx_shared s) = cache_at (2 * (nt * iters)) 0"
proof -
  have all: "mx_threads s = replicate nt (0, TIdle)"
    using assms by (auto simp: mutex_inv_def mutex_final_def main_ok_def intro: nth_equalityI)
  have "task_inv (total_calcs iters (mx_threads s)) (map snd (mx_threads s)) (mx_shared s)"
    using assms(1) by (simp add: mutex_inv_def)
  from task_inv_resting [OF this] show ?thesis
    by (simp add: all total_calcs_def thread_calcs_def sum_list_replicate mult.left_commute)
qed

subsection \<open>Correctness\<close>


lemma count_ok_max: "count_ok (2 * max_iter)"
  by (simp add: count_ok_def start_val_def max_iter_def INT_MAX_def)

text \<open>
  C2. Every schedule of \<open>cache_calc_mutex\<close> with its 8 threads of 125 iterations is correct: in every
  reachable state at most one thread is in a critical section and none has crashed; the schedule so
  far has at most 52018 steps; unless the function has returned some thread can go on, so no schedule
  deadlocks; and when it has returned, \<open>checkWork\<close> finds all counters exact.
\<close>

theorem mutex_correct:
  assumes "(mutex_step num_tasks (max_iter div num_tasks) ^^ n) mutex_init s"
  shows "(\<forall>a < length (mx_threads s). \<forall>b < length (mx_threads s).
      in_crit (snd (mx_threads s ! a)) \<and> in_crit (snd (mx_threads s ! b)) \<longrightarrow> a = b) \<and>
    (\<forall>t \<in> set (mx_threads s). \<not> crashed (snd t)) \<and> n \<le> 52018 \<and>
    (mx_main s \<noteq> Returned \<longrightarrow> (\<exists>t. mutex_step num_tasks (max_iter div num_tasks) s t)) \<and>
    (mx_main s = Returned \<longrightarrow> checkWork (sh_cache (mx_shared s)) (of_nat max_iter) = Inr [])"
proof -
  let ?k = "max_iter div num_tasks"
  have dims: "num_tasks * ?k = max_iter" by (simp add: num_tasks_def max_iter_def)
  then have start: "mutex_start num_tasks ?k mutex_init" using count_ok_max by (simp add: mutex_start_def)
  have inv: "mutex_inv num_tasks ?k s"
    using mutex.inv_reachable [OF start relpowp_imp_rtranclp [OF assms]] .
  have task: "task_inv (total_calcs ?k (mx_threads s)) (map snd (mx_threads s)) (mx_shared s)"
    using inv by (simp add: mutex_inv_def)
  have "\<forall>a < length (mx_threads s). \<forall>b < length (mx_threads s).
      in_crit (snd (mx_threads s ! a)) \<and> in_crit (snd (mx_threads s ! b)) \<longrightarrow> a = b"
    using task_inv_mutex [OF task] by simp
  moreover have "\<forall>t \<in> set (mx_threads s). \<not> crashed (snd t)"
    using task_inv_not_crashed [OF task] by simp
  moreover have "n \<le> 52018"
    using mutex.schedule_bounded [OF assms mutex.inv_init [OF start]]
    by (simp add: mutex_mes_def main_mes_def mutex_init_def num_tasks_def max_iter_def)
  moreover have "mx_main s \<noteq> Returned \<longrightarrow> (\<exists>t. mutex_step num_tasks ?k s t)"
    using mutex.progress [OF inv] by (simp add: mutex_final_def)
  moreover have "mx_main s = Returned \<longrightarrow> checkWork (sh_cache (mx_shared s)) (of_nat max_iter) = Inr []"
    using mutex_final_cache [OF inv] checkWork_exact by (simp add: mutex_final_def dims)
  ultimately show ?thesis by blast
qed

lemma mutex_returns:
  "\<exists>n s. (mutex_step num_tasks (max_iter div num_tasks) ^^ n) mutex_init s \<and> mx_main s = Returned"
proof -
  have "mutex_start num_tasks (max_iter div num_tasks) mutex_init"
    using count_ok_max by (simp add: mutex_start_def num_tasks_def max_iter_def)
  from mutex.finishes [OF mutex.inv_init [OF this]] show ?thesis by (auto simp: mutex_final_def)
qed

theorem mutex_correct_witness:
  "\<exists>n s. (mutex_step num_tasks (max_iter div num_tasks) ^^ n) mutex_init s \<and> mx_main s = Returned \<and>
    n \<le> 52018 \<and> checkWork (sh_cache (mx_shared s)) (of_nat max_iter) = Inr []"
  using mutex_returns mutex_correct by blast

subsection \<open>The sequential benchmark with its IO\<close>










end
