(* ===== verification/AsyncBench.thy ===== *)
theory AsyncBench
  imports CacheTask
begin

section \<open>A window of futures (cache_calc_async of mutexbench.cc)\<close>

text \<open>
  The main thread pushes one \<open>std::async\<close> task after the other onto a queue of futures and waits for
  the front future while the queue has \<open>num_tasks\<close> of them. With the default launch policy the
  library may run the task in a new thread at once or defer it to the \<open>wait\<close> of its future: both
  choices are steps. Task \<open>j\<close> is the \<open>j\<close>-th one pushed; \<open>TIdle\<close> is a deferred task.
\<close>

datatype async_pc = Push nat | Window nat | Drain | AReturned

record async_state =
  as_main :: async_pc
  as_futures :: "nat list"
  as_tasks :: "tpc list"
  as_shared :: shared

definition async_init :: async_state where
  "async_init = \<lparr>as_main = Push 0, as_futures = [], as_tasks = [], as_shared = shared_zero\<rparr>"

text \<open>The main thread is inside one of the two loops that wait for the front future and pop it.\<close>

definition waits :: "nat \<Rightarrow> async_state \<Rightarrow> bool" where
  "waits nt s = (case as_main s of
     Window i \<Rightarrow> nt \<le> length (as_futures s) \<and> as_futures s \<noteq> []
   | Drain \<Rightarrow> as_futures s \<noteq> []
   | _ \<Rightarrow> False)"

inductive async_step :: "nat \<Rightarrow> nat \<Rightarrow> async_state \<Rightarrow> async_state \<Rightarrow> bool" for nt njobs where
  push: "as_main s = Push i \<Longrightarrow> i < njobs \<Longrightarrow> pc \<in> {TLock False, TIdle} \<Longrightarrow>
    async_step nt njobs s (s\<lparr>as_main := Window i, as_futures := as_futures s @ [length (as_tasks s)],
      as_tasks := as_tasks s @ [pc]\<rparr>)"
| pushed: "as_main s = Push i \<Longrightarrow> \<not> i < njobs \<Longrightarrow> async_step nt njobs s (s\<lparr>as_main := Drain\<rparr>)"
| run_deferred: "waits nt s \<Longrightarrow> as_tasks s ! hd (as_futures s) = TIdle \<Longrightarrow>
    async_step nt njobs s (s\<lparr>as_tasks := (as_tasks s)[hd (as_futures s) := TLock False]\<rparr>)"
| pop: "waits nt s \<Longrightarrow> as_tasks s ! hd (as_futures s) = TDone \<Longrightarrow>
    async_step nt njobs s (s\<lparr>as_futures := tl (as_futures s)\<rparr>)"
| room: "as_main s = Window i \<Longrightarrow> \<not> waits nt s \<Longrightarrow> async_step nt njobs s (s\<lparr>as_main := Push (Suc i)\<rparr>)"
| drained: "as_main s = Drain \<Longrightarrow> \<not> waits nt s \<Longrightarrow> async_step nt njobs s (s\<lparr>as_main := AReturned\<rparr>)"
| body: "a < length (as_tasks s) \<Longrightarrow> task_step a (as_tasks s ! a) (as_shared s) = Some (pc, sh) \<Longrightarrow>
    async_step nt njobs s (s\<lparr>as_tasks := (as_tasks s)[a := pc], as_shared := sh\<rparr>)"

subsection \<open>The invariant\<close>

definition pushes :: "nat \<Rightarrow> async_pc \<Rightarrow> nat" where
  "pushes njobs m = (case m of Push i \<Rightarrow> i | Window i \<Rightarrow> Suc i | _ \<Rightarrow> njobs)"

definition task_total :: "tpc list \<Rightarrow> nat" where
  "task_total pcs = sum_list (map calcs pcs)"

definition async_window :: "nat \<Rightarrow> async_pc \<Rightarrow> nat \<Rightarrow> bool" where
  "async_window nt m n = (case m of
     Push i \<Rightarrow> n < nt | Window i \<Rightarrow> n \<le> nt | Drain \<Rightarrow> n < nt | AReturned \<Rightarrow> n = 0)"

definition async_inv :: "nat \<Rightarrow> nat \<Rightarrow> async_state \<Rightarrow> bool" where
  "async_inv nt njobs s \<longleftrightarrow> 0 < nt \<and> count_ok (2 * njobs) \<and>
     task_inv (task_total (as_tasks s)) (as_tasks s) (as_shared s) \<and>
     length (as_tasks s) = pushes njobs (as_main s) \<and> pushes njobs (as_main s) \<le> njobs \<and>
     async_window nt (as_main s) (length (as_futures s)) \<and> (\<forall>j \<in> set (as_futures s). j < length (as_tasks s)) \<and>
     (\<forall>j < length (as_tasks s). j \<notin> set (as_futures s) \<longrightarrow> as_tasks s ! j = TDone)"

definition async_start :: "nat \<Rightarrow> nat \<Rightarrow> async_state \<Rightarrow> bool" where
  "async_start nt njobs s \<longleftrightarrow> s = async_init \<and> 0 < nt \<and> count_ok (2 * njobs)"

definition async_final :: "async_state \<Rightarrow> bool" where
  "async_final s \<longleftrightarrow> as_main s = AReturned"

lemma task_total_update:
  "a < length pcs \<Longrightarrow> task_total (pcs[a := pc]) + calcs (pcs ! a) = task_total pcs + calcs pc"
  unfolding task_total_def by (rule sum_list_update_map)

lemma calcs_le: "calcs pc \<le> 2"
  by (cases pc) auto

lemma task_total_le: "task_total pcs \<le> 2 * length pcs"
proof (induction pcs)
  case (Cons pc pcs)
  then show ?case using calcs_le [of pc] by (simp add: task_total_def)
qed (simp add: task_total_def)

lemma task_total_room:
  assumes "a < length pcs" and "pcs ! a = TWrite b i s"
  shows "Suc (task_total pcs) \<le> 2 * length pcs"
  using task_total_update [OF assms(1), of TDone] task_total_le [of "pcs[a := TDone]"] assms(2)
  by (cases b) auto

lemma async_inv_body:
  assumes inv: "async_inv nt njobs s" and a: "a < length (as_tasks s)"
    and step: "task_step a (as_tasks s ! a) (as_shared s) = Some (pc, sh)"
  shows "async_inv nt njobs (s\<lparr>as_tasks := (as_tasks s)[a := pc], as_shared := sh\<rparr>)"
proof -
  let ?n = "task_total (as_tasks s)"
  have room: "count_ok (Suc ?n)" if "as_tasks s ! a = TWrite b i str" for b i str
    using inv task_total_room [OF a that] by (auto simp: async_inv_def intro: count_ok_mono)
  have new: "task_inv (?n + (calcs pc - calcs (as_tasks s ! a))) ((as_tasks s)[a := pc]) sh"
    "calcs (as_tasks s ! a) \<le> calcs pc"
    using task_inv_step [OF _ a step] inv room by (auto simp: async_inv_def)
  have "task_total ((as_tasks s)[a := pc]) = ?n + (calcs pc - calcs (as_tasks s ! a))"
    using task_total_update [OF a, of pc] new(2) by simp
  moreover have "as_tasks s ! a \<noteq> TDone" using step by auto
  ultimately show ?thesis
    using inv a new(1) by (auto simp: async_inv_def nth_list_update)
qed

lemma waits_hd: "async_inv nt njobs s \<Longrightarrow> waits nt s \<Longrightarrow> hd (as_futures s) < length (as_tasks s) \<and> as_futures s \<noteq> []"
  by (auto simp: async_inv_def waits_def split: async_pc.splits)

lemma async_inv_step:
  assumes inv: "async_inv nt njobs s" and step: "async_step nt njobs s t"
  shows "async_inv nt njobs t"
  using step
proof cases
  case (push i pc)
  then show ?thesis
    using inv task_inv_spawn [of _ "as_tasks s" "as_shared s" pc]
    by (auto simp: async_inv_def pushes_def async_window_def task_total_def nth_append less_Suc_eq)
next
  case run_deferred
  let ?a = "hd (as_futures s)"
  have a: "?a < length (as_tasks s)" "?a \<in> set (as_futures s)" using waits_hd [OF inv run_deferred(2)] by auto
  have "task_total ((as_tasks s)[?a := TLock False]) = task_total (as_tasks s)"
    using task_total_update [OF a(1), of "TLock False"] run_deferred(3) by simp
  then show ?thesis
    using inv run_deferred a task_inv_outside [of _ "as_tasks s" "as_shared s" ?a "TLock False"]
    by (auto simp: async_inv_def nth_list_update)
next
  case pop
  then obtain j js where j: "as_futures s = j # js" using waits_hd [OF inv] by (cases "as_futures s") auto
  then show ?thesis
    using inv pop by (auto simp: async_inv_def async_window_def waits_def split: async_pc.splits)
next
  case (body a pc sh)
  then show ?thesis using async_inv_body [OF inv] by blast
qed (use inv in \<open>auto simp: async_inv_def pushes_def async_window_def waits_def\<close>)

subsection \<open>Every schedule ends\<close>

definition async_task_mes :: "tpc \<Rightarrow> nat" where
  "async_task_mes pc = (if pc = TIdle then 50 else task_mes pc)"

definition async_main_mes :: "nat \<Rightarrow> async_pc \<Rightarrow> nat" where
  "async_main_mes njobs m = (case m of
     Push i \<Rightarrow> 54 * (njobs - i) + 3 | Window i \<Rightarrow> 54 * (njobs - Suc i) + 4 | Drain \<Rightarrow> 2 | AReturned \<Rightarrow> 0)"

definition async_mes :: "nat \<Rightarrow> async_state \<Rightarrow> nat" where
  "async_mes njobs s = async_main_mes njobs (as_main s) + length (as_futures s) +
     sum_list (map async_task_mes (as_tasks s))"

lemma async_mes_task:
  assumes "a < length (as_tasks s)" and "async_task_mes pc < async_task_mes (as_tasks s ! a)"
  shows "async_mes njobs (s\<lparr>as_tasks := (as_tasks s)[a := pc], as_shared := sh\<rparr>) < async_mes njobs s"
  using sum_list_update_map [OF assms(1), of async_task_mes pc] assms(2) by (simp add: async_mes_def)

lemma async_mes_step:
  assumes inv: "async_inv nt njobs s" and step: "async_step nt njobs s t"
  shows "async_mes njobs t < async_mes njobs s"
  using step
proof cases
  case (push i pc)
  then have "njobs - i = Suc (njobs - Suc i)" by simp
  then show ?thesis using push by (auto simp: async_mes_def async_main_mes_def async_task_mes_def)
next
  case run_deferred
  then show ?thesis
    using async_mes_task [of "hd (as_futures s)" s "TLock False" njobs "as_shared s"] waits_hd [OF inv]
    by (simp add: async_task_mes_def)
next
  case pop
  then show ?thesis using waits_hd [OF inv] by (simp add: async_mes_def)
next
  case (body a pc sh)
  have "i < num_calc" if "as_tasks s ! a = TWrite b i str" for b i str
    using inv body that task_inv_write by (auto simp: async_inv_def)
  then have "task_mes pc < task_mes (as_tasks s ! a)" using task_mes_step [OF body(3)] by blast
  moreover have "as_tasks s ! a \<noteq> TIdle" "pc \<noteq> TIdle"
    using body(3) by (cases "as_tasks s ! a"; auto split: if_splits prod.splits sum.splits)+
  ultimately show ?thesis using async_mes_task [of a s pc njobs sh] body by (simp add: async_task_mes_def)
qed (auto simp: async_mes_def async_main_mes_def)

lemma async_progress:
  assumes inv: "async_inv nt njobs s" and "\<not> async_final s"
  shows "\<exists>t. async_step nt njobs s t"
proof (cases "waits nt s")
  case True
  let ?a = "hd (as_futures s)"
  have a: "?a < length (as_tasks s)" using waits_hd [OF inv True] by simp
  show ?thesis
  proof (cases "resting (as_tasks s ! ?a)")
    case True
    then show ?thesis
      using \<open>waits nt s\<close> async_step.run_deferred async_step.pop unfolding resting_def by blast
  next
    case False
    have task: "task_inv (task_total (as_tasks s)) (as_tasks s) (as_shared s)" using inv by (simp add: async_inv_def)
    from task_progress [OF task a False] obtain a' pc sh where
      "a' < length (as_tasks s)" "task_step a' (as_tasks s ! a') (as_shared s) = Some (pc, sh)" by auto
    then show ?thesis using async_step.body by blast
  qed
next
  case False
  show ?thesis
  proof (cases "as_main s")
    case (Push i)
    then show ?thesis using async_step.push [of s i njobs TIdle] async_step.pushed by (cases "i < njobs") blast+
  qed (use False assms(2) async_step.room async_step.drained in \<open>auto simp: async_final_def\<close>, blast+)
qed

interpretation async: terminating_system "async_start nt njobs" "async_step nt njobs" "async_inv nt njobs"
  async_final "async_mes njobs" for nt njobs
proof (unfold_locales, goal_cases)
  case (1 s)
  then show ?case
    using task_inv_zero by (simp add: async_start_def async_init_def async_inv_def pushes_def async_window_def task_total_def)
next
  case (2 s t)
  then show ?case by (rule async_inv_step)
next
  case (3 s)
  then show ?case by (rule async_progress)
next
  case (4 s t)
  then show ?case by (rule async_mes_step)
qed

lemma async_final_cache:
  assumes "async_inv nt njobs s" and "async_final s"
  shows "sh_cache (as_shared s) = cache_at (2 * njobs) 0"
proof -
  have all: "as_tasks s = replicate njobs TDone"
    using assms by (auto simp: async_inv_def async_final_def async_window_def pushes_def intro: nth_equalityI)
  have "task_inv (task_total (as_tasks s)) (as_tasks s) (as_shared s)" using assms(1) by (simp add: async_inv_def)
  from task_inv_resting [OF this] show ?thesis by (simp add: all task_total_def sum_list_replicate mult.commute)
qed

lemma unfinished_in_window:
  assumes "async_inv nt njobs s"
  shows "card {j. j < length (as_tasks s) \<and> as_tasks s ! j \<noteq> TDone} \<le> nt"
proof -
  have "{j. j < length (as_tasks s) \<and> as_tasks s ! j \<noteq> TDone} \<subseteq> set (as_futures s)"
    using assms by (auto simp: async_inv_def)
  then have "card {j. j < length (as_tasks s) \<and> as_tasks s ! j \<noteq> TDone} \<le> card (set (as_futures s))"
    by (intro card_mono) auto
  also have "\<dots> \<le> length (as_futures s)" by (rule card_length)
  also have "\<dots> \<le> nt" using assms by (auto simp: async_inv_def async_window_def split: async_pc.splits)
  finally show ?thesis .
qed

text \<open>
  C14. Every schedule of \<open>cache_calc_async\<close>, with every choice of the launch policy for every task, is
  correct: in every reachable state at most \<open>num_tasks\<close> tasks are unfinished and at most one is in a
  critical section; unless the function has returned some thread can go on, and the schedule so far
  has at most 54003 steps, so it always returns; when it has, \<open>checkWork\<close> finds all counters exact.
\<close>

theorem async_correct:
  assumes "(async_step num_tasks max_iter ^^ n) async_init s"
  shows "card {j. j < length (as_tasks s) \<and> as_tasks s ! j \<noteq> TDone} \<le> num_tasks \<and>
    (\<forall>a < length (as_tasks s). \<forall>b < length (as_tasks s).
      in_crit (as_tasks s ! a) \<and> in_crit (as_tasks s ! b) \<longrightarrow> a = b) \<and>
    n \<le> 54003 \<and> (as_main s \<noteq> AReturned \<longrightarrow> (\<exists>t. async_step num_tasks max_iter s t)) \<and>
    (as_main s = AReturned \<longrightarrow> checkWork (sh_cache (as_shared s)) (of_nat max_iter) = Inr [])"
proof -
  have start: "async_start num_tasks max_iter async_init"
    by (simp add: async_start_def num_tasks_def count_ok_def start_val_def max_iter_def INT_MAX_def)
  have inv: "async_inv num_tasks max_iter s"
    using async.inv_reachable [OF start relpowp_imp_rtranclp [OF assms]] .
  have task: "task_inv (task_total (as_tasks s)) (as_tasks s) (as_shared s)" using inv by (simp add: async_inv_def)
  have "n \<le> 54003"
    using async.schedule_bounded [OF assms async.inv_init [OF start]]
    by (simp add: async_mes_def async_main_mes_def async_init_def max_iter_def)
  moreover have "as_main s \<noteq> AReturned \<longrightarrow> (\<exists>t. async_step num_tasks max_iter s t)"
    using async.progress [OF inv] by (simp add: async_final_def)
  moreover have "as_main s = AReturned \<longrightarrow> checkWork (sh_cache (as_shared s)) (of_nat max_iter) = Inr []"
    using async_final_cache [OF inv] checkWork_exact by (simp add: async_final_def)
  ultimately show ?thesis using unfinished_in_window [OF inv] task_inv_mutex [OF task] by blast
qed

lemma async_returns: "\<exists>n s. (async_step num_tasks max_iter ^^ n) async_init s \<and> as_main s = AReturned"
proof -
  have "async_start num_tasks max_iter async_init"
    by (simp add: async_start_def num_tasks_def count_ok_def start_val_def max_iter_def INT_MAX_def)
  from async.finishes [OF async.inv_init [OF this]] show ?thesis by (auto simp: async_final_def)
qed

theorem async_correct_witness:
  "\<exists>n s. (async_step num_tasks max_iter ^^ n) async_init s \<and> as_main s = AReturned \<and> n \<le> 54003 \<and>
    checkWork (sh_cache (as_shared s)) (of_nat max_iter) = Inr []"
  using async_returns async_correct by blast

end
