(* ===== verification/ThreadPool.thy ===== *)
theory ThreadPool
  imports CacheTask
begin

section \<open>The thread pool (class ThreadPool of mutexbench.cc)\<close>

text \<open>
  The workers, the queue of tasks with its mutex and condition variable, and the main thread of
  \<open>cache_calc_simple_threadpool_class\<close>: it constructs the pool, enqueues \<open>njobs\<close> copies of the task,
  waits until all are completed and destroys the pool. The tasks are equal, so the queue is its
  length. A step under the queue's mutex is one critical section of the code; acquiring the mutex
  is a step of its own. A thread blocked in \<open>condition.wait\<close> goes on when it is notified, or
  spuriously: \<open>tp_spurious\<close> bounds how often that happens in the schedule. The loop that yields until
  \<open>completed_tasks\<close> reaches the number of tasks is a step that waits for it.
\<close>

datatype worker = WLock | WHold | WWaiting | WRun tpc | WExited

datatype pool_pc =
    PSpawn nat
  | PEnqueue nat
  | PEnqueueHold nat
  | PNotify nat
  | PAwait
  | PStop
  | PStopHold
  | PNotifyAll
  | PJoin nat
  | PReturned

datatype qowner = QFree | QMain | QWorker nat

record pool_state =
  tp_main :: pool_pc
  tp_workers :: "worker list"
  tp_queue :: nat
  tp_stop :: bool
  tp_owner :: qowner
  tp_completed :: nat
  tp_shared :: shared
  tp_spurious :: nat

definition pool_init :: "nat \<Rightarrow> pool_state" where
  "pool_init sp = \<lparr>tp_main = PSpawn 0, tp_workers = [], tp_queue = 0, tp_stop = False, tp_owner = QFree,
     tp_completed = 0, tp_shared = shared_zero, tp_spurious = sp\<rparr>"

text \<open>
  What a worker does while it holds the mutex of the queue: it blocks, returns, or takes a task.
\<close>

definition worker_section :: "bool \<Rightarrow> nat \<Rightarrow> worker \<times> nat" where
  "worker_section stop queue =
     (if \<not> (stop \<or> queue \<noteq> 0) then (WWaiting, queue)
      else if stop \<and> queue = 0 then (WExited, queue)
      else (WRun (TLock False), queue - 1))"

definition wake_all :: "worker list \<Rightarrow> worker list" where
  "wake_all ws = map (\<lambda>w. if w = WWaiting then WLock else w) ws"

inductive pool_step :: "nat \<Rightarrow> nat \<Rightarrow> pool_state \<Rightarrow> pool_state \<Rightarrow> bool" for nt njobs where
  spawn: "tp_main s = PSpawn k \<Longrightarrow> k < nt \<Longrightarrow>
    pool_step nt njobs s (s\<lparr>tp_main := PSpawn (Suc k), tp_workers := tp_workers s @ [WLock]\<rparr>)"
| constructed: "tp_main s = PSpawn k \<Longrightarrow> \<not> k < nt \<Longrightarrow> pool_step nt njobs s (s\<lparr>tp_main := PEnqueue 0\<rparr>)"
| enqueue_lock: "tp_main s = PEnqueue i \<Longrightarrow> i < njobs \<Longrightarrow> tp_owner s = QFree \<Longrightarrow>
    pool_step nt njobs s (s\<lparr>tp_main := PEnqueueHold i, tp_owner := QMain\<rparr>)"
| enqueue: "tp_main s = PEnqueueHold i \<Longrightarrow>
    pool_step nt njobs s (s\<lparr>tp_main := PNotify i, tp_queue := Suc (tp_queue s), tp_owner := QFree\<rparr>)"
| notify_one: "tp_main s = PNotify i \<Longrightarrow> a < length (tp_workers s) \<Longrightarrow> tp_workers s ! a = WWaiting \<Longrightarrow>
    pool_step nt njobs s (s\<lparr>tp_main := PEnqueue (Suc i), tp_workers := (tp_workers s)[a := WLock]\<rparr>)"
| notify_none: "tp_main s = PNotify i \<Longrightarrow> WWaiting \<notin> set (tp_workers s) \<Longrightarrow>
    pool_step nt njobs s (s\<lparr>tp_main := PEnqueue (Suc i)\<rparr>)"
| enqueued: "tp_main s = PEnqueue i \<Longrightarrow> \<not> i < njobs \<Longrightarrow> pool_step nt njobs s (s\<lparr>tp_main := PAwait\<rparr>)"
| all_completed: "tp_main s = PAwait \<Longrightarrow> \<not> tp_completed s < njobs \<Longrightarrow>
    pool_step nt njobs s (s\<lparr>tp_main := PStop\<rparr>)"
| stop_lock: "tp_main s = PStop \<Longrightarrow> tp_owner s = QFree \<Longrightarrow>
    pool_step nt njobs s (s\<lparr>tp_main := PStopHold, tp_owner := QMain\<rparr>)"
| stop: "tp_main s = PStopHold \<Longrightarrow>
    pool_step nt njobs s (s\<lparr>tp_main := PNotifyAll, tp_stop := True, tp_owner := QFree\<rparr>)"
| notify_all: "tp_main s = PNotifyAll \<Longrightarrow>
    pool_step nt njobs s (s\<lparr>tp_main := PJoin 0, tp_workers := wake_all (tp_workers s)\<rparr>)"
| join: "tp_main s = PJoin k \<Longrightarrow> k < length (tp_workers s) \<Longrightarrow> tp_workers s ! k = WExited \<Longrightarrow>
    pool_step nt njobs s (s\<lparr>tp_main := PJoin (Suc k)\<rparr>)"
| joined: "tp_main s = PJoin k \<Longrightarrow> \<not> k < length (tp_workers s) \<Longrightarrow>
    pool_step nt njobs s (s\<lparr>tp_main := PReturned\<rparr>)"
| worker_lock: "a < length (tp_workers s) \<Longrightarrow> tp_workers s ! a = WLock \<Longrightarrow> tp_owner s = QFree \<Longrightarrow>
    pool_step nt njobs s (s\<lparr>tp_workers := (tp_workers s)[a := WHold], tp_owner := QWorker a\<rparr>)"
| worker_section: "a < length (tp_workers s) \<Longrightarrow> tp_workers s ! a = WHold \<Longrightarrow>
    worker_section (tp_stop s) (tp_queue s) = (w, q) \<Longrightarrow>
    pool_step nt njobs s (s\<lparr>tp_workers := (tp_workers s)[a := w], tp_queue := q, tp_owner := QFree\<rparr>)"
| body: "a < length (tp_workers s) \<Longrightarrow> tp_workers s ! a = WRun pc \<Longrightarrow>
    task_step a pc (tp_shared s) = Some (pc', sh) \<Longrightarrow>
    pool_step nt njobs s (s\<lparr>tp_workers := (tp_workers s)[a := WRun pc'], tp_shared := sh\<rparr>)"
| complete: "a < length (tp_workers s) \<Longrightarrow> tp_workers s ! a = WRun TDone \<Longrightarrow>
    pool_step nt njobs s (s\<lparr>tp_workers := (tp_workers s)[a := WLock], tp_completed := Suc (tp_completed s)\<rparr>)"
| spurious: "a < length (tp_workers s) \<Longrightarrow> tp_workers s ! a = WWaiting \<Longrightarrow> 0 < tp_spurious s \<Longrightarrow>
    pool_step nt njobs s (s\<lparr>tp_workers := (tp_workers s)[a := WLock], tp_spurious := tp_spurious s - 1\<rparr>)"

subsection \<open>The invariant\<close>

fun task_pc :: "worker \<Rightarrow> tpc" where
  "task_pc (WRun pc) = pc"
| "task_pc _ = TIdle"

fun runs :: "worker \<Rightarrow> nat" where
  "runs (WRun pc) = 1"
| "runs _ = 0"

definition awake :: "worker \<Rightarrow> bool" where
  "awake w \<longleftrightarrow> w \<noteq> WWaiting \<and> w \<noteq> WExited"

definition running :: "worker list \<Rightarrow> nat" where
  "running ws = sum_list (map runs ws)"

definition pool_calcs :: "worker list \<Rightarrow> nat" where
  "pool_calcs ws = sum_list (map (\<lambda>w. calcs (task_pc w)) ws)"

definition enqueued_tasks :: "nat \<Rightarrow> pool_pc \<Rightarrow> nat" where
  "enqueued_tasks njobs m = (case m of
     PSpawn k \<Rightarrow> 0 | PEnqueue i \<Rightarrow> i | PEnqueueHold i \<Rightarrow> i | PNotify i \<Rightarrow> Suc i | _ \<Rightarrow> njobs)"

definition stopped :: "pool_pc \<Rightarrow> bool" where
  "stopped m \<longleftrightarrow> m \<in> {PNotifyAll, PReturned} \<or> (\<exists>k. m = PJoin k)"

definition all_woken :: "pool_pc \<Rightarrow> bool" where
  "all_woken m \<longleftrightarrow> m = PReturned \<or> (\<exists>k. m = PJoin k)"

text \<open>
  Who holds the queue's mutex; that every task is queued, running or completed; and that no wake-up
  is lost: while tasks are queued some worker is awake or about to be notified, and after
  \<open>notify_all\<close> no worker waits.
\<close>

definition owner_ok :: "pool_state \<Rightarrow> bool" where
  "owner_ok s \<longleftrightarrow>
     (tp_owner s = QMain \<longleftrightarrow> tp_main s = PStopHold \<or> (\<exists>i. tp_main s = PEnqueueHold i)) \<and>
     (\<forall>a < length (tp_workers s). tp_workers s ! a = WHold \<longleftrightarrow> tp_owner s = QWorker a) \<and>
     (\<forall>a. tp_owner s = QWorker a \<longrightarrow> a < length (tp_workers s))"

definition count_inv :: "nat \<Rightarrow> pool_state \<Rightarrow> bool" where
  "count_inv njobs s \<longleftrightarrow>
     tp_queue s + running (tp_workers s) + tp_completed s = enqueued_tasks njobs (tp_main s) \<and>
     enqueued_tasks njobs (tp_main s) \<le> njobs \<and> (\<forall>i. tp_main s = PEnqueueHold i \<longrightarrow> i < njobs) \<and>
     (tp_main s \<in> {PStop, PStopHold, PNotifyAll, PReturned} \<or> (\<exists>k. tp_main s = PJoin k) \<longrightarrow> tp_completed s = njobs)"

definition wake_inv :: "nat \<Rightarrow> pool_state \<Rightarrow> bool" where
  "wake_inv nt s \<longleftrightarrow>
     (tp_stop s \<longleftrightarrow> stopped (tp_main s)) \<and> (\<not> tp_stop s \<longrightarrow> WExited \<notin> set (tp_workers s)) \<and>
     (all_woken (tp_main s) \<longrightarrow> WWaiting \<notin> set (tp_workers s)) \<and>
     (0 < tp_queue s \<longrightarrow> (\<exists>i. tp_main s = PNotify i) \<or> (\<exists>w \<in> set (tp_workers s). awake w)) \<and>
     (case tp_main s of PSpawn k \<Rightarrow> length (tp_workers s) = k \<and> k \<le> nt | _ \<Rightarrow> length (tp_workers s) = nt) \<and>
     (case tp_main s of
        PJoin k \<Rightarrow> k \<le> nt \<and> (\<forall>j < k. tp_workers s ! j = WExited)
      | PReturned \<Rightarrow> \<forall>j < nt. tp_workers s ! j = WExited
      | _ \<Rightarrow> True)"

definition pool_task_inv :: "pool_state \<Rightarrow> bool" where
  "pool_task_inv s \<longleftrightarrow>
     task_inv (2 * tp_completed s + pool_calcs (tp_workers s)) (map task_pc (tp_workers s)) (tp_shared s)"

definition pool_inv :: "nat \<Rightarrow> nat \<Rightarrow> pool_state \<Rightarrow> bool" where
  "pool_inv nt njobs s \<longleftrightarrow> 0 < nt \<and> count_ok (2 * njobs) \<and> owner_ok s \<and> count_inv njobs s \<and> wake_inv nt s \<and>
     pool_task_inv s \<and> WRun TIdle \<notin> set (tp_workers s)"

lemma running_update: "a < length ws \<Longrightarrow> running (ws[a := w]) + runs (ws ! a) = running ws + runs w"
  unfolding running_def by (rule sum_list_update_map)

lemma pool_calcs_update:
  "a < length ws \<Longrightarrow> pool_calcs (ws[a := w]) + calcs (task_pc (ws ! a)) = pool_calcs ws + calcs (task_pc w)"
  unfolding pool_calcs_def by (rule sum_list_update_map)

lemma pool_append [simp]:
  "running (ws @ [WLock]) = running ws" "pool_calcs (ws @ [WLock]) = pool_calcs ws"
  by (simp_all add: running_def pool_calcs_def)

lemma wake_all_simps [simp]:
  "length (wake_all ws) = length ws" "running (wake_all ws) = running ws" "pool_calcs (wake_all ws) = pool_calcs ws"
  "map task_pc (wake_all ws) = map task_pc ws" "WWaiting \<notin> set (wake_all ws)"
  "WExited \<in> set (wake_all ws) \<longleftrightarrow> WExited \<in> set ws"
  "a < length ws \<Longrightarrow> wake_all ws ! a = (if ws ! a = WWaiting then WLock else ws ! a)"
  by (auto simp: wake_all_def running_def pool_calcs_def comp_def intro!: arg_cong [where f = sum_list])

lemma pool_calcs_le: "pool_calcs ws \<le> 2 * running ws"
proof (induction ws)
  case (Cons w ws)
  moreover have "calcs (task_pc w) \<le> 2 * runs w"
  proof (cases w)
    case (WRun pc)
    then show ?thesis by (cases pc) auto
  qed auto
  ultimately show ?case by (simp add: pool_calcs_def running_def)
qed (simp add: pool_calcs_def)

lemma pool_calcs_room:
  assumes "a < length ws" and "ws ! a = WRun (TWrite b i str)"
  shows "Suc (pool_calcs ws) \<le> 2 * running ws"
  using pool_calcs_update [OF assms(1), of "WRun TDone"] running_update [OF assms(1), of "WRun TDone"]
    pool_calcs_le [of "ws[a := WRun TDone]"] assms(2)
  by (cases b) auto

lemma owner_ok_step:
  assumes inv: "owner_ok s" and step: "pool_step nt njobs s t"
  shows "owner_ok t"
  using step
proof cases
  case (worker_section a w q)
  then have "tp_owner s = QWorker a" "w \<noteq> WHold"
    using inv by (auto simp: owner_ok_def worker_section_def split: if_splits)
  then show ?thesis using inv worker_section by (auto simp: owner_ok_def nth_list_update)
qed (use inv in \<open>auto simp: owner_ok_def nth_list_update nth_append less_Suc_eq split: if_splits\<close>)

lemma count_inv_step:
  assumes inv: "count_inv njobs s" and own: "owner_ok s" and step: "pool_step nt njobs s t"
  shows "count_inv njobs t"
  using step
proof cases
  case (worker_section a w q)
  then show ?thesis using inv running_update [of a "tp_workers s" w]
    by (auto simp: count_inv_def worker_section_def split: if_splits)
next
  case (body a pc pc' sh)
  then show ?thesis using inv running_update [of a "tp_workers s" "WRun pc'"] by (auto simp: count_inv_def)
next
  case (complete a)
  then show ?thesis using inv running_update [of a "tp_workers s" WLock] by (auto simp: count_inv_def)
next
  case (notify_one i a)
  then show ?thesis using inv running_update [of a "tp_workers s" WLock]
    by (auto simp: count_inv_def enqueued_tasks_def)
next
  case (worker_lock a)
  then show ?thesis using inv running_update [of a "tp_workers s" WHold] by (auto simp: count_inv_def)
next
  case (spurious a)
  then show ?thesis using inv running_update [of a "tp_workers s" WLock] by (auto simp: count_inv_def)
qed (use inv in \<open>auto simp: count_inv_def enqueued_tasks_def\<close>)

text \<open>
  A worker that is not exited changes to \<open>w\<close>: the account of wake-ups holds when \<open>w\<close> is awake, or is
  waiting or exited for one of the reasons the code allows.
\<close>

lemma wake_inv_worker:
  assumes inv: "wake_inv nt s" and a: "a < length (tp_workers s)" "tp_workers s ! a \<noteq> WExited"
    and w: "awake w \<or> w = WWaiting \<and> q = 0 \<and> \<not> tp_stop s \<or> w = WExited \<and> q = 0 \<and> tp_stop s"
  shows "wake_inv nt (s\<lparr>tp_workers := (tp_workers s)[a := w], tp_queue := q, tp_owner := ow, tp_shared := sh,
    tp_completed := c, tp_spurious := sp\<rparr>)"
proof -
  let ?ws = "(tp_workers s)[a := w]"
  have sub: "set ?ws \<subseteq> insert w (set (tp_workers s))" by (rule set_update_subset_insert)
  have mem: "w \<in> set ?ws" using a(1) by (rule set_update_memI)
  have exited: "\<not> tp_stop s \<longrightarrow> WExited \<notin> set ?ws" using inv w sub by (auto simp: wake_inv_def awake_def)
  have woken: "all_woken (tp_main s) \<longrightarrow> WWaiting \<notin> set ?ws"
    using inv w sub by (auto simp: wake_inv_def awake_def all_woken_def stopped_def)
  have queue: "0 < q \<longrightarrow> (\<exists>w \<in> set ?ws. awake w)" using w mem by auto
  have keep: "?ws ! j = WExited" if "tp_workers s ! j = WExited" for j
    using that a by (cases "j = a") auto
  show ?thesis
    using inv exited woken queue keep unfolding wake_inv_def by (cases "tp_main s") auto
qed

lemma wake_inv_notify:
  assumes inv: "wake_inv nt s" and nt: "0 < nt" and main: "tp_main s = PNotify i" and idle: "WWaiting \<notin> set (tp_workers s)"
  shows "\<exists>w \<in> set (tp_workers s). awake w"
proof -
  have "tp_workers s \<noteq> []" "WExited \<notin> set (tp_workers s)"
    using inv nt main by (auto simp: wake_inv_def stopped_def)
  then have "hd (tp_workers s) \<in> set (tp_workers s)" "hd (tp_workers s) \<noteq> WExited" "hd (tp_workers s) \<noteq> WWaiting"
    using idle by (auto, (metis hd_in_set)+)
  then show ?thesis by (auto simp: awake_def)
qed

lemma worker_section_cases:
  "worker_section stop queue = (w, q) \<Longrightarrow>
   awake w \<or> w = WWaiting \<and> q = 0 \<and> \<not> stop \<or> w = WExited \<and> q = 0 \<and> stop"
  by (auto simp: worker_section_def awake_def split: if_splits)

lemma wake_inv_step:
  assumes inv: "wake_inv nt s" and nt: "0 < nt" and step: "pool_step nt njobs s t"
  shows "wake_inv nt t"
  using step
proof cases
  case (notify_one i a)
  have "wake_inv nt (s\<lparr>tp_workers := (tp_workers s)[a := WLock]\<rparr>)"
    using wake_inv_worker [OF inv notify_one(3), where w = WLock and q = "tp_queue s" and ow = "tp_owner s" and sh = "tp_shared s" and c = "tp_completed s" and sp = "tp_spurious s"] notify_one(4) by (simp add: awake_def)
  moreover have "WLock \<in> set ((tp_workers s)[a := WLock])" using notify_one(3) by (rule set_update_memI)
  ultimately show ?thesis using notify_one by (auto simp: wake_inv_def stopped_def all_woken_def awake_def)
next
  case (notify_none i)
  then show ?thesis using inv wake_inv_notify [OF inv nt] by (auto simp: wake_inv_def stopped_def all_woken_def)
next
  case notify_all
  have "0 < tp_queue s \<longrightarrow> (\<exists>w \<in> set (wake_all (tp_workers s)). awake w)"
    using inv notify_all(2) by (fastforce simp: wake_inv_def wake_all_def awake_def)
  then show ?thesis using inv notify_all by (auto simp: wake_inv_def stopped_def all_woken_def)
next
  case (worker_lock a)
  then show ?thesis
    using wake_inv_worker [OF inv worker_lock(2), where w = WHold and q = "tp_queue s" and ow = "QWorker a" and sh = "tp_shared s" and c = "tp_completed s" and sp = "tp_spurious s"] by (simp add: awake_def)
next
  case (worker_section a w q)
  then show ?thesis
    using wake_inv_worker [OF inv worker_section(2), where w = w and q = q and ow = QFree and sh = "tp_shared s" and c = "tp_completed s" and sp = "tp_spurious s"]
      worker_section_cases [OF worker_section(4)] by simp
next
  case (body a pc pc' sh)
  then show ?thesis
    using wake_inv_worker [OF inv body(2), where w = "WRun pc'" and q = "tp_queue s" and ow = "tp_owner s" and sh = sh and c = "tp_completed s" and sp = "tp_spurious s"]
    by (simp add: awake_def)
next
  case (complete a)
  then show ?thesis
    using wake_inv_worker [OF inv complete(2), where w = WLock and q = "tp_queue s" and ow = "tp_owner s" and sh = "tp_shared s" and c = "Suc (tp_completed s)" and sp = "tp_spurious s"] by (simp add: awake_def)
next
  case (spurious a)
  then show ?thesis
    using wake_inv_worker [OF inv spurious(2), where w = WLock and q = "tp_queue s" and ow = "tp_owner s" and sh = "tp_shared s" and c = "tp_completed s" and sp = "tp_spurious s - 1"] by (simp add: awake_def)
qed (use inv in \<open>auto simp: wake_inv_def stopped_def all_woken_def awake_def less_Suc_eq\<close>)

text \<open>A worker takes up or puts away a task: the number of completed calls does not change.\<close>

lemma pool_task_worker:
  assumes inv: "pool_task_inv s" and a: "a < length (tp_workers s)"
    and from_pc: "task_pc (tp_workers s ! a) = TIdle \<or> task_pc (tp_workers s ! a) = TDone"
    and to_pc: "task_pc w = TIdle \<or> task_pc w = TLock False"
    and count: "2 * c = 2 * tp_completed s + calcs (task_pc (tp_workers s ! a))"
  shows "task_inv (2 * c + pool_calcs ((tp_workers s)[a := w])) (map task_pc ((tp_workers s)[a := w])) (tp_shared s)"
proof -
  have "2 * c + pool_calcs ((tp_workers s)[a := w]) = 2 * tp_completed s + pool_calcs (tp_workers s)"
    using pool_calcs_update [OF a, of w] to_pc count by auto
  moreover have "task_inv (2 * tp_completed s + pool_calcs (tp_workers s))
      ((map task_pc (tp_workers s))[a := task_pc w]) (tp_shared s)"
    using inv a from_pc to_pc unfolding pool_task_inv_def by (intro task_inv_outside) auto
  ultimately show ?thesis by (simp add: map_update)
qed

lemma pool_task_body:
  assumes inv: "pool_task_inv s" and cnt: "count_inv njobs s" and ok: "count_ok (2 * njobs)"
    and a: "a < length (tp_workers s)" "tp_workers s ! a = WRun pc"
    and step: "task_step a pc (tp_shared s) = Some (pc', sh)"
  shows "task_inv (2 * tp_completed s + pool_calcs ((tp_workers s)[a := WRun pc']))
    (map task_pc ((tp_workers s)[a := WRun pc'])) sh"
proof -
  let ?n = "2 * tp_completed s + pool_calcs (tp_workers s)"
  have room: "count_ok (Suc ?n)" if "pc = TWrite b i str" for b i str
  proof (rule count_ok_mono [OF ok])
    have "tp_completed s + running (tp_workers s) \<le> njobs" using cnt by (auto simp: count_inv_def)
    then show "Suc ?n \<le> 2 * njobs" using pool_calcs_room [OF a(1)] a(2) that by force
  qed
  have new: "task_inv (?n + (calcs pc' - calcs pc)) ((map task_pc (tp_workers s))[a := pc']) sh" "calcs pc \<le> calcs pc'"
    using task_inv_step [of ?n "map task_pc (tp_workers s)" "tp_shared s" a pc' sh] inv a step room
    by (auto simp: pool_task_inv_def)
  have "pool_calcs ((tp_workers s)[a := WRun pc']) = pool_calcs (tp_workers s) + (calcs pc' - calcs pc)"
    using pool_calcs_update [OF a(1), of "WRun pc'"] a(2) new(2) by simp
  then show ?thesis using new(1) by (simp add: map_update add.assoc)
qed

lemma pool_task_step:
  assumes inv: "pool_task_inv s" and cnt: "count_inv njobs s" and ok: "count_ok (2 * njobs)"
    and step: "pool_step nt njobs s t"
  shows "pool_task_inv t"
  using step
proof cases
  case (spawn k)
  then show ?thesis using inv task_inv_spawn by (simp add: pool_task_inv_def)
next
  case (notify_one i a)
  then show ?thesis using pool_task_worker [OF inv, of a WLock "tp_completed s"] by (simp add: pool_task_inv_def)
next
  case (worker_lock a)
  then show ?thesis using pool_task_worker [OF inv, of a WHold "tp_completed s"] by (simp add: pool_task_inv_def)
next
  case (worker_section a w q)
  then have "task_pc w = TIdle \<or> task_pc w = TLock False" by (auto simp: worker_section_def split: if_splits)
  then show ?thesis using worker_section pool_task_worker [OF inv, of a w "tp_completed s"] by (simp add: pool_task_inv_def)
next
  case (body a pc pc' sh)
  then show ?thesis using pool_task_body [OF inv cnt ok] by (simp add: pool_task_inv_def)
next
  case (complete a)
  then show ?thesis using pool_task_worker [OF inv, of a WLock "Suc (tp_completed s)"] by (simp add: pool_task_inv_def)
next
  case (spurious a)
  then show ?thesis using pool_task_worker [OF inv, of a WLock "tp_completed s"] by (simp add: pool_task_inv_def)
qed (use inv in \<open>simp_all add: pool_task_inv_def\<close>)

lemma task_step_not_idle: "task_step a pc sh = Some (pc', sh') \<Longrightarrow> pc' \<noteq> TIdle"
  by (cases pc) (auto split: if_splits prod.splits sum.splits)

lemma not_idle_step:
  assumes inv: "WRun TIdle \<notin> set (tp_workers s)" and step: "pool_step nt njobs s t"
  shows "WRun TIdle \<notin> set (tp_workers t)"
proof -
  have upd: "WRun TIdle \<notin> set ((tp_workers s)[a := w])" if "w \<noteq> WRun TIdle" for a w
    using inv that set_update_subset_insert [of "tp_workers s" a w] by auto
  show ?thesis using step
  proof cases
    case (body a pc pc' sh)
    then show ?thesis using upd task_step_not_idle by auto
  qed (use inv upd in \<open>auto simp: wake_all_def worker_section_def split: if_splits\<close>)
qed

lemma pool_inv_step: "pool_inv nt njobs s \<Longrightarrow> pool_step nt njobs s t \<Longrightarrow> pool_inv nt njobs t"
  using owner_ok_step count_inv_step wake_inv_step pool_task_step not_idle_step
  unfolding pool_inv_def by blast

subsection \<open>Every schedule ends\<close>

fun worker_mes :: "worker \<Rightarrow> nat" where
  "worker_mes WLock = 2"
| "worker_mes WHold = 1"
| "worker_mes (WRun pc) = 3 + task_mes pc"
| "worker_mes _ = 0"

definition pool_main_mes :: "nat \<Rightarrow> nat \<Rightarrow> pool_pc \<Rightarrow> nat" where
  "pool_main_mes nt njobs m = (case m of
     PSpawn k \<Rightarrow> 3 * (nt - k) + 66 * njobs + 3 * nt + 10
   | PEnqueue i \<Rightarrow> 66 * (njobs - i) + 3 * nt + 9
   | PEnqueueHold i \<Rightarrow> 66 * (njobs - Suc i) + 65 + 3 * nt + 9
   | PNotify i \<Rightarrow> 66 * (njobs - Suc i) + 4 + 3 * nt + 9
   | PAwait \<Rightarrow> 3 * nt + 8 | PStop \<Rightarrow> 3 * nt + 7 | PStopHold \<Rightarrow> 3 * nt + 6 | PNotifyAll \<Rightarrow> 3 * nt + 5
   | PJoin k \<Rightarrow> nt - k + 1 | PReturned \<Rightarrow> 0)"

definition pool_mes :: "nat \<Rightarrow> nat \<Rightarrow> pool_state \<Rightarrow> nat" where
  "pool_mes nt njobs s = pool_main_mes nt njobs (tp_main s) + 60 * tp_queue s + 3 * tp_spurious s +
     sum_list (map worker_mes (tp_workers s))"

lemma worker_mes_update:
  "a < length ws \<Longrightarrow> sum_list (map worker_mes (ws[a := w])) + worker_mes (ws ! a) =
    sum_list (map worker_mes ws) + worker_mes w"
  by (rule sum_list_update_map)

lemma worker_mes_wake: "sum_list (map worker_mes (wake_all ws)) \<le> sum_list (map worker_mes ws) + 2 * length ws"
  by (induction ws) (auto simp: wake_all_def)

lemma pool_mes_step:
  assumes inv: "pool_inv nt njobs s" and step: "pool_step nt njobs s t"
  shows "pool_mes nt njobs t < pool_mes nt njobs s"
  using step
proof cases
  case (enqueue_lock i)
  then have "njobs - i = Suc (njobs - Suc i)" by simp
  then show ?thesis using enqueue_lock by (simp add: pool_mes_def pool_main_mes_def)
next
  case (notify_one i a)
  then show ?thesis using worker_mes_update [OF notify_one(3), of WLock] by (simp add: pool_mes_def pool_main_mes_def)
next
  case notify_all
  have "length (tp_workers s) = nt" using inv notify_all by (simp add: pool_inv_def wake_inv_def)
  then show ?thesis using notify_all worker_mes_wake [of "tp_workers s"] by (simp add: pool_mes_def pool_main_mes_def)
next
  case (join k)
  have "length (tp_workers s) = nt" using inv join by (simp add: pool_inv_def wake_inv_def)
  then show ?thesis using join by (simp add: pool_mes_def pool_main_mes_def)
next
  case (worker_lock a)
  then show ?thesis using worker_mes_update [OF worker_lock(2), of WHold] by (simp add: pool_mes_def)
next
  case (worker_section a w q)
  then show ?thesis using worker_mes_update [OF worker_section(2), of w]
    by (auto simp: pool_mes_def worker_section_def split: if_splits)
next
  case (body a pc pc' sh)
  have "i < num_calc" if "pc = TWrite b i str" for b i str
    using inv body that task_inv_write [of _ "map task_pc (tp_workers s)" "tp_shared s" a b i str]
    by (auto simp: pool_inv_def pool_task_inv_def)
  then have "task_mes pc' < task_mes pc" using task_mes_step [OF body(4)] by blast
  then show ?thesis using body worker_mes_update [OF body(2), of "WRun pc'"] by (simp add: pool_mes_def)
next
  case (complete a)
  then show ?thesis using worker_mes_update [OF complete(2), of WLock] by (simp add: pool_mes_def)
next
  case (spurious a)
  then show ?thesis using worker_mes_update [OF spurious(2), of WLock] by (cases "tp_spurious s") (simp_all add: pool_mes_def)
qed (auto simp: pool_mes_def pool_main_mes_def)

subsection \<open>No deadlock\<close>

lemma owner_progress:
  assumes "owner_ok s" and "tp_owner s \<noteq> QFree"
  shows "\<exists>t. pool_step nt njobs s t"
proof (cases "tp_owner s")
  case QMain
  then show ?thesis using assms(1) pool_step.enqueue pool_step.stop unfolding owner_ok_def by blast
next
  case (QWorker a)
  then have "a < length (tp_workers s)" "tp_workers s ! a = WHold" using assms(1) by (auto simp: owner_ok_def)
  then show ?thesis using pool_step.worker_section by (metis surj_pair)
qed (use assms(2) in simp)

text \<open>While a worker is awake, some thread can take a step.\<close>

lemma awake_progress:
  assumes inv: "pool_inv nt njobs s" and a: "a < length (tp_workers s)" "awake (tp_workers s ! a)"
  shows "\<exists>t. pool_step nt njobs s t"
proof (cases "tp_owner s = QFree")
  case free: True
  show ?thesis
  proof (cases "tp_workers s ! a")
    case (WRun pc)
    show ?thesis
    proof (cases "resting pc")
      case True
      then have "pc = TDone" using inv WRun nth_mem [OF a(1)] by (auto simp: resting_def pool_inv_def)
      then show ?thesis using WRun a(1) pool_step.complete by blast
    next
      case False
      have "task_inv (2 * tp_completed s + pool_calcs (tp_workers s)) (map task_pc (tp_workers s)) (tp_shared s)"
        using inv by (simp add: pool_inv_def pool_task_inv_def)
      from task_progress [OF this, of a] a(1) WRun False obtain b pc' sh where
        b: "b < length (tp_workers s)" "task_step b (task_pc (tp_workers s ! b)) (tp_shared s) = Some (pc', sh)" by auto
      then obtain pc2 where "tp_workers s ! b = WRun pc2" by (cases "tp_workers s ! b") auto
      then show ?thesis using b pool_step.body [of b s pc2 pc' sh nt njobs] by auto
    qed
  next
    case WHold
    then show ?thesis using inv a(1) free by (auto simp: pool_inv_def owner_ok_def)
  qed (use a free pool_step.worker_lock in \<open>auto simp: awake_def\<close>, blast)
qed (use inv in \<open>simp add: owner_progress pool_inv_def\<close>)

lemma running_exists: "0 < running ws \<Longrightarrow> \<exists>w \<in> set ws. awake w"
proof (induction ws)
  case (Cons w ws)
  then show ?case by (cases w) (auto simp: running_def awake_def)
qed (simp add: running_def)

definition pool_final :: "pool_state \<Rightarrow> bool" where
  "pool_final s \<longleftrightarrow> tp_main s = PReturned"

lemma await_progress:
  assumes inv: "pool_inv nt njobs s" and main: "tp_main s = PAwait"
  shows "\<exists>t. pool_step nt njobs s t"
proof (cases "tp_completed s < njobs")
  case True
  have "tp_queue s + running (tp_workers s) + tp_completed s = njobs"
    using inv main by (simp add: pool_inv_def count_inv_def enqueued_tasks_def)
  then have "0 < running (tp_workers s) \<or> 0 < tp_queue s" using True by linarith
  then have "\<exists>w \<in> set (tp_workers s). awake w"
    using running_exists inv main by (auto simp: pool_inv_def wake_inv_def)
  then show ?thesis using awake_progress [OF inv] by (metis in_set_conv_nth)
qed (use main pool_step.all_completed in blast)

lemma join_progress:
  assumes inv: "pool_inv nt njobs s" and main: "tp_main s = PJoin k"
  shows "\<exists>t. pool_step nt njobs s t"
proof (cases "k < length (tp_workers s)")
  case True
  have "tp_workers s ! k \<noteq> WWaiting"
    using inv main nth_mem [OF True] by (auto simp: pool_inv_def wake_inv_def all_woken_def)
  then show ?thesis
    using awake_progress [OF inv True] pool_step.join [OF main True]
    by (cases "tp_workers s ! k = WExited") (auto simp: awake_def)
qed (use main pool_step.joined in blast)

lemma notify_progress:
  assumes "tp_main s = PNotify i"
  shows "\<exists>t. pool_step nt njobs s t"
proof (cases "WWaiting \<in> set (tp_workers s)")
  case True
  then obtain a where "a < length (tp_workers s)" "tp_workers s ! a = WWaiting" by (metis in_set_conv_nth)
  then show ?thesis using assms pool_step.notify_one by blast
qed (use assms pool_step.notify_none in blast)

lemma pool_progress:
  assumes inv: "pool_inv nt njobs s" and "\<not> pool_final s"
  shows "\<exists>t. pool_step nt njobs s t"
proof -
  have own: "tp_owner s \<noteq> QFree \<Longrightarrow> \<exists>t. pool_step nt njobs s t"
    using owner_progress inv by (simp add: pool_inv_def)
  show ?thesis
  proof (cases "tp_main s")
    case (PSpawn k)
    then show ?thesis using pool_step.spawn pool_step.constructed by (cases "k < nt") blast+
  next
    case (PEnqueue i)
    then show ?thesis using own pool_step.enqueue_lock pool_step.enqueued by (cases "i < njobs") blast+
  next
    case PStop
    then show ?thesis using own pool_step.stop_lock by blast
  next
    case PStopHold
    then show ?thesis using pool_step.stop by blast
  next
    case PNotifyAll
    then show ?thesis using pool_step.notify_all by blast
  next
    case (PEnqueueHold i)
    then show ?thesis using pool_step.enqueue by blast
  qed (use await_progress [OF inv] join_progress [OF inv] notify_progress assms(2) in \<open>auto simp: pool_final_def\<close>)
qed

definition pool_start :: "nat \<Rightarrow> nat \<Rightarrow> pool_state \<Rightarrow> bool" where
  "pool_start nt njobs s \<longleftrightarrow> (\<exists>sp. s = pool_init sp) \<and> 0 < nt \<and> count_ok (2 * njobs)"

interpretation pool: terminating_system "pool_start nt njobs" "pool_step nt njobs" "pool_inv nt njobs"
  pool_final "pool_mes nt njobs" for nt njobs
proof (unfold_locales, goal_cases)
  case (1 s)
  then show ?case
    using task_inv_zero by (auto simp: pool_start_def pool_init_def pool_inv_def owner_ok_def count_inv_def
        enqueued_tasks_def wake_inv_def stopped_def all_woken_def pool_task_inv_def running_def pool_calcs_def)
next
  case (2 s t)
  then show ?case by (rule pool_inv_step)
next
  case (3 s)
  then show ?case by (rule pool_progress)
next
  case (4 s t)
  then show ?case by (rule pool_mes_step)
qed

lemma pool_final_state:
  assumes "pool_inv nt njobs s" and "pool_final s"
  shows "tp_workers s = replicate nt WExited" "sh_cache (tp_shared s) = cache_at (2 * njobs) 0"
    "tp_completed s = njobs" "tp_queue s = 0"
proof -
  show all: "tp_workers s = replicate nt WExited"
    using assms by (auto simp: pool_inv_def wake_inv_def pool_final_def intro: nth_equalityI)
  show c: "tp_completed s = njobs" "tp_queue s = 0"
    using assms by (auto simp: pool_inv_def count_inv_def pool_final_def enqueued_tasks_def)
  have "task_inv (2 * tp_completed s + pool_calcs (tp_workers s)) (map task_pc (tp_workers s)) (tp_shared s)"
    using assms(1) by (simp add: pool_inv_def pool_task_inv_def)
  from task_inv_resting [OF this] show "sh_cache (tp_shared s) = cache_at (2 * njobs) 0"
    by (simp add: all c pool_calcs_def sum_list_replicate)
qed

subsection \<open>Correctness\<close>

lemma pool_start_ok: "pool_start num_tasks max_iter (pool_init sp)"
  by (auto simp: pool_start_def num_tasks_def count_ok_def start_val_def max_iter_def INT_MAX_def)

text \<open>
  C1. Every schedule of \<open>cache_calc_simple_threadpool_class\<close> with finitely many spurious wake-ups is
  correct: unless the function has returned, some thread can go on (no deadlock between the queue's
  mutex, the condition variable, the cache's mutex, the wait for completion and the joins), and the
  schedule so far has at most 66058 steps and three more for each spurious wake-up, so it always
  returns; when it has, all workers have exited, no task is left and \<open>checkWork\<close> finds all counters
  exact.
\<close>

theorem pool_correct:
  assumes "(pool_step num_tasks max_iter ^^ n) (pool_init sp) s"
  shows "n \<le> 66058 + 3 * sp \<and> (tp_main s \<noteq> PReturned \<longrightarrow> (\<exists>t. pool_step num_tasks max_iter s t)) \<and>
    (tp_main s = PReturned \<longrightarrow> tp_workers s = replicate num_tasks WExited \<and> tp_queue s = 0 \<and>
       tp_completed s = max_iter \<and> checkWork (sh_cache (tp_shared s)) (of_nat max_iter) = Inr [])"
proof -
  have inv: "pool_inv num_tasks max_iter s"
    using pool.inv_reachable [OF pool_start_ok relpowp_imp_rtranclp [OF assms]] .
  have "n \<le> 66058 + 3 * sp"
    using pool.schedule_bounded [OF assms pool.inv_init [OF pool_start_ok]]
    by (simp add: pool_mes_def pool_main_mes_def pool_init_def max_iter_def num_tasks_def)
  moreover have "tp_main s \<noteq> PReturned \<longrightarrow> (\<exists>t. pool_step num_tasks max_iter s t)"
    using pool.progress [OF inv] by (simp add: pool_final_def)
  ultimately show ?thesis
    using pool_final_state [OF inv] checkWork_exact by (simp add: pool_final_def)
qed

lemma pool_returns: "\<exists>n s. (pool_step num_tasks max_iter ^^ n) (pool_init 5) s \<and> tp_main s = PReturned"
  using pool.finishes [OF pool.inv_init [OF pool_start_ok]] by (auto simp: pool_final_def)

theorem pool_correct_witness:
  "\<exists>n s. (pool_step num_tasks max_iter ^^ n) (pool_init 5) s \<and> n \<le> 66058 + 3 * 5 \<and> tp_main s = PReturned \<and>
    tp_workers s = replicate num_tasks WExited \<and> checkWork (sh_cache (tp_shared s)) (of_nat max_iter) = Inr []"
  using pool_returns pool_correct by blast

text \<open>
  C18. No wake-up is lost and no task is lost or run twice, in any reachable state of the pool: while
  tasks are queued, some worker is awake or \<open>enqueue\<close> is about to notify one; once the destructor has
  notified all, no worker waits; no worker returns before the pool is stopped; and the tasks enqueued
  so far are the queued, the running and the completed ones.
\<close>

theorem pool_no_lost_wakeup:
  assumes "(pool_step num_tasks max_iter)\<^sup>*\<^sup>* (pool_init sp) s"
  shows "(0 < tp_queue s \<longrightarrow> (\<exists>i. tp_main s = PNotify i) \<or> (\<exists>w \<in> set (tp_workers s). awake w)) \<and>
    (all_woken (tp_main s) \<longrightarrow> WWaiting \<notin> set (tp_workers s)) \<and>
    (\<not> tp_stop s \<longrightarrow> WExited \<notin> set (tp_workers s)) \<and>
    tp_queue s + running (tp_workers s) + tp_completed s = enqueued_tasks max_iter (tp_main s)"
  using pool.inv_reachable [OF pool_start_ok assms] by (simp add: pool_inv_def wake_inv_def count_inv_def)

theorem pool_no_lost_wakeup_witness:
  "\<exists>s. (pool_step num_tasks max_iter)\<^sup>*\<^sup>* (pool_init 5) s \<and> tp_main s = PReturned \<and>
    tp_queue s + running (tp_workers s) + tp_completed s = max_iter"
proof -
  obtain n s where n: "(pool_step num_tasks max_iter ^^ n) (pool_init 5) s" and r: "tp_main s = PReturned"
    using pool_returns by blast
  note reach = relpowp_imp_rtranclp [OF n]
  have "tp_queue s + running (tp_workers s) + tp_completed s = max_iter"
    using pool_no_lost_wakeup [OF reach] r by (simp add: enqueued_tasks_def)
  with reach r show ?thesis by blast
qed

end
