(* ===== verification/StrandTask.thy ===== *)
theory StrandTask
  imports BenchCommon
begin

section \<open>The task of the executor benchmarks, step by step\<close>

text \<open>
  The benchmarks on Boost.Asio, Folly and Seastar use no mutex. A task is a chain of handlers: a
  calculation on a serial executor (a strand, the one thread of an \<open>io_context\<close>, a shard), a timer,
  another calculation. Every handler hands its successor to an executor and returns. Which executor
  runs a handler when is up to the library, which is a parameter here: \<open>ex_post\<close> takes a handler,
  \<open>ex_begin\<close> says whether the library begins a handler now, \<open>ex_return\<close> tells it that a handler has
  returned, and \<open>ex_run\<close> that the main thread has begun to wait (or to run the event loop). A handler
  is named by the task it belongs to and its place in the chain.
\<close>

datatype exec = Serial | Pool | Timer

type_synonym handler = "nat \<times> nat"

record 'e executors =
  ex_post :: "exec \<Rightarrow> handler \<Rightarrow> 'e \<Rightarrow> 'e"
  ex_begin :: "exec \<Rightarrow> handler \<Rightarrow> 'e \<Rightarrow> 'e option"
  ex_return :: "exec \<Rightarrow> handler \<Rightarrow> 'e \<Rightarrow> 'e"
  ex_run :: "'e \<Rightarrow> 'e"

text \<open>
  A chain of handlers: for each the executor and whether it calls \<open>calc\<close>. The others only start the
  next operation.
\<close>

type_synonym chain = "(exec \<times> bool) list"

text \<open>
  Where a task is: posted at a stage, at a read or at a store of \<open>calc\<close>, behind it, or at the end of its
  chain. A task whose \<open>calc\<close> throws stops at \<open>XCrash\<close>, whatever its library would do with the exception; no
  schedule gets there.
\<close>

datatype xpc =
    XAt nat
  | XRead nat nat
  | XWrite nat nat string
  | XBody nat
  | XEnd
  | XCrash failure

datatype xmain = XPosting nat | XWaiting | XReturned

text \<open>
  How the main thread learns that all is done: from a promise (or a stopped event loop) that the task
  sets whose increment of \<open>completed\<close> reaches the number of tasks, or from the library, which collects
  the results of all tasks.
\<close>

datatype waiting = Promise | CollectAll

record 'e xstate =
  x_main :: xmain
  x_tasks :: "xpc list"
  x_cache :: cachetype
  x_completed :: nat
  x_done :: bool
  x_returning :: "(exec \<times> handler) set"   \<comment> \<open>handlers with nothing left to do but to return\<close>
  x_lib :: 'e

definition exec_init :: "'e \<Rightarrow> 'e xstate" where
  "exec_init e = \<lparr>x_main = XPosting 0, x_tasks = [], x_cache = Map.empty, x_completed = 0, x_done = False,
     x_returning = {}, x_lib = e\<rparr>"

text \<open>One step of \<open>calc\<close>: a read \<open>cache[key]\<close> or a store.\<close>

fun calc_step :: "xpc \<Rightarrow> cachetype \<Rightarrow> (xpc \<times> cachetype) option" where
  "calc_step (XRead k i) cache =
     (if i < num_calc
      then case cache_index (get_key i) cache of (str, cache) \<Rightarrow> Some (XWrite k i str, cache)
      else Some (XBody k, cache))"
| "calc_step (XWrite k i str) cache =
     (case calc_value str of
        Inl e \<Rightarrow> Some (XCrash e, cache)
      | Inr v \<Rightarrow> Some (XRead k (Suc i), cache(get_key i \<mapsto> v)))"
| "calc_step _ cache = None"

definition all_ended :: "xpc list \<Rightarrow> bool" where
  "all_ended ts \<longleftrightarrow> (\<forall>t \<in> set ts. t = XEnd)"

inductive exec_step :: "'e executors \<Rightarrow> chain \<Rightarrow> waiting \<Rightarrow> nat \<Rightarrow> 'e xstate \<Rightarrow> 'e xstate \<Rightarrow> bool" for L ch how n where
  post_task: "x_main s = XPosting a \<Longrightarrow> a < n \<Longrightarrow>
    exec_step L ch how n s (s\<lparr>x_main := XPosting (Suc a), x_tasks := x_tasks s @ [XAt 0],
      x_lib := ex_post L (fst (ch ! 0)) (a, 0) (x_lib s)\<rparr>)"
| posted: "x_main s = XPosting a \<Longrightarrow> \<not> a < n \<Longrightarrow>
    exec_step L ch how n s (s\<lparr>x_main := XWaiting, x_lib := ex_run L (x_lib s)\<rparr>)"
| begin_handler: "a < length (x_tasks s) \<Longrightarrow> x_tasks s ! a = XAt k \<Longrightarrow>
    ex_begin L (fst (ch ! k)) (a, k) (x_lib s) = Some e \<Longrightarrow>
    exec_step L ch how n s (s\<lparr>x_tasks := (x_tasks s)[a := if snd (ch ! k) then XRead k 0 else XBody k], x_lib := e\<rparr>)"
| in_calc: "a < length (x_tasks s) \<Longrightarrow> calc_step (x_tasks s ! a) (x_cache s) = Some (pc, cache) \<Longrightarrow>
    exec_step L ch how n s (s\<lparr>x_tasks := (x_tasks s)[a := pc], x_cache := cache\<rparr>)"
| post_next: "a < length (x_tasks s) \<Longrightarrow> x_tasks s ! a = XBody k \<Longrightarrow> Suc k < length ch \<Longrightarrow>
    exec_step L ch how n s (s\<lparr>x_tasks := (x_tasks s)[a := XAt (Suc k)],
      x_returning := insert (fst (ch ! k), (a, k)) (x_returning s),
      x_lib := ex_post L (fst (ch ! Suc k)) (a, Suc k) (x_lib s)\<rparr>)"
| complete: "a < length (x_tasks s) \<Longrightarrow> x_tasks s ! a = XBody k \<Longrightarrow> \<not> Suc k < length ch \<Longrightarrow>
    exec_step L ch how n s (s\<lparr>x_tasks := (x_tasks s)[a := XEnd], x_completed := Suc (x_completed s),
      x_done := (x_done s \<or> Suc (x_completed s) = n),
      x_returning := insert (fst (ch ! k), (a, k)) (x_returning s)\<rparr>)"
| return_handler: "(x, h) \<in> x_returning s \<Longrightarrow>
    exec_step L ch how n s (s\<lparr>x_returning := x_returning s - {(x, h)}, x_lib := ex_return L x h (x_lib s)\<rparr>)"
| wait_promise: "x_main s = XWaiting \<Longrightarrow> how = Promise \<Longrightarrow> x_done s \<Longrightarrow>
    exec_step L ch how n s (s\<lparr>x_main := XReturned\<rparr>)"
| wait_all: "x_main s = XWaiting \<Longrightarrow> how = CollectAll \<Longrightarrow> all_ended (x_tasks s) \<Longrightarrow>
    exec_step L ch how n s (s\<lparr>x_main := XReturned\<rparr>)"

subsection \<open>What the libraries document\<close>

text \<open>
  \<open>pending\<close> and \<open>running\<close> are the handlers that an executor has taken and has begun, \<open>ready\<close> is whether the
  main thread waits. A library begins only what was posted and begins it once; a serial executor does
  not begin a handler while another one of its handlers is running; and handlers are not forgotten:
  when some are left and none is running, the library begins one.
\<close>

locale executor_laws =
  fixes L :: "'e executors"
    and pending :: "exec \<Rightarrow> 'e \<Rightarrow> handler set"
    and running :: "exec \<Rightarrow> 'e \<Rightarrow> handler set"
    and ready :: "'e \<Rightarrow> bool"
  assumes post_pending: "pending x (ex_post L y h e) = (if x = y then insert h (pending x e) else pending x e)"
    and post_running: "running x (ex_post L y h e) = running x e"
    and post_ready: "ready (ex_post L y h e) = ready e"
    and begin_posted: "ex_begin L y h e = Some e' \<Longrightarrow> h \<in> pending y e"
    and begin_pending: "ex_begin L y h e = Some e' \<Longrightarrow> pending x e' = (if x = y then pending x e - {h} else pending x e)"
    and begin_running: "ex_begin L y h e = Some e' \<Longrightarrow> running x e' = (if x = y then insert h (running x e) else running x e)"
    and begin_ready: "ex_begin L y h e = Some e' \<Longrightarrow> ready e' = ready e"
    and begin_serial: "ex_begin L Serial h e = Some e' \<Longrightarrow> running Serial e = {}"
    and return_pending: "pending x (ex_return L y h e) = pending x e"
    and return_running: "running x (ex_return L y h e) = (if x = y then running x e - {h} else running x e)"
    and return_ready: "ready (ex_return L y h e) = ready e"
    and run_pending: "pending x (ex_run L e) = pending x e"
    and run_running: "running x (ex_run L e) = running x e"
    and run_ready: "ready (ex_run L e)"
    and not_forgotten: "ready e \<Longrightarrow> h \<in> pending x e \<Longrightarrow> (\<And>y. running y e = {}) \<Longrightarrow>
      \<exists>y h' e'. ex_begin L y h' e = Some e'"
begin

lemmas library =
  post_pending post_running post_ready begin_pending begin_running begin_ready
  return_pending return_running return_ready run_pending run_running run_ready

end

subsection \<open>The invariant\<close>

text \<open>Calls of \<open>calc\<close> in front of a stage, and those a task has completed.\<close>

definition calcs_before :: "chain \<Rightarrow> nat \<Rightarrow> nat" where
  "calcs_before ch k = length (filter snd (take k ch))"

fun xcalcs :: "chain \<Rightarrow> xpc \<Rightarrow> nat" where
  "xcalcs ch (XAt k) = calcs_before ch k"
| "xcalcs ch (XRead k i) = calcs_before ch k"
| "xcalcs ch (XWrite k i s) = calcs_before ch k"
| "xcalcs ch (XBody k) = calcs_before ch (Suc k)"
| "xcalcs ch XEnd = calcs_before ch (length ch)"
| "xcalcs ch (XCrash e) = 0"

fun in_calc_of :: "xpc \<Rightarrow> bool" where
  "in_calc_of (XRead k i) = True"
| "in_calc_of (XWrite k i s) = True"
| "in_calc_of _ = False"

text \<open>
  The stage whose handler is posted and not begun, or is running, if one is; the stage a task has
  reached.
\<close>

fun posted_stage :: "xpc \<Rightarrow> nat option" where
  "posted_stage (XAt k) = Some k"
| "posted_stage _ = None"

fun active :: "xpc \<Rightarrow> nat option" where
  "active (XRead k i) = Some k"
| "active (XWrite k i s) = Some k"
| "active (XBody k) = Some k"
| "active _ = None"

fun stage :: "chain \<Rightarrow> xpc \<Rightarrow> nat" where
  "stage ch (XAt k) = k"
| "stage ch (XRead k i) = k"
| "stage ch (XWrite k i s) = k"
| "stage ch (XBody k) = k"
| "stage ch _ = length ch"

text \<open>A task is well-formed: its stage is one of the chain, and \<open>calc\<close> runs only where the chain has it.\<close>

fun xpc_ok :: "chain \<Rightarrow> xpc \<Rightarrow> bool" where
  "xpc_ok ch (XAt k) \<longleftrightarrow> k < length ch"
| "xpc_ok ch (XRead k i) \<longleftrightarrow> k < length ch \<and> snd (ch ! k) \<and> i \<le> num_calc"
| "xpc_ok ch (XWrite k i s) \<longleftrightarrow> k < length ch \<and> snd (ch ! k) \<and> i < num_calc"
| "xpc_ok ch (XBody k) \<longleftrightarrow> k < length ch"
| "xpc_ok ch XEnd \<longleftrightarrow> True"
| "xpc_ok ch (XCrash e) \<longleftrightarrow> False"

text \<open>The cache in the middle of a \<open>calc\<close>, after \<open>m\<close> complete ones.\<close>

fun calc_view :: "nat \<Rightarrow> xpc \<Rightarrow> cachetype \<Rightarrow> bool" where
  "calc_view m (XRead k i) c \<longleftrightarrow> c = cache_at m i"
| "calc_view m (XWrite k i s) c \<longleftrightarrow>
     s = counter_string m \<and> c = (cache_at m i)(get_key i \<mapsto> counter_string m)"
| "calc_view m _ c \<longleftrightarrow> c = cache_at m 0"

definition xtotal :: "chain \<Rightarrow> xpc list \<Rightarrow> nat" where
  "xtotal ch ts = sum_list (map (xcalcs ch) ts)"

text \<open>
  The cache as the tasks have left it: while nobody calculates it holds the counters at the number of
  completed calculations, and the one that calculates is somewhere in between.
\<close>

definition cache_inv :: "nat \<Rightarrow> xpc list \<Rightarrow> cachetype \<Rightarrow> bool" where
  "cache_inv m ts c \<longleftrightarrow>
     (\<forall>a < length ts. in_calc_of (ts ! a) \<longrightarrow> calc_view m (ts ! a) c) \<and>
     ((\<forall>a < length ts. \<not> in_calc_of (ts ! a)) \<longrightarrow> c = cache_at m 0)"

lemma calcs_before_Suc:
  "k < length ch \<Longrightarrow> calcs_before ch (Suc k) = calcs_before ch k + of_bool (snd (ch ! k))"
  by (simp add: calcs_before_def take_Suc_conv_app_nth)

lemma calcs_before_le: "calcs_before ch k \<le> calcs_before ch (length ch)"
  by (simp add: calcs_before_def) (metis append_take_drop_id filter_append le_add1 length_append)

lemma calcs_before_0 [simp]: "calcs_before ch 0 = 0"
  by (simp add: calcs_before_def)

lemma xcalcs_le: "xpc_ok ch pc \<Longrightarrow> xcalcs ch pc \<le> calcs_before ch (length ch)"
  by (cases pc) (simp_all add: calcs_before_le)

lemma xcalcs_lt: "xpc_ok ch pc \<Longrightarrow> in_calc_of pc \<Longrightarrow> xcalcs ch pc < calcs_before ch (length ch)"
  using calcs_before_le [of ch "Suc (stage ch pc)"] by (cases pc) (auto simp: calcs_before_Suc)

lemma xtotal_update:
  "a < length ts \<Longrightarrow> xtotal ch (ts[a := pc]) + xcalcs ch (ts ! a) = xtotal ch ts + xcalcs ch pc"
  unfolding xtotal_def by (rule sum_list_update_map)

lemma xtotal_bound:
  assumes "\<forall>t \<in> set ts. xpc_ok ch t"
  shows "xtotal ch ts \<le> calcs_before ch (length ch) * length ts"
  using assms by (induction ts) (auto simp: xtotal_def dest: xcalcs_le)

lemma xtotal_room:
  assumes "\<forall>t \<in> set ts. xpc_ok ch t" and "a < length ts" and "in_calc_of (ts ! a)"
  shows "Suc (xtotal ch ts) \<le> calcs_before ch (length ch) * length ts"
proof -
  have "\<forall>t \<in> set (ts[a := XEnd]). xpc_ok ch t"
    using assms(1) set_update_subset_insert [of ts a XEnd] by auto
  from xtotal_bound [OF this] have "xtotal ch (ts[a := XEnd]) \<le> calcs_before ch (length ch) * length ts" by simp
  moreover have "xcalcs ch (ts ! a) < calcs_before ch (length ch)" using assms xcalcs_lt by simp
  ultimately show ?thesis using xtotal_update [OF assms(2), of ch XEnd] by simp
qed

text \<open>
  The handlers of an executor, read off the tasks: with \<open>posted_stage\<close> those that wait for it, with \<open>active\<close>
  those that run.
\<close>

definition handlers_at :: "(xpc \<Rightarrow> nat option) \<Rightarrow> chain \<Rightarrow> xpc list \<Rightarrow> exec \<Rightarrow> handler set" where
  "handlers_at f ch ts x = {(a, k). a < length ts \<and> f (ts ! a) = Some k \<and> fst (ch ! k) = x}"

lemma handlers_at_append:
  "handlers_at f ch (ts @ [pc]) x = handlers_at f ch ts x \<union>
     (case f pc of None \<Rightarrow> {} | Some k \<Rightarrow> if fst (ch ! k) = x then {(length ts, k)} else {})"
  by (auto simp: handlers_at_def nth_append split: if_splits option.splits)

lemma handlers_at_leave:
  "a < length ts \<Longrightarrow> f (ts ! a) = Some k \<Longrightarrow> f pc = None \<Longrightarrow>
   handlers_at f ch (ts[a := pc]) x = (if fst (ch ! k) = x then handlers_at f ch ts x - {(a, k)} else handlers_at f ch ts x)"
  by (auto simp: handlers_at_def nth_list_update split: if_splits)

lemma handlers_at_enter:
  "a < length ts \<Longrightarrow> f (ts ! a) = None \<Longrightarrow> f pc = Some k \<Longrightarrow>
   handlers_at f ch (ts[a := pc]) x = (if fst (ch ! k) = x then insert (a, k) (handlers_at f ch ts x) else handlers_at f ch ts x)"
  by (auto simp: handlers_at_def nth_list_update split: if_splits)

lemma handlers_at_same:
  "a < length ts \<Longrightarrow> f pc = f (ts ! a) \<Longrightarrow> handlers_at f ch (ts[a := pc]) x = handlers_at f ch ts x"
  by (auto simp: handlers_at_def nth_list_update split: if_splits)

lemma handlers_atI: "a < length ts \<Longrightarrow> f (ts ! a) = Some k \<Longrightarrow> (a, k) \<in> handlers_at f ch ts (fst (ch ! k))"
  by (simp add: handlers_at_def)

text \<open>The handlers on their way out belong to stages that their tasks have left.\<close>

definition returning_ok :: "chain \<Rightarrow> xpc list \<Rightarrow> (exec \<times> handler) set \<Rightarrow> bool" where
  "returning_ok ch ts R \<longleftrightarrow> finite R \<and> (\<forall>(x, a, k) \<in> R. a < length ts \<and> k < stage ch (ts ! a))"

lemma returning_ok_update:
  "returning_ok ch ts R \<Longrightarrow> a < length ts \<Longrightarrow> stage ch (ts ! a) \<le> stage ch pc \<Longrightarrow> returning_ok ch (ts[a := pc]) R"
  by (fastforce simp: returning_ok_def nth_list_update)

lemma returning_ok_append: "returning_ok ch ts R \<Longrightarrow> returning_ok ch (ts @ [pc]) R"
  by (fastforce simp: returning_ok_def nth_append)

lemma returning_ok_insert:
  "returning_ok ch ts R \<Longrightarrow> a < length ts \<Longrightarrow> k < stage ch (ts ! a) \<Longrightarrow> returning_ok ch ts (insert (x, a, k) R)"
  by (auto simp: returning_ok_def)

lemma returning_ok_leave:
  "returning_ok ch ts R \<Longrightarrow> a < length ts \<Longrightarrow> stage ch (ts ! a) = k \<Longrightarrow> k < stage ch pc \<Longrightarrow>
   returning_ok ch (ts[a := pc]) (insert (x, a, k) R)"
  by (rule returning_ok_insert [OF returning_ok_update]) auto

lemma active_stage: "active pc = Some k \<Longrightarrow> stage ch pc = k"
  by (cases pc) auto

lemma returning_not_active:
  "returning_ok ch ts R \<Longrightarrow> (x, h) \<in> R \<Longrightarrow> h \<notin> handlers_at active ch ts y"
  by (cases h) (fastforce simp: returning_ok_def handlers_at_def dest: active_stage [of _ _ ch])

subsubsection \<open>The cache\<close>

text \<open>Changes of a task outside of \<open>calc\<close>.\<close>

lemma cache_inv_outside:
  assumes "cache_inv m ts c" and "a < length ts" and "\<not> in_calc_of (ts ! a)" and "\<not> in_calc_of pc"
  shows "cache_inv m (ts[a := pc]) c"
proof -
  have "in_calc_of (ts[a := pc] ! b) \<longleftrightarrow> in_calc_of (ts ! b)" and
    "in_calc_of (ts ! b) \<Longrightarrow> ts[a := pc] ! b = ts ! b" for b
    using assms(2-) by (cases "b = a"; simp)+
  then show ?thesis using assms(1) by (simp add: cache_inv_def)
qed

lemma cache_inv_append: "cache_inv m ts c \<Longrightarrow> \<not> in_calc_of pc \<Longrightarrow> cache_inv m (ts @ [pc]) c"
  by (auto simp: cache_inv_def nth_append less_Suc_eq)

text \<open>A task that is alone in \<open>calc\<close> decides what the cache is.\<close>

lemma cache_inv_single:
  assumes "a < length ts" and "\<And>b. b < length ts \<Longrightarrow> in_calc_of (ts ! b) \<Longrightarrow> b = a" and "calc_view m pc c"
  shows "cache_inv m (ts[a := pc]) c"
  using assms by (cases pc) (auto simp: cache_inv_def nth_list_update)

lemma calc_step_view:
  assumes view: "calc_view m pc c" and "xpc_ok ch pc" and step: "calc_step pc c = Some (pc', c')"
    and room: "count_ok (Suc m)"
  shows "xpc_ok ch pc' \<and> xcalcs ch pc \<le> xcalcs ch pc' \<and> calc_view (m + (xcalcs ch pc' - xcalcs ch pc)) pc' c'"
proof (cases pc)
  case (XRead k i)
  then show ?thesis using assms
    by (auto simp: cache_index_at cache_at_num_calc calcs_before_Suc split: if_splits)
next
  case (XWrite k i str)
  then have c: "str = counter_string m" "c = (cache_at m i)(get_key i \<mapsto> counter_string m)" "i < num_calc"
    using view assms(2) by auto
  then have "c(get_key i \<mapsto> to_string (start_val + int (Suc m))) = cache_at m (Suc i)"
    using cache_at_Suc [OF c(3), of m] by (simp add: counter_def)
  then show ?thesis using XWrite step assms(2) c calc_value_counter [OF room] by auto
qed (use step in auto)

end
