(* ===== verification/StrandRun.thy ===== *)
theory StrandRun
  imports StrandTask
begin

section \<open>Chains on a serial executor are correct\<close>

text \<open>
  A chain whose calculations are all on the serial executor, run for \<open>n\<close> tasks over any library that
  satisfies \<open>executor_laws\<close>: the calculations exclude each other without a mutex, every schedule ends,
  and the main thread returns with all of them counted.
\<close>

definition chain_ok :: "chain \<Rightarrow> waiting \<Rightarrow> nat \<Rightarrow> bool" where
  "chain_ok ch how n \<longleftrightarrow> ch \<noteq> [] \<and> (\<forall>(x, c) \<in> set ch. c \<longrightarrow> x = Serial) \<and>
     (how = Promise \<longrightarrow> 0 < n) \<and> count_ok (calcs_before ch (length ch) * n)"

lemma chain_ok_serial: "chain_ok ch how n \<Longrightarrow> k < length ch \<Longrightarrow> snd (ch ! k) \<Longrightarrow> fst (ch ! k) = Serial"
  unfolding chain_ok_def by (metis (mono_tags, lifting) case_prod_unfold nth_mem)

definition ended :: "xpc list \<Rightarrow> nat" where
  "ended ts = sum_list (map (\<lambda>t. of_bool (t = XEnd)) ts)"

lemma ended_update:
  "a < length ts \<Longrightarrow> ended (ts[a := pc]) + of_bool (ts ! a = XEnd) = ended ts + of_bool (pc = XEnd)"
  unfolding ended_def by (rule sum_list_update_map)

lemma ended_le: "ended ts \<le> length ts"
  by (induction ts) (auto simp: ended_def)

lemma ended_all: "ended ts = length ts \<longleftrightarrow> all_ended ts"
proof (induction ts)
  case (Cons t ts)
  then show ?case using ended_le [of ts] by (auto simp: ended_def all_ended_def)
qed (simp add: ended_def all_ended_def)

definition xmain_ok :: "nat \<Rightarrow> xmain \<Rightarrow> xpc list \<Rightarrow> bool \<Rightarrow> bool" where
  "xmain_ok n m ts r = (case m of
     XPosting k \<Rightarrow> length ts = k \<and> k \<le> n
   | XWaiting \<Rightarrow> length ts = n \<and> r
   | XReturned \<Rightarrow> length ts = n \<and> all_ended ts)"

text \<open>
  The steps a task has left at most: 25 for a stage, the return of its handler included, and those of
  the main thread.
\<close>

fun xmes :: "chain \<Rightarrow> xpc \<Rightarrow> nat" where
  "xmes ch (XAt k) = 25 * (length ch - k)"
| "xmes ch (XRead k i) = 25 * (length ch - Suc k) + 3 + 2 * (num_calc - i)"
| "xmes ch (XWrite k i s) = 25 * (length ch - Suc k) + 2 + 2 * (num_calc - i)"
| "xmes ch (XBody k) = 25 * (length ch - Suc k) + 2"
| "xmes ch _ = 0"

definition xmain_mes :: "chain \<Rightarrow> nat \<Rightarrow> xmain \<Rightarrow> nat" where
  "xmain_mes ch n m = (case m of
     XPosting a \<Rightarrow> (n - a) * (25 * length ch + 1) + 2 | XWaiting \<Rightarrow> 1 | XReturned \<Rightarrow> 0)"

definition exec_mes :: "chain \<Rightarrow> nat \<Rightarrow> 'e xstate \<Rightarrow> nat" where
  "exec_mes ch n s = xmain_mes ch n (x_main s) + sum_list (map (xmes ch) (x_tasks s)) + card (x_returning s)"

lemma xmes_calc: "xpc_ok ch pc \<Longrightarrow> calc_step pc c = Some (pc', c') \<Longrightarrow> xmes ch pc' < xmes ch pc"
  by (cases pc) (auto split: if_splits prod.splits sum.splits)

lemma xmes_begin: "k < length ch \<Longrightarrow> xmes ch (if c then XRead k 0 else XBody k) < xmes ch (XAt k)"
  using Suc_diff_Suc [of k "length ch"] by (auto simp: num_calc_def)

lemma xmes_update:
  "a < length ts \<Longrightarrow> sum_list (map (xmes ch) (ts[a := pc])) + xmes ch (ts ! a) = sum_list (map (xmes ch) ts) + xmes ch pc"
  by (rule sum_list_update_map)

locale serial_chain = executor_laws L pending running ready
  for L :: "'e executors" and pending running :: "exec \<Rightarrow> 'e \<Rightarrow> handler set" and ready :: "'e \<Rightarrow> bool" +
  fixes ch :: chain and how :: waiting and n :: nat
  assumes chain: "chain_ok ch how n"
begin

text \<open>What the library holds agrees with where the tasks are.\<close>

definition lib_inv :: "'e xstate \<Rightarrow> bool" where
  "lib_inv s \<longleftrightarrow> returning_ok ch (x_tasks s) (x_returning s) \<and>
     (\<forall>x. pending x (x_lib s) = handlers_at posted_stage ch (x_tasks s) x) \<and>
     (\<forall>x. running x (x_lib s) = handlers_at active ch (x_tasks s) x \<union> {h. (x, h) \<in> x_returning s}) \<and>
     (\<forall>h \<in> running Serial (x_lib s). \<forall>h' \<in> running Serial (x_lib s). h = h')"

definition count_inv :: "'e xstate \<Rightarrow> bool" where
  "count_inv s \<longleftrightarrow> x_completed s = ended (x_tasks s) \<and> (x_done s \<longleftrightarrow> 0 < n \<and> ended (x_tasks s) = n) \<and>
     xmain_ok n (x_main s) (x_tasks s) (ready (x_lib s))"

definition exec_inv :: "'e xstate \<Rightarrow> bool" where
  "exec_inv s \<longleftrightarrow> (\<forall>t \<in> set (x_tasks s). xpc_ok ch t) \<and> lib_inv s \<and> count_inv s \<and>
     cache_inv (xtotal ch (x_tasks s)) (x_tasks s) (x_cache s)"

lemma running_serial:
  "lib_inv s \<Longrightarrow> h \<in> running Serial (x_lib s) \<Longrightarrow> h' \<in> running Serial (x_lib s) \<Longrightarrow> h = h'"
  unfolding lib_inv_def by blast

text \<open>Two tasks that calculate are the same one, since both run on the serial executor.\<close>

lemma calc_running:
  assumes "exec_inv s" and "a < length (x_tasks s)" and "in_calc_of (x_tasks s ! a)"
  obtains k where "(a, k) \<in> running Serial (x_lib s)"
proof -
  have "xpc_ok ch (x_tasks s ! a)" using assms(1,2) by (simp add: exec_inv_def)
  with assms(3) obtain k where k: "active (x_tasks s ! a) = Some k" "k < length ch" "snd (ch ! k)"
    by (cases "x_tasks s ! a") auto
  then have "(a, k) \<in> handlers_at active ch (x_tasks s) Serial"
    using handlers_atI [OF assms(2), of active k ch] chain_ok_serial [OF chain k(2,3)] by simp
  with that show ?thesis using assms(1) by (auto simp: exec_inv_def lib_inv_def)
qed

lemma calc_exclusive:
  assumes "exec_inv s" and "a < length (x_tasks s)" "in_calc_of (x_tasks s ! a)"
    and "b < length (x_tasks s)" "in_calc_of (x_tasks s ! b)"
  shows "a = b"
proof -
  obtain k j where "(a, k) \<in> running Serial (x_lib s)" "(b, j) \<in> running Serial (x_lib s)"
    using calc_running assms by metis
  then show ?thesis using running_serial [OF _, of s "(a, k)" "(b, j)"] assms(1) by (simp add: exec_inv_def)
qed

lemma exec_inv_move:
  assumes "exec_inv s" and "x_tasks t = (x_tasks s)[a := pc]" and "xpc_ok ch pc" and "lib_inv t" and "count_inv t"
    and "cache_inv (xtotal ch (x_tasks t)) (x_tasks t) (x_cache t)"
  shows "exec_inv t"
  using assms set_update_subset_insert [of "x_tasks s" a pc] by (auto simp: exec_inv_def)

lemma xtotal_same: "a < length ts \<Longrightarrow> xcalcs ch pc = xcalcs ch (ts ! a) \<Longrightarrow> xtotal ch (ts[a := pc]) = xtotal ch ts"
  using xtotal_update [of a ts ch pc] by simp

lemma xmain_ok_update:
  "xmain_ok n m ts r \<Longrightarrow> a < length ts \<Longrightarrow> ts ! a \<noteq> XEnd \<Longrightarrow> xmain_ok n m (ts[a := pc]) r"
  by (auto simp: xmain_ok_def all_ended_def split: xmain.splits)

text \<open>A task that moves on without coming to its end leaves the counters alone.\<close>

lemma count_inv_move:
  assumes "count_inv s" and "a < length (x_tasks s)" and "x_tasks s ! a \<noteq> XEnd" and "pc \<noteq> XEnd"
    and "x_tasks t = (x_tasks s)[a := pc]" and "x_completed t = x_completed s" and "x_done t = x_done s"
    and "x_main t = x_main s" and "ready (x_lib t) = ready (x_lib s)"
  shows "count_inv t"
  using assms ended_update [of a "x_tasks s" pc] xmain_ok_update [of "x_main s" "x_tasks s" "ready (x_lib s)" a pc]
  by (simp add: count_inv_def)

text \<open>The steps, one by one.\<close>

lemma inv_post_task:
  assumes inv: "exec_inv s" and "x_main s = XPosting a" and "a < n"
  shows "exec_inv (s\<lparr>x_main := XPosting (Suc a), x_tasks := x_tasks s @ [XAt 0],
    x_lib := ex_post L (fst (ch ! 0)) (a, 0) (x_lib s)\<rparr>)"
proof -
  have len: "length (x_tasks s) = a" using assms by (simp add: exec_inv_def count_inv_def xmain_ok_def)
  have "0 < length ch" using chain by (simp add: chain_ok_def)
  moreover have "ended (x_tasks s) \<noteq> n" using len assms(3) ended_le [of "x_tasks s"] by simp
  moreover have "ended (x_tasks s @ [XAt 0]) = ended (x_tasks s)" by (simp add: ended_def)
  ultimately show ?thesis using inv assms(3) len
    by (auto simp: exec_inv_def lib_inv_def count_inv_def xmain_ok_def library handlers_at_append
        returning_ok_append xtotal_def cache_inv_append)
qed

lemma inv_posted:
  assumes inv: "exec_inv s" and "x_main s = XPosting a" and "\<not> a < n"
  shows "exec_inv (s\<lparr>x_main := XWaiting, x_lib := ex_run L (x_lib s)\<rparr>)"
  using assms by (auto simp: exec_inv_def lib_inv_def count_inv_def xmain_ok_def library)

lemma lib_inv_begin:
  assumes inv: "lib_inv s" and a: "a < length (x_tasks s)" "x_tasks s ! a = XAt k"
    and e: "ex_begin L (fst (ch ! k)) (a, k) (x_lib s) = Some e" and pc: "active pc = Some k" "posted_stage pc = None"
  shows "lib_inv (s\<lparr>x_tasks := (x_tasks s)[a := pc], x_lib := e\<rparr>)"
proof -
  have "stage ch pc = k" using pc(1) by (rule active_stage)
  then have "returning_ok ch ((x_tasks s)[a := pc]) (x_returning s)"
    using inv a by (auto simp: lib_inv_def intro: returning_ok_update)
  moreover have "\<forall>h \<in> running Serial e. \<forall>h' \<in> running Serial e. h = h'"
    using inv begin_serial [of "(a, k)" "x_lib s" e] begin_running [OF e, of Serial] e
    by (cases "fst (ch ! k) = Serial") (auto simp: lib_inv_def)
  ultimately show ?thesis using inv a pc
    by (simp add: lib_inv_def begin_pending [OF e] begin_running [OF e]
        handlers_at_leave [of a _ posted_stage k] handlers_at_enter [of a _ active _ k])
qed

lemma inv_begin:
  assumes inv: "exec_inv s" and a: "a < length (x_tasks s)" "x_tasks s ! a = XAt k"
    and e: "ex_begin L (fst (ch ! k)) (a, k) (x_lib s) = Some e"
  shows "exec_inv (s\<lparr>x_tasks := (x_tasks s)[a := if snd (ch ! k) then XRead k 0 else XBody k], x_lib := e\<rparr>)"
proof -
  let ?pc = "if snd (ch ! k) then XRead k 0 else XBody k" and ?m = "xtotal ch (x_tasks s)"
  have k: "k < length ch" using inv a nth_mem [OF a(1)] by (auto simp: exec_inv_def)
  have "lib_inv s" using inv by (simp add: exec_inv_def)
  then have lib: "lib_inv (s\<lparr>x_tasks := (x_tasks s)[a := ?pc], x_lib := e\<rparr>)"
    by (rule lib_inv_begin [OF _ a e]) simp_all
  have count: "count_inv (s\<lparr>x_tasks := (x_tasks s)[a := ?pc], x_lib := e\<rparr>)"
    by (rule count_inv_move [of s a ?pc]) (use inv a begin_ready [OF e] in \<open>simp_all add: exec_inv_def\<close>)
  have same: "xtotal ch ((x_tasks s)[a := ?pc]) = ?m"
    using xtotal_same [OF a(1), of ?pc] a(2) k by (simp add: calcs_before_Suc)
  have "cache_inv ?m ((x_tasks s)[a := ?pc]) (x_cache s)"
  proof (cases "snd (ch ! k)")
    case True
    then have "fst (ch ! k) = Serial" using chain_ok_serial [OF chain k] by simp
    then have "running Serial (x_lib s) = {}" using begin_serial e by auto
    then have quiet: "\<not> in_calc_of (x_tasks s ! b)" if "b < length (x_tasks s)" for b
      using calc_running [OF inv that] by auto
    then have "x_cache s = cache_at ?m 0" using inv by (simp add: exec_inv_def cache_inv_def)
    then show ?thesis using True quiet cache_inv_single [OF a(1), of ?m "XRead k 0"] by auto
  next
    case False
    then show ?thesis using inv a by (auto simp: exec_inv_def intro: cache_inv_outside)
  qed
  with same have "cache_inv (xtotal ch ((x_tasks s)[a := ?pc])) ((x_tasks s)[a := ?pc]) (x_cache s)" by simp
  then show ?thesis using lib count k by (intro exec_inv_move [OF inv, of _ a ?pc]) simp_all
qed

lemma calc_step_pcs:
  "calc_step pc c = Some (pc', c') \<Longrightarrow> xpc_ok ch pc' \<Longrightarrow> in_calc_of pc \<and> active pc' = active pc \<and> pc \<noteq> XEnd \<and> pc' \<noteq> XEnd \<and>
     posted_stage pc = None \<and> posted_stage pc' = None \<and> stage ch pc' = stage ch pc"
  by (cases pc) (auto split: if_splits prod.splits sum.splits)

lemma inv_calc:
  assumes inv: "exec_inv s" and a: "a < length (x_tasks s)"
    and step: "calc_step (x_tasks s ! a) (x_cache s) = Some (pc, cache)"
  shows "exec_inv (s\<lparr>x_tasks := (x_tasks s)[a := pc], x_cache := cache\<rparr>)"
proof -
  let ?ts = "x_tasks s" and ?m = "xtotal ch (x_tasks s)"
  have ok: "\<forall>t \<in> set ?ts. xpc_ok ch t" "xpc_ok ch (?ts ! a)" and cinv: "cache_inv ?m ?ts (x_cache s)"
    using inv a by (simp_all add: exec_inv_def)
  have ina: "in_calc_of (?ts ! a)" using step by (cases "?ts ! a") auto
  have "length ?ts \<le> n" using inv by (auto simp: exec_inv_def count_inv_def xmain_ok_def split: xmain.splits)
  then have "calcs_before ch (length ch) * length ?ts \<le> calcs_before ch (length ch) * n" by simp
  with xtotal_room [OF ok(1) a ina] have "Suc ?m \<le> calcs_before ch (length ch) * n" by linarith
  then have room: "count_ok (Suc ?m)" using chain count_ok_mono by (auto simp: chain_ok_def)
  have view: "calc_view ?m (?ts ! a) (x_cache s)" using cinv a ina by (simp add: cache_inv_def)
  note new = calc_step_view [OF view ok(2) step room]
  then have pcs: "active pc = active (?ts ! a)" "?ts ! a \<noteq> XEnd" "pc \<noteq> XEnd" "posted_stage (?ts ! a) = None"
    "posted_stage pc = None" "stage ch pc = stage ch (?ts ! a)"
    using calc_step_pcs [OF step] by auto
  have "xtotal ch (?ts[a := pc]) = ?m + (xcalcs ch pc - xcalcs ch (?ts ! a))"
    using xtotal_update [OF a, of ch pc] new by simp
  then have "calc_view (xtotal ch (?ts[a := pc])) pc cache" using new by (simp only:)
  then have "cache_inv (xtotal ch (?ts[a := pc])) (?ts[a := pc]) cache"
    using cache_inv_single [OF a] calc_exclusive [OF inv _ _ a ina] by simp
  moreover have "count_inv (s\<lparr>x_tasks := ?ts[a := pc], x_cache := cache\<rparr>)"
    by (rule count_inv_move [of s a pc]) (use inv a pcs in \<open>auto simp: exec_inv_def\<close>)
  moreover have "lib_inv (s\<lparr>x_tasks := ?ts[a := pc], x_cache := cache\<rparr>)"
    using inv a pcs by (simp add: exec_inv_def lib_inv_def handlers_at_same returning_ok_update)
  ultimately show ?thesis using new by (intro exec_inv_move [OF inv, of _ a pc]) simp_all
qed

text \<open>A handler that has handed over, or completed its task, stays with its executor until it returns.\<close>

lemma running_leave:
  assumes "a < length ts" and "ts ! a = XBody k" and "active pc = None"
  shows "handlers_at active ch (ts[a := pc]) x \<union> {h. (x, h) \<in> insert (fst (ch ! k), a, k) R} =
    handlers_at active ch ts x \<union> {h. (x, h) \<in> R}"
  using assms handlers_atI [OF assms(1), of active k ch]
  by (auto simp: handlers_at_leave [of a ts active k] split: if_splits)

lemma inv_post_next:
  assumes inv: "exec_inv s" and a: "a < length (x_tasks s)" "x_tasks s ! a = XBody k" and k: "Suc k < length ch"
  shows "exec_inv (s\<lparr>x_tasks := (x_tasks s)[a := XAt (Suc k)],
      x_returning := insert (fst (ch ! k), (a, k)) (x_returning s),
      x_lib := ex_post L (fst (ch ! Suc k)) (a, Suc k) (x_lib s)\<rparr>)" (is "exec_inv ?t")
proof -
  have "returning_ok ch ((x_tasks s)[a := XAt (Suc k)]) (insert (fst (ch ! k), a, k) (x_returning s))"
    using inv a by (auto simp: exec_inv_def lib_inv_def intro!: returning_ok_leave)
  then have "lib_inv ?t"
    using inv a running_leave [OF a, of "XAt (Suc k)" _ "x_returning s"]
    by (simp add: exec_inv_def lib_inv_def library handlers_at_enter [of a _ posted_stage "XAt (Suc k)" "Suc k"])
  moreover have "count_inv ?t"
    by (rule count_inv_move [of s a "XAt (Suc k)"]) (use inv a library in \<open>auto simp: exec_inv_def\<close>)
  moreover have "cache_inv (xtotal ch (x_tasks ?t)) (x_tasks ?t) (x_cache ?t)"
    using inv a xtotal_same [OF a(1), of "XAt (Suc k)"] by (auto simp: exec_inv_def intro: cache_inv_outside)
  ultimately show ?thesis using k by (intro exec_inv_move [OF inv, of _ a "XAt (Suc k)"]) simp_all
qed

lemma inv_complete:
  assumes inv: "exec_inv s" and a: "a < length (x_tasks s)" "x_tasks s ! a = XBody k" and k: "\<not> Suc k < length ch"
  shows "exec_inv (s\<lparr>x_tasks := (x_tasks s)[a := XEnd], x_completed := Suc (x_completed s),
      x_done := (x_done s \<or> Suc (x_completed s) = n),
      x_returning := insert (fst (ch ! k), (a, k)) (x_returning s)\<rparr>)" (is "exec_inv ?t")
proof -
  have "k < length ch" using inv a nth_mem [OF a(1)] by (auto simp: exec_inv_def)
  with k have last: "length ch = Suc k" by simp
  then have "returning_ok ch ((x_tasks s)[a := XEnd]) (insert (fst (ch ! k), a, k) (x_returning s))"
    using inv a by (auto simp: exec_inv_def lib_inv_def intro!: returning_ok_leave)
  then have "lib_inv ?t"
    using inv a running_leave [OF a, of XEnd _ "x_returning s"]
    by (simp add: exec_inv_def lib_inv_def handlers_at_same [of a _ posted_stage])
  moreover have more: "ended ((x_tasks s)[a := XEnd]) = Suc (ended (x_tasks s))"
    using ended_update [OF a(1), of XEnd] a(2) by simp
  moreover have "length (x_tasks s) \<le> n"
    using inv by (auto simp: exec_inv_def count_inv_def xmain_ok_def split: xmain.splits)
  then have "Suc (ended (x_tasks s)) \<le> n" using more ended_le [of "(x_tasks s)[a := XEnd]"] by simp
  then have "count_inv ?t"
    using inv a more xmain_ok_update [of "x_main s" "x_tasks s" "ready (x_lib s)" a XEnd]
    by (auto simp: exec_inv_def count_inv_def)
  moreover have "cache_inv (xtotal ch (x_tasks ?t)) (x_tasks ?t) (x_cache ?t)"
    using inv a last xtotal_same [OF a(1), of XEnd] by (auto simp: exec_inv_def intro: cache_inv_outside)
  ultimately show ?thesis by (intro exec_inv_move [OF inv, of _ a XEnd]) simp_all
qed

lemma inv_return:
  assumes inv: "exec_inv s" and r: "(x, h) \<in> x_returning s"
  shows "exec_inv (s\<lparr>x_returning := x_returning s - {(x, h)}, x_lib := ex_return L x h (x_lib s)\<rparr>)"
proof -
  have ok: "returning_ok ch (x_tasks s) (x_returning s)" using inv by (simp add: exec_inv_def lib_inv_def)
  then have "returning_ok ch (x_tasks s) (x_returning s - {(x, h)})" by (auto simp: returning_ok_def)
  then show ?thesis using inv returning_not_active [OF ok r]
    by (auto simp: exec_inv_def lib_inv_def count_inv_def library)
qed

lemma inv_wait:
  assumes inv: "exec_inv s" and "x_main s = XWaiting" and "x_done s \<or> all_ended (x_tasks s)"
  shows "exec_inv (s\<lparr>x_main := XReturned\<rparr>)"
  using assms by (auto simp: exec_inv_def lib_inv_def count_inv_def xmain_ok_def simp flip: ended_all)

lemma exec_inv_step: "exec_inv s \<Longrightarrow> exec_step L ch how n s t \<Longrightarrow> exec_inv t"
  by (erule exec_step.cases)
    (simp_all only: inv_post_task inv_posted inv_begin inv_calc inv_post_next inv_complete inv_return inv_wait simp_thms)

subsection \<open>Every schedule ends\<close>

lemma exec_mes_step:
  assumes inv: "exec_inv s" and step: "exec_step L ch how n s t"
  shows "exec_mes ch n t < exec_mes ch n s"
proof -
  have fin: "finite (x_returning s)" using inv by (simp add: exec_inv_def lib_inv_def returning_ok_def)
  have ok: "xpc_ok ch (x_tasks s ! a)" if "a < length (x_tasks s)" for a using inv that by (simp add: exec_inv_def)
  note up = xmes_update [of _ "x_tasks s" ch]
  show ?thesis
    using step
  proof cases
    case (post_task a)
    then have "n - a = Suc (n - Suc a)" by simp
    then show ?thesis using post_task by (simp add: exec_mes_def xmain_mes_def)
  next
    case (begin_handler a k e)
    then show ?thesis using up [of a "if snd (ch ! k) then XRead k 0 else XBody k"] ok [of a]
      xmes_begin [of k ch "snd (ch ! k)"] by (simp add: exec_mes_def)
  next
    case (in_calc a pc cache)
    then show ?thesis using up [of a pc] xmes_calc [OF ok in_calc(3)] by (simp add: exec_mes_def)
  next
    case (post_next a k)
    then show ?thesis using up [of a "XAt (Suc k)"] card_insert_if [OF fin, of "(fst (ch ! k), a, k)"]
      by (simp add: exec_mes_def split: if_splits)
  next
    case (complete a k)
    then show ?thesis using up [of a XEnd] card_insert_if [OF fin, of "(fst (ch ! k), a, k)"]
      by (simp add: exec_mes_def split: if_splits)
  next
    case (return_handler x h)
    then show ?thesis using card_Diff1_less [OF fin return_handler(2)] by (simp add: exec_mes_def)
  qed (simp_all add: exec_mes_def xmain_mes_def)
qed

lemma calc_step_total: "in_calc_of pc \<Longrightarrow> \<exists>pc' c'. calc_step pc c = Some (pc', c')"
  by (cases pc) (auto split: prod.splits sum.splits)

lemma handler_goes_on:
  assumes "a < length (x_tasks s)" and "active (x_tasks s ! a) \<noteq> None"
  shows "\<exists>t. exec_step L ch how n s t"
proof (cases "in_calc_of (x_tasks s ! a)")
  case True
  then show ?thesis using calc_step_total assms(1) by (blast intro: exec_step.in_calc)
next
  case False
  with assms(2) obtain k where "x_tasks s ! a = XBody k" by (cases "x_tasks s ! a") auto
  with assms(1) show ?thesis by (cases "Suc k < length ch") (blast intro: exec_step.post_next exec_step.complete)+
qed

text \<open>When all handlers have returned and none is begun, the library begins one that was posted.\<close>

lemma library_goes_on:
  assumes inv: "exec_inv s" and "x_main s = XWaiting" and "x_returning s = {}"
    and quiet: "\<And>b. b < length (x_tasks s) \<Longrightarrow> active (x_tasks s ! b) = None"
    and a: "a < length (x_tasks s)" "x_tasks s ! a = XAt k"
  shows "\<exists>t. exec_step L ch how n s t"
proof -
  have lib: "lib_inv s" and "ready (x_lib s)" using assms(1,2) by (simp_all add: exec_inv_def count_inv_def xmain_ok_def)
  moreover have "running y (x_lib s) = {}" for y
    using lib assms(3) quiet by (auto simp: lib_inv_def handlers_at_def)
  moreover have "(a, k) \<in> pending (fst (ch ! k)) (x_lib s)"
    using lib handlers_atI [OF a(1), of posted_stage k ch] a(2) by (simp add: lib_inv_def)
  ultimately obtain y b j e where e: "ex_begin L y (b, j) (x_lib s) = Some e"
    using not_forgotten [of "x_lib s" "(a, k)"] by (metis surj_pair)
  then have "(b, j) \<in> handlers_at posted_stage ch (x_tasks s) y"
    using begin_posted [OF e] lib by (simp add: lib_inv_def)
  then have "b < length (x_tasks s)" "x_tasks s ! b = XAt j" "y = fst (ch ! j)"
    by (auto simp: handlers_at_def elim: posted_stage.elims)
  with e show ?thesis by (blast intro: exec_step.begin_handler)
qed

lemma exec_progress:
  assumes inv: "exec_inv s" and "x_main s \<noteq> XReturned"
  shows "\<exists>t. exec_step L ch how n s t"
proof (cases "x_main s")
  case (XPosting a)
  then show ?thesis by (cases "a < n") (blast intro: exec_step.post_task exec_step.posted)+
next
  case XWaiting
  then have len: "length (x_tasks s) = n" using inv by (simp add: exec_inv_def count_inv_def xmain_ok_def)
  show ?thesis
  proof (cases "all_ended (x_tasks s)")
    case True
    then have "how = Promise \<Longrightarrow> x_done s"
      using inv chain len ended_all [of "x_tasks s"] by (simp add: exec_inv_def count_inv_def chain_ok_def)
    with True XWaiting show ?thesis by (cases how) (blast intro: exec_step.wait_promise exec_step.wait_all)+
  next
    case False
    then obtain a where a: "a < length (x_tasks s)" "x_tasks s ! a \<noteq> XEnd"
      by (auto simp: all_ended_def in_set_conv_nth)
    have ok: "xpc_ok ch (x_tasks s ! b)" if "b < length (x_tasks s)" for b using inv that by (simp add: exec_inv_def)
    consider "x_returning s \<noteq> {}"
      | (busy) b where "b < length (x_tasks s)" "active (x_tasks s ! b) \<noteq> None"
      | (quiet) "x_returning s = {}" "\<And>b. b < length (x_tasks s) \<Longrightarrow> active (x_tasks s ! b) = None" by blast
    then show ?thesis
    proof cases
      case busy
      then show ?thesis using handler_goes_on by blast
    next
      case quiet
      then obtain k where "x_tasks s ! a = XAt k" using a ok [OF a(1)] quiet(2) [OF a(1)] by (cases "x_tasks s ! a") auto
      then show ?thesis using library_goes_on [OF inv XWaiting quiet a(1)] by blast
    qed (auto intro: exec_step.return_handler)
  qed
qed (use assms in simp)

definition exec_start :: "'e xstate \<Rightarrow> bool" where
  "exec_start s \<longleftrightarrow> (\<exists>e. s = exec_init e \<and> (\<forall>x. pending x e = {} \<and> running x e = {}))"

lemma exec_start_inv: "exec_start s \<Longrightarrow> exec_inv s"
  using chain by (auto simp: exec_start_def exec_init_def exec_inv_def lib_inv_def count_inv_def xmain_ok_def
      returning_ok_def handlers_at_def cache_inv_def xtotal_def ended_def)

end

sublocale serial_chain \<subseteq> terminating_system exec_start "exec_step L ch how n" exec_inv "\<lambda>s. x_main s = XReturned" "exec_mes ch n"
  by unfold_locales (auto intro: exec_start_inv exec_inv_step exec_progress exec_mes_step)

context serial_chain
begin

lemma returned_cache:
  assumes "exec_inv s" and "x_main s = XReturned"
  shows "x_cache s = cache_at (calcs_before ch (length ch) * n) 0"
proof -
  have ts: "x_tasks s = replicate n XEnd"
    using assms by (auto simp: exec_inv_def count_inv_def xmain_ok_def all_ended_def intro!: replicate_eqI)
  then show ?thesis using assms(1) by (simp add: exec_inv_def cache_inv_def xtotal_def sum_list_replicate mult.commute)
qed

text \<open>
  What a schedule from idle executors can do: the calculations exclude each other, none fails, the
  schedule is bounded and not stuck before the main thread returns, and then all calculations are
  counted.
\<close>

lemma chain_correct:
  assumes idle: "\<And>x. pending x e = {} \<and> running x e = {}" and steps: "(exec_step L ch how n ^^ m) (exec_init e) s"
  shows "(\<forall>a < length (x_tasks s). \<forall>b < length (x_tasks s).
      in_calc_of (x_tasks s ! a) \<and> in_calc_of (x_tasks s ! b) \<longrightarrow> a = b) \<and>
    (\<forall>f. XCrash f \<notin> set (x_tasks s)) \<and> m \<le> n * (25 * length ch + 1) + 2 \<and>
    (x_main s \<noteq> XReturned \<longrightarrow> (\<exists>t. exec_step L ch how n s t)) \<and>
    (x_main s = XReturned \<longrightarrow> x_cache s = cache_at (calcs_before ch (length ch) * n) 0)"
proof -
  have start: "exec_start (exec_init e)" using idle by (auto simp: exec_start_def)
  then have inv: "exec_inv s" using steps by (meson inv_reachable relpowp_imp_rtranclp)
  have "m + exec_mes ch n s \<le> n * (25 * length ch + 1) + 2"
    using schedule_bounded [OF steps inv_init [OF start]] by (simp add: exec_mes_def xmain_mes_def exec_init_def)
  moreover have "XCrash f \<notin> set (x_tasks s)" for f using inv by (auto simp: exec_inv_def)
  ultimately show ?thesis
    using calc_exclusive [OF inv] progress [OF inv] returned_cache [OF inv] by auto
qed

lemma chain_returns:
  assumes "\<And>x. pending x e = {} \<and> running x e = {}"
  shows "\<exists>m s. (exec_step L ch how n ^^ m) (exec_init e) s \<and> x_main s = XReturned"
  using finishes [OF exec_start_inv, of "exec_init e"] assms by (auto simp: exec_start_def)

text \<open>The same for several copies side by side.\<close>

lemma copies_correct:
  assumes idle: "\<And>x. pending x e = {} \<and> running x e = {}"
    and steps: "(one_steps (exec_step L ch how n) ^^ m) (replicate k (exec_init e)) ss"
  shows "length ss = k \<and> m \<le> k * (n * (25 * length ch + 1) + 2) \<and>
    ((\<exists>s \<in> set ss. x_main s \<noteq> XReturned) \<longrightarrow> (\<exists>ts. one_steps (exec_step L ch how n) ss ts)) \<and>
    ((\<forall>s \<in> set ss. x_main s = XReturned) \<longrightarrow>
      (\<forall>s \<in> set ss. x_cache s = cache_at (calcs_before ch (length ch) * n) 0))"
proof -
  have "exec_inv (exec_init e)" using idle by (intro exec_start_inv) (auto simp: exec_start_def)
  then have start: "\<forall>s \<in> set (replicate k (exec_init e)). exec_inv s" by simp
  then have inv: "\<forall>s \<in> set ss. exec_inv s"
    using invariant_system.inv_steps [OF terminating_system.axioms(1) [OF copies] relpowp_imp_rtranclp [OF steps]] by blast
  have "m + sum_list (map (exec_mes ch n) ss) \<le> k * (n * (25 * length ch + 1) + 2)"
    using terminating_system.schedule_bounded [OF copies steps start]
    by (simp add: sum_list_replicate exec_mes_def xmain_mes_def exec_init_def)
  moreover have "length ss = k" using one_steps_length [OF relpowp_imp_rtranclp [OF steps]] by simp
  ultimately show ?thesis
    using terminating_system.progress [OF copies inv] returned_cache inv by auto
qed

lemma copies_return:
  assumes "\<And>x. pending x e = {} \<and> running x e = {}"
  shows "\<exists>m ss. (one_steps (exec_step L ch how n) ^^ m) (replicate k (exec_init e)) ss \<and> (\<forall>s \<in> set ss. x_main s = XReturned)"
proof -
  have "exec_inv (exec_init e)" using assms by (intro exec_start_inv) (auto simp: exec_start_def)
  then show ?thesis by (intro terminating_system.finishes [OF copies]) simp
qed

end

subsection \<open>The benchmarks\<close>

text \<open>
  What is claimed of a benchmark of 1000 tasks that calculate twice, for a schedule of \<open>m\<close> steps that
  leads to \<open>s\<close>: at most one task is in \<open>calc\<close>, and none has failed there; \<open>m\<close> is at most 151002; unless the
  main thread has returned there is a further step; and when it has returned, \<open>checkWork\<close> finds all
  counters exact.
\<close>

definition schedule_correct :: "('e xstate \<Rightarrow> 'e xstate \<Rightarrow> bool) \<Rightarrow> nat \<Rightarrow> 'e xstate \<Rightarrow> bool" where
  "schedule_correct step m s \<longleftrightarrow>
     (\<forall>a < length (x_tasks s). \<forall>b < length (x_tasks s).
        in_calc_of (x_tasks s ! a) \<and> in_calc_of (x_tasks s ! b) \<longrightarrow> a = b) \<and>
     (\<forall>f. XCrash f \<notin> set (x_tasks s)) \<and> m \<le> 151002 \<and>
     (x_main s \<noteq> XReturned \<longrightarrow> (\<exists>t. step s t)) \<and>
     (x_main s = XReturned \<longrightarrow> checkWork (x_cache s) (of_nat max_iter) = Inr [])"

lemma serial_chainI: "executor_laws L pending running ready \<Longrightarrow> chain_ok ch how n \<Longrightarrow> serial_chain L pending running ready ch how n"
  by (intro serial_chain.intro serial_chain_axioms.intro)

lemma two_calcs_correct:
  assumes laws: "executor_laws L pending running ready" and idle: "\<And>x. pending x e = {} \<and> running x e = {}"
    and ch: "chain_ok ch how max_iter" "calcs_before ch (length ch) = 2" "length ch \<le> 6"
    and steps: "(exec_step L ch how max_iter ^^ m) (exec_init e) s"
  shows "schedule_correct (exec_step L ch how max_iter) m s"
proof -
  note correct = serial_chain.chain_correct [OF serial_chainI [OF laws ch(1)] idle steps]
  moreover have "max_iter * (25 * length ch + 1) + 2 \<le> 151002" using ch(3) by (simp add: max_iter_def)
  then have "m \<le> 151002" using correct by linarith
  ultimately show ?thesis using ch(2) checkWork_exact by (simp add: schedule_correct_def)
qed

subsection \<open>A library\<close>

text \<open>
  An executable library that satisfies the laws: it keeps the handlers it has taken and begun in lists
  and begins any handler it has taken, on the serial executor only when nothing runs there.
\<close>

record list_lib =
  taken :: "(exec \<times> handler) list"
  begun :: "(exec \<times> handler) list"

definition list_lib_zero :: list_lib where
  "list_lib_zero = \<lparr>taken = [], begun = []\<rparr>"

definition list_executors :: "list_lib executors" where
  "list_executors = \<lparr>
     ex_post = (\<lambda>x h e. e\<lparr>taken := (x, h) # taken e\<rparr>),
     ex_begin = (\<lambda>x h e.
       if (x, h) \<in> set (taken e) \<and> (x = Serial \<longrightarrow> (\<forall>(y, _) \<in> set (begun e). y \<noteq> Serial))
       then Some (e\<lparr>taken := removeAll (x, h) (taken e), begun := (x, h) # begun e\<rparr>) else None),
     ex_return = (\<lambda>x h e. e\<lparr>begun := removeAll (x, h) (begun e)\<rparr>),
     ex_run = (\<lambda>e. e)\<rparr>"

definition list_pending :: "exec \<Rightarrow> list_lib \<Rightarrow> handler set" where
  "list_pending x e = {h. (x, h) \<in> set (taken e)}"

definition list_running :: "exec \<Rightarrow> list_lib \<Rightarrow> handler set" where
  "list_running x e = {h. (x, h) \<in> set (begun e)}"

lemmas list_lib_defs = list_executors_def list_pending_def list_running_def

lemma list_not_forgotten:
  assumes "h \<in> list_pending x e" and quiet: "\<And>y. list_running y e = {}"
  shows "\<exists>y h' e'. ex_begin list_executors y h' e = Some e'"
proof -
  have "begun e = []" using quiet by (cases "begun e") (fastforce simp: list_running_def)+
  then have "\<exists>e'. ex_begin list_executors x h e = Some e'" using assms(1) by (simp add: list_lib_defs)
  then show ?thesis by blast
qed

interpretation list_lib: executor_laws list_executors list_pending list_running "\<lambda>_. True"
  by unfold_locales
    (fastforce simp: list_lib_defs split: if_splits | (rule list_not_forgotten, assumption, assumption))+

lemma list_lib_zero [simp]: "list_pending x list_lib_zero = {}" "list_running x list_lib_zero = {}"
  by (simp_all add: list_pending_def list_running_def list_lib_zero_def)

end
