(* ===== verification/BoostBench.thy ===== *)
theory BoostBench
  imports StrandRun
begin

section \<open>Strands and coroutines of Boost.Asio (boostbench.cc)\<close>

text \<open>
  The four benchmarks, each as its chain of handlers (theory StrandTask) over any library that
  satisfies \<open>executor_laws\<close>, for one pass of the measurement loop. \<open>Serial\<close> is the strand, or the thread that
  runs the \<open>io_context\<close>; \<open>Timer\<close> stands for a \<open>steady_timer\<close>, whose handler begins when it expires; \<open>Pool\<close> is
  the pool itself. The main thread waits for the promise that the last task sets, or returns from
  \<open>io.run\<close> when the last task stops the \<open>io_context\<close>.
\<close>

text \<open>Step 1 on the strand, step 2 when the timer expires, step 3 on the strand.\<close>

definition boost_threadpool_chain :: chain where
  "boost_threadpool_chain = [(Serial, True), (Timer, False), (Serial, True)]"

definition BM_cachecalc_boost_threadpool :: "'e executors \<Rightarrow> 'e xstate \<Rightarrow> 'e xstate \<Rightarrow> bool" where
  "BM_cachecalc_boost_threadpool L = exec_step L boost_threadpool_chain Promise max_iter"

text \<open>
  The coroutine is spawned on the pool. \<open>dispatch\<close> to the strand resumes it inside a handler of the
  strand, for each calculation, and \<open>dispatch\<close> to the pool and the timer resume it on the pool. The
  strand's handler may return at any time after it has handed over.
\<close>

definition boost_coroutine_chain :: chain where
  "boost_coroutine_chain =
     [(Pool, False), (Serial, True), (Pool, False), (Timer, False), (Pool, False), (Serial, True)]"

definition BM_cachecalc_boost_coroutine :: "'e executors \<Rightarrow> 'e xstate \<Rightarrow> 'e xstate \<Rightarrow> bool" where
  "BM_cachecalc_boost_coroutine L = exec_step L boost_coroutine_chain Promise max_iter"

text \<open>The coroutine is spawned on the strand and resumes there after its timer.\<close>

definition boost_coroutine_strand_chain :: chain where
  "boost_coroutine_strand_chain = [(Serial, True), (Timer, False), (Serial, True)]"

definition BM_cachecalc_boost_coroutine_strand :: "'e executors \<Rightarrow> 'e xstate \<Rightarrow> 'e xstate \<Rightarrow> bool" where
  "BM_cachecalc_boost_coroutine_strand L = exec_step L boost_coroutine_strand_chain Promise max_iter"

definition boost_io_context_chain :: chain where
  "boost_io_context_chain = [(Serial, True), (Timer, False), (Serial, True)]"

definition BM_cachecalc_boost_coroutine_io_context :: "'e executors \<Rightarrow> 'e xstate \<Rightarrow> 'e xstate \<Rightarrow> bool" where
  "BM_cachecalc_boost_coroutine_io_context L = exec_step L boost_io_context_chain Promise max_iter"

lemmas boost_chains =
  boost_threadpool_chain_def boost_coroutine_chain_def boost_coroutine_strand_chain_def boost_io_context_chain_def

lemmas boost_benchmarks =
  BM_cachecalc_boost_threadpool_def BM_cachecalc_boost_coroutine_def
  BM_cachecalc_boost_coroutine_strand_def BM_cachecalc_boost_coroutine_io_context_def

lemma boost_chain_ok:
  "ch \<in> {boost_threadpool_chain, boost_coroutine_chain, boost_coroutine_strand_chain, boost_io_context_chain} \<Longrightarrow>
   chain_ok ch Promise max_iter \<and> calcs_before ch (length ch) = 2 \<and> length ch \<le> 6"
  by (auto simp: chain_ok_def boost_chains calcs_before_def max_iter_def count_ok_def start_val_def INT_MAX_def)

text \<open>
  C15. Every schedule of the four benchmarks on Boost.Asio is correct, for every library that runs the
  handlers of a strand one at a time and forgets none: without a mutex at most one task is ever in
  \<open>calc\<close>, and none fails there; a schedule has at most 151002 steps; it is never stuck before the main
  thread returns; and then \<open>checkWork\<close> finds all counters exact.
\<close>

theorem boost_correct:
  assumes "executor_laws L pending running ready" and "\<And>x. pending x e = {} \<and> running x e = {}"
    and "step \<in> {BM_cachecalc_boost_threadpool L, BM_cachecalc_boost_coroutine L,
      BM_cachecalc_boost_coroutine_strand L, BM_cachecalc_boost_coroutine_io_context L}"
    and "(step ^^ m) (exec_init e) s"
  shows "schedule_correct step m s"
proof -
  obtain ch where "step = exec_step L ch Promise max_iter" and "chain_ok ch Promise max_iter"
    "calcs_before ch (length ch) = 2" "length ch \<le> 6"
    using assms(3) boost_chain_ok by (auto simp: boost_benchmarks)
  with two_calcs_correct [OF assms(1,2)] assms(4) show ?thesis by blast
qed

interpretation boost_list: serial_chain list_executors list_pending list_running "\<lambda>_. True"
  boost_coroutine_chain Promise max_iter
  by unfold_locales (use boost_chain_ok in blast)

theorem boost_correct_witness:
  "\<exists>m s. (BM_cachecalc_boost_coroutine list_executors ^^ m) (exec_init list_lib_zero) s \<and> m \<le> 151002 \<and>
     x_main s = XReturned \<and> checkWork (x_cache s) (of_nat max_iter) = Inr []"
proof -
  obtain m s where s: "(BM_cachecalc_boost_coroutine list_executors ^^ m) (exec_init list_lib_zero) s" "x_main s = XReturned"
    using boost_list.chain_returns [of list_lib_zero] by (auto simp: BM_cachecalc_boost_coroutine_def)
  then show ?thesis
    using boost_correct [OF list_lib.executor_laws_axioms, of list_lib_zero _ m s] by (auto simp: schedule_correct_def)
qed

end
