(* ===== verification/FollyBench.thy ===== *)
theory FollyBench
  imports StrandRun
begin

section \<open>Strand executors of Folly (follybench.cc)\<close>

text \<open>
  The two benchmarks as chains of handlers over any library that satisfies \<open>executor_laws\<close>. \<open>Serial\<close> is the
  \<open>StrandExecutor\<close>, \<open>Pool\<close> the global CPU executor, \<open>Timer\<close> the time keeper that completes a sleep. The
  main thread waits until the library has collected all tasks.
\<close>

text \<open>
  The chain of futures: \<open>via\<close> runs the first calculation on the strand; the continuation that starts the
  sleep runs there too; \<open>via\<close> brings the last calculation back to the strand when the sleep is over.
\<close>

definition folly_future_chain :: chain where
  "folly_future_chain = [(Serial, True), (Serial, False), (Timer, False), (Serial, True)]"

definition BM_cachecalc_folly_future_parallel :: "'e executors \<Rightarrow> 'e xstate \<Rightarrow> 'e xstate \<Rightarrow> bool" where
  "BM_cachecalc_folly_future_parallel L = exec_step L folly_future_chain CollectAll max_iter"

text \<open>
  The coroutine: \<open>runAllTasks\<close> starts every task up to its first \<open>scheduleOn\<close>; around the calculations the
  task runs on the executor it was started on.
\<close>

definition folly_task_chain :: chain where
  "folly_task_chain = [(Serial, True), (Pool, False), (Timer, False), (Pool, False), (Serial, True), (Pool, False)]"

definition BM_cachecalc_folly_parallel :: "'e executors \<Rightarrow> 'e xstate \<Rightarrow> 'e xstate \<Rightarrow> bool" where
  "BM_cachecalc_folly_parallel L = exec_step L folly_task_chain CollectAll max_iter"

lemmas folly_benchmarks = BM_cachecalc_folly_future_parallel_def BM_cachecalc_folly_parallel_def

lemma folly_chain_ok:
  "ch \<in> {folly_future_chain, folly_task_chain} \<Longrightarrow>
   chain_ok ch CollectAll max_iter \<and> calcs_before ch (length ch) = 2 \<and> length ch \<le> 6"
  by (auto simp: chain_ok_def folly_future_chain_def folly_task_chain_def calcs_before_def max_iter_def
      count_ok_def start_val_def INT_MAX_def)

text \<open>
  C16. Every schedule of the two benchmarks on Folly is correct, for every library that runs the
  handlers of a strand one at a time and forgets none: at most one task is ever in \<open>calc\<close>, and none
  fails there; the schedule is bounded and never stuck before the main thread returns; and then
  \<open>checkWork\<close> finds all counters exact.
\<close>

theorem folly_correct:
  assumes "executor_laws L pending running ready" and "\<And>x. pending x e = {} \<and> running x e = {}"
    and "step \<in> {BM_cachecalc_folly_future_parallel L, BM_cachecalc_folly_parallel L}"
    and "(step ^^ m) (exec_init e) s"
  shows "schedule_correct step m s"
proof -
  obtain ch where "step = exec_step L ch CollectAll max_iter" and "chain_ok ch CollectAll max_iter"
    "calcs_before ch (length ch) = 2" "length ch \<le> 6"
    using assms(3) folly_chain_ok by (auto simp: folly_benchmarks)
  with two_calcs_correct [OF assms(1,2)] assms(4) show ?thesis by blast
qed

interpretation folly_list: serial_chain list_executors list_pending list_running "\<lambda>_. True"
  folly_future_chain CollectAll max_iter
  by unfold_locales (use folly_chain_ok in blast)

theorem folly_correct_witness:
  "\<exists>m s. (BM_cachecalc_folly_future_parallel list_executors ^^ m) (exec_init list_lib_zero) s \<and> m \<le> 151002 \<and>
     x_main s = XReturned \<and> checkWork (x_cache s) (of_nat max_iter) = Inr []"
proof -
  obtain m s where s: "(BM_cachecalc_folly_future_parallel list_executors ^^ m) (exec_init list_lib_zero) s"
    "x_main s = XReturned"
    using folly_list.chain_returns [of list_lib_zero] by (auto simp: folly_benchmarks)
  then show ?thesis
    using folly_correct [OF list_lib.executor_laws_axioms, of list_lib_zero _ m s] by (auto simp: schedule_correct_def)
qed

end
