(* ===== verification/SeastarBench.thy ===== *)
theory SeastarBench
  imports StrandRun
begin

section \<open>Shards of Seastar (seastar_bench.cc)\<close>

text \<open>
  The two benchmarks over any library that satisfies \<open>executor_laws\<close>. A shard runs its tasks one at a
  time, so \<open>Serial\<close> is the shard that owns the cache. A continuation that only submits the next
  operation belongs to the handler in front of it; \<open>Timer\<close> is the sleep, on whatever shard it is
  submitted to. \<open>parallel_for_each\<close> starts the tasks and waits for all of them.
\<close>

definition seastar_chain :: chain where
  "seastar_chain = [(Serial, True), (Timer, False), (Serial, True)]"

definition BM_SeastarHash :: "'e executors \<Rightarrow> 'e xstate \<Rightarrow> 'e xstate \<Rightarrow> bool" where
  "BM_SeastarHash L = exec_step L seastar_chain CollectAll max_iter"

text \<open>The shard that iteration \<open>f\<close> sleeps on, of \<open>count\<close> shards.\<close>

definition nshard :: "nat \<Rightarrow> nat" where
  "nshard count = min num_tasks count"

definition sleep_shard :: "nat \<Rightarrow> nat \<Rightarrow> nat" where
  "sleep_shard count f = f mod nshard count"

text \<open>
  With a cache on every shard, each shard runs its share of the iterations on its own
  \<open>cache_service\<close>; the shards run side by side, and \<open>verify\<close> runs on all of them when all have finished.
\<close>

definition iters_per_shard :: "nat \<Rightarrow> nat" where
  "iters_per_shard n_shards = max_iter div n_shards"

definition BM_SeastarShardedCacheParallel :: "'e executors \<Rightarrow> nat \<Rightarrow> 'e xstate list \<Rightarrow> 'e xstate list \<Rightarrow> bool" where
  "BM_SeastarShardedCacheParallel L n_shards = one_steps (exec_step L seastar_chain CollectAll (iters_per_shard n_shards))"

definition cache_service_verify :: "nat \<Rightarrow> 'e xstate \<Rightarrow> (string \<times> string) list result" where
  "cache_service_verify iters s = checkWork (x_cache s) (of_nat iters)"

lemma sleep_shard_exists: "0 < count \<Longrightarrow> sleep_shard count f < count"
proof -
  assume "0 < count"
  then have "f mod nshard count < nshard count" by (intro mod_less_divisor) (simp add: nshard_def num_tasks_def)
  then show ?thesis by (simp add: sleep_shard_def nshard_def)
qed

lemma seastar_chain_ok: "n \<le> max_iter \<Longrightarrow> chain_ok seastar_chain CollectAll n"
  by (auto simp: chain_ok_def seastar_chain_def calcs_before_def max_iter_def count_ok_def start_val_def INT_MAX_def)

lemma seastar_chain_calcs [simp]: "calcs_before seastar_chain 3 = 2" "length seastar_chain = 3"
  by (simp_all add: calcs_before_def seastar_chain_def)

text \<open>
  The benchmark with one cache is correct for every library that runs the tasks of a shard one at
  a time and forgets none: in every schedule at most one task is in \<open>calc\<close>, and none fails there; the
  schedule is bounded and never stuck before the main thread returns; and then \<open>checkWork\<close> finds all
  counters exact. Every sleep goes to a shard that exists.
\<close>

theorem seastar_hash_correct:
  assumes "executor_laws L pending running ready" and "\<And>x. pending x e = {} \<and> running x e = {}"
    and "(BM_SeastarHash L ^^ m) (exec_init e) s" and "0 < count"
  shows "schedule_correct (BM_SeastarHash L) m s \<and> sleep_shard count f < count"
proof
  have "schedule_correct (exec_step L seastar_chain CollectAll max_iter) m s"
    by (rule two_calcs_correct [OF assms(1,2) seastar_chain_ok])
      (use assms(3) in \<open>simp_all add: BM_SeastarHash_def\<close>)
  then show "schedule_correct (BM_SeastarHash L) m s" by (simp add: BM_SeastarHash_def)
  show "sleep_shard count f < count" using assms(4) by (rule sleep_shard_exists)
qed

interpretation seastar_list: serial_chain list_executors list_pending list_running "\<lambda>_. True"
  seastar_chain CollectAll max_iter
  by unfold_locales (simp add: seastar_chain_ok)

theorem seastar_hash_correct_witness:
  "\<exists>m s. (BM_SeastarHash list_executors ^^ m) (exec_init list_lib_zero) s \<and> m \<le> 151002 \<and>
     x_main s = XReturned \<and> checkWork (x_cache s) (of_nat max_iter) = Inr [] \<and> sleep_shard 4 999 < 4"
proof -
  obtain m s where s: "(BM_SeastarHash list_executors ^^ m) (exec_init list_lib_zero) s" "x_main s = XReturned"
    using seastar_list.chain_returns [of list_lib_zero] by (auto simp: BM_SeastarHash_def)
  then show ?thesis
    using seastar_hash_correct [OF list_lib.executor_laws_axioms, of list_lib_zero m s 4 999]
    by (auto simp: schedule_correct_def)
qed

text \<open>All shards side by side.\<close>

lemma checkWork_shard:
  assumes "iters \<le> max_iter"
  shows "checkWork (cache_at (2 * iters) 0) (of_nat iters) =
    (if iters = 0 then Inl (Uncaught ''std::out_of_range'') else Inr [])"
proof (cases "iters = 0")
  case True
  then show ?thesis by (simp add: checkWork_def num_calc_def upt_rec)
next
  case False
  have "start_val + 2 * int iters \<le> INT_MAX" using assms by (simp add: start_val_def max_iter_def INT_MAX_def)
  then have "uint (word_of_int start_val + of_nat iters * 2 :: 32 word) = start_val + 2 * int iters"
    by (rule expected_value)
  then show ?thesis using False checkWork_at [of "2 * iters"] by simp
qed

text \<open>
  C17. The benchmark with a cache on every shard, for every number \<open>n\<close> of shards: every schedule is
  bounded and not stuck before all shards have finished. Then \<open>verify\<close> finds the counters of every shard
  exact, as long as there are at most 1000 shards; with more shards than iterations a shard has none,
  its cache stays empty, and \<open>verify\<close> throws \<open>std::out_of_range\<close> on every shard.
\<close>

theorem seastar_sharded_correct:
  assumes "executor_laws L pending running ready" and "\<And>x. pending x e = {} \<and> running x e = {}" and "0 < n"
    and "(BM_SeastarShardedCacheParallel L n ^^ m) (replicate n (exec_init e)) ss"
  shows "length ss = n \<and> m \<le> n * (iters_per_shard n * 76 + 2) \<and>
    ((\<exists>s \<in> set ss. x_main s \<noteq> XReturned) \<longrightarrow> (\<exists>ts. BM_SeastarShardedCacheParallel L n ss ts)) \<and>
    ((\<forall>s \<in> set ss. x_main s = XReturned) \<longrightarrow>
       (\<forall>s \<in> set ss. cache_service_verify (iters_per_shard n) s =
          (if n \<le> 1000 then Inr [] else Inl (Uncaught ''std::out_of_range''))))"
proof -
  let ?k = "iters_per_shard n"
  have k: "?k \<le> max_iter" "?k = 0 \<longleftrightarrow> 1000 < n"
    using assms(3) by (auto simp: iters_per_shard_def max_iter_def div_eq_0_iff)
  note correct = serial_chain.copies_correct [OF serial_chainI [OF assms(1) seastar_chain_ok [OF k(1)]] assms(2)]
  have steps: "(one_steps (exec_step L seastar_chain CollectAll ?k) ^^ m) (replicate n (exec_init e)) ss"
    using assms(4) by (simp add: BM_SeastarShardedCacheParallel_def)
  have "cache_service_verify ?k s = (if n \<le> 1000 then Inr [] else Inl (Uncaught ''std::out_of_range''))"
    if "x_cache s = cache_at (2 * ?k) 0" for s :: "'a xstate"
    using that checkWork_shard [OF k(1)] k(2) by (auto simp: cache_service_verify_def)
  then show ?thesis
    using correct [OF steps] by (simp add: BM_SeastarShardedCacheParallel_def)
qed

lemma seastar_shards_return:
  "\<exists>m ss. (BM_SeastarShardedCacheParallel list_executors n ^^ m) (replicate n (exec_init list_lib_zero)) ss \<and>
     (\<forall>s \<in> set ss. x_main s = XReturned)"
proof -
  have "iters_per_shard n \<le> max_iter" by (simp add: iters_per_shard_def)
  from serial_chainI [OF list_lib.executor_laws_axioms seastar_chain_ok [OF this]] show ?thesis
    unfolding BM_SeastarShardedCacheParallel_def by (rule serial_chain.copies_return) simp
qed

theorem seastar_sharded_correct_witness:
  "(\<exists>m ss. (BM_SeastarShardedCacheParallel list_executors 4 ^^ m) (replicate 4 (exec_init list_lib_zero)) ss \<and>
      m \<le> 76008 \<and> length ss = 4 \<and> (\<forall>s \<in> set ss. cache_service_verify 250 s = Inr [])) \<and>
   (\<exists>m ss. (BM_SeastarShardedCacheParallel list_executors 1001 ^^ m) (replicate 1001 (exec_init list_lib_zero)) ss \<and>
      length ss = 1001 \<and> (\<forall>s \<in> set ss. cache_service_verify 0 s = Inl (Uncaught ''std::out_of_range'')))"
proof -
  note correct = seastar_sharded_correct [OF list_lib.executor_laws_axioms, of list_lib_zero]
  have iters: "iters_per_shard 4 = 250" "iters_per_shard 1001 = 0" by (simp_all add: iters_per_shard_def max_iter_def)
  show ?thesis
    using seastar_shards_return [of 4] seastar_shards_return [of 1001] correct [of 4] correct [of 1001]
    by (fastforce simp: iters)
qed

end
