(* ===== verification/Spec2Isabelle.thy ===== *)
theory Spec2Isabelle
  imports MemcpyMain MmapMain ShmemMain ShmemSemMain ShmemProtocol EpollMain SelectMain KqueueMain
    UdpEpollMain UdpKqueueMain MulticastProps ZeromqMain LibeventMain
    ShmemChannel MutexBench AsyncBench ThreadPool FakeIo BoostBench FollyBench SeastarBench
begin

text \<open>
  A verification of EvaluateIPC.

  \<^bold>\<open>The program.\<close> The repository measures ways for two parties to talk to each other. Under
  src/ipcperf/ one client and one server exchange 1000 requests and responses over a transport:
  framework/framework.h declares the handlers and the main processor, echotestlib/echotestlib.h the
  two handlers, echotestlib/perftestmain.cpp the program, and each further directory one main
  processor with its event loop. A handler is called by the loop (\<open>process\<close>) and calls back into the
  processor (\<open>send\<close>, \<open>cancelLoop\<close>). Under src/tests/ threads update a shared cache of counters:
  benchcommon.hpp has the cache and its final check, mutexbench.cc the benchmarks on the standard
  library, and boostbench.cc, follybench.cc and seastar/seastar_bench.cc those on the executors of
  Boost.Asio, Folly and Seastar.

  \<^bold>\<open>The theories.\<close>
  \<^item> Prelude: results (return, exit, undefined behaviour, signal, uncaught exception, blocking), the
    loop combinator with its total-correctness rule, and the locales \<open>invariant_system\<close>,
    \<open>terminating_system\<close> and \<open>refinement\<close> for step relations. CMemory: buffers with indeterminate cells, \<open>strcmp\<close>,
    \<open>memcpy\<close>. Decimal: \<open>std::to_string\<close>, \<open>atoi\<close>, \<open>std::stoi\<close>.
  \<^item> Framework (framework.h): \<open>EventHandler\<close>, the virtual functions of \<open>EventMain\<close> as the records
    \<open>parent_ops\<close> and \<open>EventMain\<close>, clock and output; the record \<open>world\<close> holds the two handler objects
    and the transport's object.
  \<^item> EchoTest (echotestlib.h): \<open>EchoServer\<close> and \<open>EchoClient\<close>, and the locale \<open>echo_transport\<close>, the contract
    between handlers and transport. The exchange of all requests is proved once inside it; every
    transport interprets it on its own loop. A second interface, \<open>transport_keeps\<close>, says what a handler
    can do to a transport's invariant.
  \<^item> PerfMain (perftestmain.cpp): \<open>getopt\<close>, \<open>parseArgs\<close> and \<open>main\<close>, over any transport.
  \<^item> MemcpyMain (memcpyserver.cpp); SharedMem with MmapMain (mmapserver.cpp), ShmemMain
    (shmemserver.cpp) and ShmemSemMain (shmemsemserver.cpp): the transports over memory.
  \<^item> ShmemProtocol: client and server in two processes over the shared struct, as interleavings of
    single loads and stores, with busy waiting and with semaphores. ShmemChannel: the channel of
    complete messages that both protocols refine.
  \<^item> Sockets, with \<open>bindServer\<close>, \<open>send\<close> and \<open>connectToServer\<close> of the TCP transports over socket calls
    that are a parameter; EpollMain (epollserver.cpp), SelectMain (selectserver.cpp and
    udpselectserver.cpp, which has the same text) and KqueueMain (kqueueserver.cpp). The locales
    \<open>epoll_kernel\<close> and \<open>select_kernel\<close> state what epoll and select document. Loopback is an executable
    kernel, the TCP and UDP of one machine, that satisfies them and carries the end-to-end theorems.
  \<^item> UdpEpollMain (udpepollserver.cpp) and UdpKqueueMain (udpkqueueserver.cpp): the datagram transports,
    with the stack variables their handlers' contexts point to, which live only while the function
    that declares them runs; Datagram has the queues of their sockets in the loopback kernel.
  \<^item> MulticastMain (multicast.cpp), a program of its own with its own handlers and \<open>main\<close>; MulticastProps
    has its properties, over the locale \<open>multicast_kernel\<close>.
  \<^item> ZeromqMain (zeromqserver.cpp) and LibeventMain (eventserver.cpp): the transports over a library. The
    functions of the library are a parameter, and an executable instance, request and reply sockets
    or buffered connections inside one machine, carries the end-to-end theorems.
  \<^item> BenchCommon (benchcommon.hpp): \<open>calc\<close> and \<open>checkWork\<close>. FakeIo: the loop of \<open>devzero_io\<close>. CacheTask: the task that the benchmarks of
    mutexbench.cc share, split into steps. MutexBench, AsyncBench and ThreadPool: the benchmarks as
    step relations over all interleavings, each an interpretation of \<open>terminating_system\<close>.
  \<^item> StrandTask: a task as a chain of handlers on executors, which are a parameter; the locale
    \<open>executor_laws\<close> states what the libraries document. StrandRun: the invariant and the measure of such
    chains, proved once in the locale \<open>serial_chain\<close>, and an executable library. BoostBench
    (boostbench.cc), FollyBench (follybench.cc) and SeastarBench (seastar_bench.cc) are its clients.

  \<^bold>\<open>What is shown.\<close>
  \<^item> Every transport completes the benchmark with both roles in one process: \<open>main\<close> returns, both
    counters are at 1000, and the printed report has the elapsed microseconds and the rate
    (\<open>benchmark_done\<close>).
  \<^item> Over two processes the semaphore protocol is correct under every schedule; busy waiting never
    delivers a wrong message from a buffer that selects the right side, but has a race on the first
    request when the buffer is zeroed. Both are refinements of a channel with one place, into which
    complete messages are put and from which they are taken in single steps.
  \<^item> The epoll server never touches a freed \<open>MyEventData\<close> and the select server never leaves its arrays,
    for every operating system with the documented behaviour; the guard of the select server is off
    by one where that behaviour does not help, it closes connections on \<open>EAGAIN\<close>, and a message cut by
    TCP makes the handlers read indeterminate memory.
  \<^item> The UDP servers and the multicast program never send through a context whose stack frame is gone.
    The multicast client waits for ever when a datagram is lost. The ZeroMQ server overflows its path
    buffer on a long port argument. The libevent server answers the client whose connection it accepted
    last, even after that one's \<open>bufferevent\<close> was freed.
  \<^item> What is sent over the shared segment is what the other handler gets, byte for byte.
  \<^item> The counters of the cache count the calls of \<open>calc\<close>; the sequential benchmark with IO returns on
    every steady clock, with the outcome of the one without, and takes its time; under every schedule the mutex, async and
    thread-pool benchmarks keep mutual exclusion, never deadlock, lose no wake-up and no task, end
    after a bounded number of steps and pass \<open>checkWork\<close>. So do the benchmarks on strands and shards,
    which use no mutex, for every library that runs the handlers of a serial executor one at a time
    and forgets none; the sharded benchmark fails its own check with more than 1000 shards.

  \<^bold>\<open>Bounds and fuel.\<close> The event loops take a number of iterations as fuel; the theorems say how many are
  enough (2000, or 2001 where one round accepts the connection and 2003 with libevent, whose loop has
  a round for every callback; 1001 for the multicast program, which has one request), and that a loop
  that spins runs out of every fuel. \<open>OutOfFuel\<close> is never part of a result that is claimed to be reached. Step relations
  have no fuel: a measure bounds every schedule. Spurious wake-ups of a condition variable are
  limited to an arbitrary finite number. The executor benchmarks are modelled for one pass of their
  measurement loop, which starts with idle executors. Signed integers are checked against their
  range, unsigned ones are words. The clock is an arbitrary sequence of readings with normalised microseconds.

  \<^bold>\<open>Not modelled.\<close> Diagnostics on stderr (except with \<open>exit\<close>) and the trace macros; the text form of
  \<open>printCurrentTime\<close>; \<open>sleep_io\<close> and the sleep benchmarks, which only pass time; the benchmark library;
  failing memory allocation; a \<open>sem_wait\<close> that is interrupted by a signal; the unit tests of
  seastar_test.cc, which measure the length of a sleep. Accesses to shared memory are sequentially
  consistent.
\<close>

end
